(* ===== verification/Kernel_Prelude.thy ===== *)
theory Kernel_Prelude
  imports Main "HOL-Library.Word"
begin

unbundle bit_operations_syntax

text \<open>
  The vocabulary every component shares: the machine integers of the Rust sources, the
  arithmetic of \<^verbatim>\<open>core\<close> the sources call (\<^verbatim>\<open>saturating_add\<close>, \<^verbatim>\<open>checked_add\<close>, ...), the
  first-match operations of \<^verbatim>\<open>Iterator\<close>/\<^verbatim>\<open>Vec\<close> (\<^verbatim>\<open>find\<close>, \<^verbatim>\<open>position\<close>, an update through
  \<^verbatim>\<open>iter_mut().find\<close>, \<^verbatim>\<open>Vec::remove\<close> at a found position), byte slices, and the contract of
  a store of keyed items with the lemmas proved once from it.
\<close>

section \<open>Machine integers\<close>

type_synonym u8 = "8 word"
type_synonym u16 = "16 word"
type_synonym u32 = "32 word"
type_synonym u64 = "64 word"

type_synonym bytes = "u8 list"

named_theorems rust_arith \<open>unfolding of the core integer operations\<close>
named_theorems first_match \<open>first-match operations on vectors\<close>

definition saturating_add :: "'a::len word \<Rightarrow> 'a word \<Rightarrow> 'a word" where
  "saturating_add a b = (if unat a + unat b < 2 ^ LENGTH('a) then a + b else - 1)"

definition saturating_sub :: "'a::len word \<Rightarrow> 'a word \<Rightarrow> 'a word" where
  "saturating_sub a b = (if b \<le> a then a - b else 0)"

definition saturating_mul :: "'a::len word \<Rightarrow> 'a word \<Rightarrow> 'a word" where
  "saturating_mul a b = (if unat a * unat b < 2 ^ LENGTH('a) then a * b else - 1)"

definition checked_add :: "'a::len word \<Rightarrow> 'a word \<Rightarrow> 'a word option" where
  "checked_add a b = (if unat a + unat b < 2 ^ LENGTH('a) then Some (a + b) else None)"

definition checked_sub :: "'a::len word \<Rightarrow> 'a word \<Rightarrow> 'a word option" where
  "checked_sub a b = (if b \<le> a then Some (a - b) else None)"

definition div_ceil :: "nat \<Rightarrow> nat \<Rightarrow> nat" where
  "div_ceil a b = (if a mod b = 0 then a div b else a div b + 1)"

lemma checked_add_SomeD [rust_arith]:
  "checked_add a b = Some c \<Longrightarrow> unat c = unat a + unat b \<and> c = a + b"
  for a b c :: "'a::len word"
  by (auto simp: checked_add_def unat_word_ariths split: if_splits)

lemma checked_add_None_iff:
  "checked_add a b = None \<longleftrightarrow> 2 ^ LENGTH('a) \<le> unat a + unat b"
  for a b :: "'a::len word"
  by (simp add: checked_add_def not_less)

lemma checked_sub_SomeD:
  "checked_sub a b = Some c \<Longrightarrow> unat c = unat a - unat b \<and> c = a - b \<and> b \<le> a"
  for a b c :: "'a::len word"
  by (auto simp: checked_sub_def unat_sub split: if_splits)

lemma unat_saturating_add:
  "unat (saturating_add a b) = min (unat a + unat b) (2 ^ LENGTH('a) - 1)"
  for a b :: "'a::len word"
  by (auto simp: saturating_add_def unat_word_ariths unsigned_minus_1_eq_mask mask_eq_exp_minus_1 min_def)

lemma unat_saturating_sub:
  "unat (saturating_sub a b) = unat a - unat b" for a b :: "'a::len word"
  by (simp add: saturating_sub_def unat_sub word_le_nat_alt)

lemma saturating_add_ge: "a \<le> saturating_add a b" for a b :: "'a::len word"
proof -
  have "unat a < 2 ^ LENGTH('a)" by (rule unsigned_less)
  then have "unat a \<le> 2 ^ LENGTH('a) - 1" by linarith
  then show ?thesis
    by (simp add: word_le_nat_alt unat_saturating_add)
qed

lemma div_ceil_mult_ge:
  assumes "0 < b"
  shows "a \<le> div_ceil a b * b"
proof (cases "a mod b = 0")
  case True
  then have "div_ceil a b = a div b" by (simp add: div_ceil_def)
  with True show ?thesis using div_mult_mod_eq[of a b] by simp
next
  case False
  then have "div_ceil a b * b = a div b * b + b" by (simp add: div_ceil_def)
  moreover have "a mod b < b" using assms by simp
  ultimately show ?thesis using div_mult_mod_eq[of a b] by linarith
qed

lemma div_ceil_mult_less:
  assumes "0 < b"
  shows "div_ceil a b * b < a + b"
proof (cases "a mod b = 0")
  case True
  then have "div_ceil a b = a div b" by (simp add: div_ceil_def)
  with True show ?thesis using assms div_mult_mod_eq[of a b] by simp
next
  case False
  then have "div_ceil a b * b = a div b * b + b" by (simp add: div_ceil_def)
  with False show ?thesis using div_mult_mod_eq[of a b] by linarith
qed

section \<open>First-match operations\<close>

text \<open>\<^verbatim>\<open>if let Some(x) = v.iter_mut().find(p) { *x = f(x) }\<close>.\<close>

fun update_first :: "('a \<Rightarrow> bool) \<Rightarrow> ('a \<Rightarrow> 'a) \<Rightarrow> 'a list \<Rightarrow> 'a list" where
  "update_first P f [] = []"
| "update_first P f (x # xs) = (if P x then f x # xs else x # update_first P f xs)"

text \<open>\<^verbatim>\<open>v.remove(v.iter().position(p)?)\<close>.\<close>

fun remove_first :: "('a \<Rightarrow> bool) \<Rightarrow> 'a list \<Rightarrow> 'a list" where
  "remove_first P [] = []"
| "remove_first P (x # xs) = (if P x then xs else x # remove_first P xs)"

text \<open>\<^verbatim>\<open>v.iter().position(p)\<close>.\<close>

fun position :: "('a \<Rightarrow> bool) \<Rightarrow> 'a list \<Rightarrow> nat option" where
  "position P [] = None"
| "position P (x # xs) = (if P x then Some 0 else map_option Suc (position P xs))"

lemma length_update_first [simp]: "length (update_first P f xs) = length xs"
  by (induction xs) auto

lemma update_first_absent: "find P xs = None \<Longrightarrow> update_first P f xs = xs"
  by (induction xs) (auto split: if_splits)

lemma map_update_first:
  "(\<And>x. P x \<Longrightarrow> g (f x) = g x) \<Longrightarrow> map g (update_first P f xs) = map g xs"
  by (induction xs) auto

lemma find_SomeD: "find P xs = Some x \<Longrightarrow> P x \<and> x \<in> set xs"
  by (induction xs) (auto split: if_splits)

lemma find_None_iff_all: "find P xs = None \<longleftrightarrow> (\<forall>x\<in>set xs. \<not> P x)"
  by (induction xs) auto

lemma set_update_first:
  "set (update_first P f xs) \<subseteq> set xs \<union> {f x |x. find P xs = Some x}"
  by (induction xs) auto

lemma set_update_firstD:
  "y \<in> set (update_first P f xs) \<Longrightarrow> y \<in> set xs \<or> (\<exists>x. find P xs = Some x \<and> y = f x)"
  using set_update_first[of P f xs] by auto

lemma update_first_split:
  "find P xs = Some x \<Longrightarrow> \<exists>us vs. xs = us @ x # vs \<and> update_first P f xs = us @ f x # vs"
proof (induction xs)
  case (Cons y ys)
  show ?case
  proof (cases "P y")
    case True
    with Cons.prems have "y # ys = [] @ x # ys \<and> update_first P f (y # ys) = [] @ f x # ys" by simp
    then show ?thesis by blast
  next
    case False
    with Cons obtain us vs where "ys = us @ x # vs" "update_first P f ys = us @ f x # vs" by auto
    with False have "y # ys = (y # us) @ x # vs \<and> update_first P f (y # ys) = (y # us) @ f x # vs" by simp
    then show ?thesis by blast
  qed
qed simp

lemma find_update_first_same:
  "(\<And>x. P x \<Longrightarrow> P (f x)) \<Longrightarrow> find P (update_first P f xs) = map_option f (find P xs)"
  by (induction xs) auto

lemma find_update_first_other:
  "(\<And>x. P x \<Longrightarrow> \<not> Q x) \<Longrightarrow> (\<And>x. P x \<Longrightarrow> \<not> Q (f x)) \<Longrightarrow>
   find Q (update_first P f xs) = find Q xs"
  by (induction xs) auto

lemma find_append: "find P (xs @ ys) = (case find P xs of Some x \<Rightarrow> Some x | None \<Rightarrow> find P ys)"
  by (induction xs) auto

lemma find_remove_first_other:
  "(\<And>x. P x \<Longrightarrow> \<not> Q x) \<Longrightarrow> find Q (remove_first P xs) = find Q xs"
  by (induction xs) auto

lemma set_remove_first_subset: "set (remove_first P xs) \<subseteq> set xs"
  by (induction xs) auto

lemma remove_first_split:
  "find P xs = Some x \<Longrightarrow> \<exists>us vs. xs = us @ x # vs \<and> remove_first P xs = us @ vs"
proof (induction xs)
  case (Cons y ys)
  show ?case
  proof (cases "P y")
    case True
    with Cons.prems have "y # ys = [] @ x # ys \<and> remove_first P (y # ys) = [] @ ys" by simp
    then show ?thesis by blast
  next
    case False
    with Cons obtain us vs where "ys = us @ x # vs" "remove_first P ys = us @ vs" by auto
    with False have "y # ys = (y # us) @ x # vs \<and> remove_first P (y # ys) = (y # us) @ vs" by simp
    then show ?thesis by blast
  qed
qed simp

lemma remove_first_absent: "find P xs = None \<Longrightarrow> remove_first P xs = xs"
  by (induction xs) (auto split: if_splits)

lemma length_remove_first:
  "length (remove_first P xs) = length xs - (if find P xs = None then 0 else 1)"
proof (induction xs)
  case (Cons x xs)
  show ?case
  proof (cases "find P xs = None")
    case False
    then have "xs \<noteq> []" by auto
    then obtain n where "length xs = Suc n" by (cases xs) auto
    with Cons False show ?thesis by auto
  qed (use Cons in auto)
qed simp

lemma distinct_map_remove_first: "distinct (map g xs) \<Longrightarrow> distinct (map g (remove_first P xs))"
  by (induction xs) (use set_remove_first_subset in \<open>fastforce+\<close>)

lemma remove_first_distinct_key:
  "distinct (map g xs) \<Longrightarrow> x \<in> set (remove_first (\<lambda>y. g y = k) xs) \<longleftrightarrow> x \<in> set xs \<and> g x \<noteq> k"
  by (induction xs) (auto simp: image_iff)

lemma position_SomeD:
  "position P xs = Some i \<Longrightarrow> i < length xs \<and> P (xs ! i) \<and> (\<forall>j<i. \<not> P (xs ! j))"
proof (induction xs arbitrary: i)
  case (Cons x xs)
  show ?case
  proof (cases "P x")
    case False
    with Cons.prems obtain j where j: "position P xs = Some j" "i = Suc j" by auto
    from Cons.IH[OF j(1)] False j(2) show ?thesis
      by (auto simp: less_Suc_eq_0_disj)
  qed (use Cons.prems in auto)
qed simp

lemma position_None_iff: "position P xs = None \<longleftrightarrow> (\<forall>x\<in>set xs. \<not> P x)"
  by (induction xs) auto

lemma position_find: "map_option ((!) xs) (position P xs) = find P xs"
  by (induction xs) (auto simp: option.map_comp comp_def)

lemma find_distinct_key:
  "distinct (map g xs) \<Longrightarrow> x \<in> set xs \<Longrightarrow> find (\<lambda>y. g y = g x) xs = Some x"
  by (induction xs) (auto simp: image_iff)

lemma find_key_eq:
  "distinct (map g xs) \<Longrightarrow> find (\<lambda>y. g y = k) xs = Some x \<longleftrightarrow> x \<in> set xs \<and> g x = k"
  using find_distinct_key[of g xs x] by (auto dest: find_SomeD)

lemmas [first_match] =
  find_update_first_same find_update_first_other find_append find_remove_first_other
  length_remove_first find_None_iff_all

section \<open>Byte slices\<close>

text \<open>\<^verbatim>\<open>dst[at..at + src.len()].copy_from_slice(src)\<close> on an array that is long enough.\<close>

definition splice :: "nat \<Rightarrow> 'a list \<Rightarrow> 'a list \<Rightarrow> 'a list" where
  "splice at src dst = take at dst @ src @ drop (at + length src) dst"

definition slice :: "nat \<Rightarrow> nat \<Rightarrow> 'a list \<Rightarrow> 'a list" where
  "slice at n xs = take n (drop at xs)"

lemma length_splice [simp]: "at + length src \<le> length dst \<Longrightarrow> length (splice at src dst) = length dst"
  by (simp add: splice_def)

lemma length_slice: "at + n \<le> length xs \<Longrightarrow> length (slice at n xs) = n"
  by (simp add: slice_def)

lemma slice_splice_same:
  "at + length src \<le> length dst \<Longrightarrow> slice at (length src) (splice at src dst) = src"
  by (simp add: slice_def splice_def)

lemma slice_splice_before:
  "at' + n \<le> at \<Longrightarrow> at + length src \<le> length dst \<Longrightarrow> slice at' n (splice at src dst) = slice at' n dst"
  by (simp add: slice_def splice_def drop_take min_absorb1)

lemma slice_splice_after:
  "at + length src \<le> at' \<Longrightarrow> at + length src \<le> length dst \<Longrightarrow>
   slice at' n (splice at src dst) = slice at' n dst"
  by (simp add: slice_def splice_def)

lemma nth_splice:
  "at + length src \<le> length dst \<Longrightarrow> i < length dst \<Longrightarrow>
   splice at src dst ! i = (if at \<le> i \<and> i < at + length src then src ! (i - at) else dst ! i)"
  by (auto simp: splice_def nth_append min_def)

section \<open>The contract of a keyed store\<close>

text \<open>
  Processes by PID, threads by TID, nodes by inode number: each store answers a lookup by key
  and lets a caller mutate the found item in place. The clients rely on two laws only.
\<close>

locale keyed_store =
  fixes key :: "'v \<Rightarrow> 'k"
    and get :: "'s \<Rightarrow> 'k \<Rightarrow> 'v option"
    and modify :: "'k \<Rightarrow> ('v \<Rightarrow> 'v) \<Rightarrow> 's \<Rightarrow> 's"
  assumes get_key: "get s k = Some v \<Longrightarrow> key v = k"
    and get_modify:
      "(\<And>v. key (f v) = key v) \<Longrightarrow>
       get (modify k f s) k' = (if k' = k then map_option f (get s k) else get s k')"
begin

lemma get_modify_same:
  "(\<And>v. key (f v) = key v) \<Longrightarrow> get s k = Some v \<Longrightarrow> get (modify k f s) k = Some (f v)"
  by (simp add: get_modify)

lemma get_modify_other:
  "(\<And>v. key (f v) = key v) \<Longrightarrow> k' \<noteq> k \<Longrightarrow> get (modify k f s) k' = get s k'"
  by (simp add: get_modify)

lemma get_modify_dom:
  "(\<And>v. key (f v) = key v) \<Longrightarrow> get (modify k f s) k' = None \<longleftrightarrow> get s k' = None"
  by (simp add: get_modify)

text \<open>A loop over a list of keys that mutates each found item.\<close>

lemma get_fold_modify:
  assumes f: "\<And>v. key (f v) = key v" and d: "distinct ks"
  shows "get (fold (\<lambda>k. modify k f) ks s) k' =
    (if k' \<in> set ks then map_option f (get s k') else get s k')"
  using d
proof (induction ks arbitrary: s)
  case (Cons k ks)
  then show ?case by (auto simp: get_modify[OF f])
qed simp

end

text \<open>A vector searched front to back, with distinct keys or not, meets the contract.\<close>

lemma find_key_update_first:
  assumes "\<And>v. g (f v) = g v"
  shows "find (\<lambda>v. g v = k') (update_first (\<lambda>v. g v = k) f xs) =
    (if k' = k then map_option f (find (\<lambda>v. g v = k) xs) else find (\<lambda>v. g v = k') xs)"
  using assms by (induction xs) auto

end
