(* ===== verification/Bounded_Fifo.thy ===== *)
theory Bounded_Fifo
  imports Kernel_Prelude
begin

text \<open>
  Circular buffers and the contract of a bounded first-in first-out queue.  Pipes hold bytes and
  message queues hold whole messages in the same kind of ring (\<^verbatim>\<open>kernel/src/user/syscall.rs\<close>), and
  the wait queue of an event is a shifted array; each provides one \<open>put\<close> and one \<open>get\<close>, and what
  the callers rely on is proved here once.
\<close>

section \<open>Circular buffers\<close>

definition ring_contents :: "'a list \<Rightarrow> nat \<Rightarrow> nat \<Rightarrow> 'a list" where
  "ring_contents buf r n = map (\<lambda>i. buf ! ((r + i) mod length buf)) [0..<n]"

lemma length_ring_contents [simp]: "length (ring_contents buf r n) = n"
  by (simp add: ring_contents_def)

lemma ring_contents_0 [simp]: "ring_contents buf r 0 = []"
  by (simp add: ring_contents_def)

lemma ring_contents_empty_iff [simp]: "ring_contents buf r n = [] \<longleftrightarrow> n = 0"
  by (simp add: ring_contents_def)

lemma ring_index_neq:
  fixes L :: nat
  assumes "i < n" and "n < L"
  shows "(r + i) mod L \<noteq> (r + n) mod L"
proof
  assume "(r + i) mod L = (r + n) mod L"
  then have "(r + n - (r + i)) mod L = 0" using assms by (intro mod_eq_dvd_iff_nat[THEN iffD1, THEN dvd_imp_mod_0]) auto
  then show False using assms by simp
qed

lemma ring_put:
  assumes "n < length buf"
  shows "ring_contents (buf[(r + n) mod length buf := x]) r (Suc n) = ring_contents buf r n @ [x]"
proof -
  have "(r + n) mod length buf < length buf" using assms by (intro mod_less_divisor) linarith
  moreover have "(r + n) mod length buf \<noteq> (r + i) mod length buf" if "i < n" for i
    using ring_index_neq[OF that assms] by metis
  ultimately show ?thesis by (simp add: ring_contents_def)
qed

lemma ring_get:
  assumes "0 < n" and "r < length buf"
  shows "ring_contents buf r n = buf ! r # ring_contents buf ((r + 1) mod length buf) (n - 1)"
proof -
  obtain m where n: "n = Suc m" using assms(1) by (cases n) auto
  have "[0..<Suc m] = 0 # map Suc [0..<m]" by (simp add: upt_conv_Cons map_Suc_upt del: upt_Suc)
  then show ?thesis
    using assms(2) unfolding n ring_contents_def by (simp add: mod_simps del: upt_Suc)
qed

lemma ring_contents_update_outside:
  assumes "r < length buf" and "n \<le> length buf" and "0 < n"
  shows "ring_contents (buf[r := x]) ((r + 1) mod length buf) (n - 1) =
    ring_contents buf ((r + 1) mod length buf) (n - 1)"
proof -
  have "r \<noteq> ((r + 1) mod length buf + i) mod length buf" if "i < n - 1" for i
  proof -
    have "(r + 0) mod length buf \<noteq> (r + Suc i) mod length buf"
      using that assms by (intro ring_index_neq) auto
    then show ?thesis using assms(1) by (simp add: mod_simps)
  qed
  then show ?thesis by (auto simp: ring_contents_def)
qed

section \<open>The contract\<close>

text \<open>Taking \<open>n\<close> items, one after the other.\<close>

primrec drain :: "('s \<Rightarrow> 'a \<times> 's) \<Rightarrow> nat \<Rightarrow> 's \<Rightarrow> 'a list \<times> 's" where
  "drain get 0 s = ([], s)"
| "drain get (Suc n) s = (let (x, s) = get s; (xs, s) = drain get n s in (x # xs, s))"

locale bounded_fifo =
  fixes ok :: "'s \<Rightarrow> bool"
    and accepts :: "'a \<Rightarrow> bool"
    and items :: "'s \<Rightarrow> 'a list"
    and cap :: nat
    and put :: "'a \<Rightarrow> 's \<Rightarrow> 's"
    and get :: "'s \<Rightarrow> 'a \<times> 's"
  assumes put_ok: "ok s \<Longrightarrow> accepts x \<Longrightarrow> length (items s) < cap \<Longrightarrow> ok (put x s)"
    and put_items: "ok s \<Longrightarrow> accepts x \<Longrightarrow> length (items s) < cap \<Longrightarrow> items (put x s) = items s @ [x]"
    and get_ok: "ok s \<Longrightarrow> items s \<noteq> [] \<Longrightarrow> ok (snd (get s))"
    and get_items: "ok s \<Longrightarrow> items s \<noteq> [] \<Longrightarrow> items s = fst (get s) # items (snd (get s))"
begin

lemma put_all:
  "ok s \<Longrightarrow> list_all accepts xs \<Longrightarrow> length (items s) + length xs \<le> cap \<Longrightarrow>
   ok (fold put xs s) \<and> items (fold put xs s) = items s @ xs"
  by (induction xs arbitrary: s) (auto simp: put_ok put_items)

lemma drain_all:
  "ok s \<Longrightarrow> n \<le> length (items s) \<Longrightarrow>
   ok (snd (drain get n s)) \<and> fst (drain get n s) = take n (items s) \<and>
   items (snd (drain get n s)) = drop n (items s)"
proof (induction n arbitrary: s)
  case (Suc n)
  then have ne: "items s \<noteq> []" by auto
  note i = get_items[OF Suc.prems(1) ne]
  from i Suc.prems(2) have len: "n \<le> length (items (snd (get s)))" by (metis Suc_le_mono length_Cons)
  from Suc.IH[OF get_ok[OF Suc.prems(1) ne] len] i show ?case
    by (cases "items s") (simp_all add: case_prod_beta Let_def)
qed simp

text \<open>Whatever is put into the queue comes out in the order it went in, after what was there.\<close>

lemma put_then_drain:
  assumes "ok s" and "list_all accepts xs" and "length (items s) + length xs \<le> cap"
  shows "fst (drain get (length (items s) + length xs) (fold put xs s)) = items s @ xs"
  using put_all[OF assms] drain_all[of "fold put xs s" "length (items s) + length xs"] by simp

end

text \<open>Conservation of a stream composes: \<open>sent\<close> went in, \<open>got\<close> came out.\<close>

lemma stream_compose:
  "xs @ sent = got @ ys \<Longrightarrow> ys @ sent' = got' @ zs \<Longrightarrow> xs @ (sent @ sent') = (got @ got') @ zs"
  by (metis append.assoc)

section \<open>Shifted arrays\<close>

text \<open>\<^verbatim>\<open>for index in from..count { v[index - 1] = v[index] }\<close>.\<close>

definition shift_down :: "nat \<Rightarrow> nat \<Rightarrow> 'a list \<Rightarrow> 'a list" where
  "shift_down from count xs = fold (\<lambda>index xs. xs[index - 1 := xs ! index]) [from..<count] xs"

lemma length_shift_down [simp]: "length (shift_down a n xs) = length xs"
proof -
  have "length (fold (\<lambda>index xs. xs[index - 1 := xs ! index]) is xs) = length xs" for "is"
    by (induction "is" arbitrary: xs) auto
  then show ?thesis by (simp add: shift_down_def)
qed

lemma nth_shift_down:
  assumes "0 < a" and "a \<le> n" and "n \<le> length xs" and "i < length xs"
  shows "shift_down a n xs ! i = (if a \<le> i + 1 \<and> i + 1 < n then xs ! (i + 1) else xs ! i)"
  using assms(2,3,4)
proof (induction n arbitrary: i rule: dec_induct)
  case base
  then show ?case by (auto simp: shift_down_def)
next
  case (step m)
  have l: "length (shift_down a m xs) = length xs" by simp
  have e: "shift_down a (Suc m) xs = (shift_down a m xs)[m - 1 := shift_down a m xs ! m]"
    using step.hyps by (simp add: shift_down_def)
  show ?case using step assms(1) unfolding e by (auto simp: nth_list_update)
qed

end
