(* ===== verification/Threads.thy ===== *)
theory Threads
  imports Kernel_Prelude
begin

text \<open>
  Threads and the per-process thread store (\<^verbatim>\<open>kernel/src/user/thread.rs\<close>), with the saved
  register image a thread is resumed from (\<^verbatim>\<open>UserResumeContext\<close> of
  \<^verbatim>\<open>kernel/src/user/process.rs\<close> and \<^verbatim>\<open>SyscallFrame\<close> of \<^verbatim>\<open>kernel/src/user/syscall.rs\<close>).
  The store is a vector searched front to back; it meets the keyed-store contract of the
  prelude, never holds two threads of one TID, never exceeds its capacity, and keeps its main
  thread.
\<close>

type_synonym tid = u32
type_synonym pid = u32

section \<open>Saved register images\<close>

record syscall_frame =
  f_number :: u64
  f_arg0 :: u64
  f_arg1 :: u64
  f_arg2 :: u64
  f_arg3 :: u64
  f_arg4 :: u64
  f_arg5 :: u64
  f_user_rip :: u64
  f_user_rsp :: u64
  f_user_rflags :: u64
  f_rbx :: u64
  f_rcx :: u64
  f_rdx :: u64
  f_rsi :: u64
  f_rdi :: u64
  f_rbp :: u64
  f_r8 :: u64
  f_r9 :: u64
  f_r10 :: u64
  f_r11 :: u64
  f_r12 :: u64
  f_r13 :: u64
  f_r14 :: u64
  f_r15 :: u64

record user_resume_context =
  c_rip :: u64
  c_rsp :: u64
  c_rflags :: u64
  c_rbx :: u64
  c_rcx :: u64
  c_rdx :: u64
  c_rsi :: u64
  c_rdi :: u64
  c_rbp :: u64
  c_r8 :: u64
  c_r9 :: u64
  c_r10 :: u64
  c_r11 :: u64
  c_r12 :: u64
  c_r13 :: u64
  c_r14 :: u64
  c_r15 :: u64
  c_rax :: u64

definition empty_context :: user_resume_context where
  "empty_context = \<lparr>c_rip = 0, c_rsp = 0, c_rflags = 0x202, c_rbx = 0, c_rcx = 0, c_rdx = 0,
     c_rsi = 0, c_rdi = 0, c_rbp = 0, c_r8 = 0, c_r9 = 0, c_r10 = 0, c_r11 = 0, c_r12 = 0,
     c_r13 = 0, c_r14 = 0, c_r15 = 0, c_rax = 0\<rparr>"

definition from_syscall_frame :: "syscall_frame \<Rightarrow> user_resume_context" where
  "from_syscall_frame f = \<lparr>c_rip = f_user_rip f, c_rsp = f_user_rsp f,
     c_rflags = f_user_rflags f, c_rbx = f_rbx f, c_rcx = f_rcx f, c_rdx = f_rdx f,
     c_rsi = f_rsi f, c_rdi = f_rdi f, c_rbp = f_rbp f, c_r8 = f_r8 f, c_r9 = f_r9 f,
     c_r10 = f_r10 f, c_r11 = f_r11 f, c_r12 = f_r12 f, c_r13 = f_r13 f, c_r14 = f_r14 f,
     c_r15 = f_r15 f, c_rax = 0\<rparr>"

section \<open>Threads\<close>

datatype thread_kind = TKernel | TUser

datatype thread_state =
  TCreated | TReady | TRunning | TBlocked | TStopped | TExited | TZombie | TReaped

record thread =
  t_tid :: tid
  t_process_id :: pid
  t_kind :: thread_kind
  t_state :: thread_state
  t_resume_context :: "user_resume_context option"
  t_signal_return_context :: "user_resume_context option"
  t_context_switches :: u64
  t_runtime_ticks :: u64
  t_last_started_tick :: "u64 option"
  t_user_stack_start :: "u64 option"
  t_user_stack_top :: "u64 option"
  t_kernel_managed_stack :: bool
  t_waiting_for :: "tid option"

definition thread_new :: "tid \<Rightarrow> pid \<Rightarrow> thread_kind \<Rightarrow> thread" where
  "thread_new tid process_id kind = \<lparr>t_tid = tid, t_process_id = process_id, t_kind = kind,
     t_state = TCreated, t_resume_context = None, t_signal_return_context = None,
     t_context_switches = 0, t_runtime_ticks = 0, t_last_started_tick = None,
     t_user_stack_start = None, t_user_stack_top = None, t_kernel_managed_stack = False,
     t_waiting_for = None\<rparr>"

definition with_user_stack :: "u64 \<Rightarrow> u64 \<Rightarrow> thread \<Rightarrow> thread" where
  "with_user_stack stack_start stack_top t =
     t\<lparr>t_user_stack_start := Some stack_start, t_user_stack_top := Some stack_top\<rparr>"

definition with_kernel_managed_stack :: "thread \<Rightarrow> thread" where
  "with_kernel_managed_stack t = t\<lparr>t_kernel_managed_stack := True\<rparr>"

section \<open>The thread store\<close>

definition MAX_THREADS_PER_PROCESS :: nat where
  "MAX_THREADS_PER_PROCESS = 16"

record thread_store =
  ts_main_tid :: tid
  ts_items :: "thread list"

definition threads_with_main :: "thread \<Rightarrow> thread_store" where
  "threads_with_main main = \<lparr>ts_main_tid = t_tid main, ts_items = [main]\<rparr>"

definition threads_get :: "thread_store \<Rightarrow> tid \<Rightarrow> thread option" where
  "threads_get s tid = find (\<lambda>t. t_tid t = tid) (ts_items s)"

text \<open>\<^verbatim>\<open>get_mut\<close> followed by an in-place mutation of the found thread.\<close>

definition threads_modify :: "tid \<Rightarrow> (thread \<Rightarrow> thread) \<Rightarrow> thread_store \<Rightarrow> thread_store" where
  "threads_modify tid f s =
     s\<lparr>ts_items := update_first (\<lambda>t. t_tid t = tid) f (ts_items s)\<rparr>"

text \<open>
  \<^verbatim>\<open>main()\<close> panics when the store lost its main thread: \<^term>\<open>None\<close> here.  Every store a
  process holds keeps it (\<open>threads_ok\<close> below), so the panic is unreachable.
\<close>

definition threads_main :: "thread_store \<Rightarrow> thread option" where
  "threads_main s = threads_get s (ts_main_tid s)"

definition threads_modify_main :: "(thread \<Rightarrow> thread) \<Rightarrow> thread_store \<Rightarrow> thread_store" where
  "threads_modify_main f s = threads_modify (ts_main_tid s) f s"

definition threads_insert :: "thread \<Rightarrow> thread_store \<Rightarrow> bool \<times> thread_store" where
  "threads_insert t s =
     (if MAX_THREADS_PER_PROCESS \<le> length (ts_items s)
         \<or> map_option t_process_id (threads_main s) \<noteq> Some (t_process_id t)
         \<or> threads_get s (t_tid t) \<noteq> None
      then (False, s)
      else (True, s\<lparr>ts_items := ts_items s @ [t]\<rparr>))"

definition stack_range_available :: "u64 \<Rightarrow> u64 \<Rightarrow> thread_store \<Rightarrow> bool" where
  "stack_range_available stack_start stack_top s \<longleftrightarrow>
     stack_start < stack_top \<and>
     list_all (\<lambda>t. case (t_user_stack_start t, t_user_stack_top t) of
         (Some existing_start, Some existing_top) \<Rightarrow>
           stack_top \<le> existing_start \<or> existing_top \<le> stack_start
       | _ \<Rightarrow> True) (ts_items s)"

definition threads_len :: "thread_store \<Rightarrow> nat" where
  "threads_len s = length (ts_items s)"

interpretation thread_items: keyed_store t_tid threads_get threads_modify
  by unfold_locales
    (auto simp: threads_get_def threads_modify_def find_key_update_first dest: find_SomeD)

section \<open>The invariant of a thread store\<close>

definition tids_of :: "thread_store \<Rightarrow> tid list" where
  "tids_of s = map t_tid (ts_items s)"

definition threads_ok :: "pid \<Rightarrow> thread_store \<Rightarrow> bool" where
  "threads_ok p s \<longleftrightarrow>
     distinct (tids_of s) \<and> ts_main_tid s \<in> set (tids_of s) \<and>
     length (ts_items s) \<le> MAX_THREADS_PER_PROCESS \<and>
     list_all (\<lambda>t. t_process_id t = p) (ts_items s)"

lemma threads_get_SomeD: "threads_get s tid = Some t \<Longrightarrow> t_tid t = tid \<and> t \<in> set (ts_items s)"
  by (auto simp: threads_get_def dest: find_SomeD)

lemma threads_get_None_iff: "threads_get s tid = None \<longleftrightarrow> tid \<notin> set (tids_of s)"
  by (auto simp: threads_get_def tids_of_def find_None_iff_all)

lemma threads_get_iff:
  "threads_ok p s \<Longrightarrow> threads_get s tid = Some t \<longleftrightarrow> t \<in> set (ts_items s) \<and> t_tid t = tid"
  by (simp add: threads_ok_def threads_get_def tids_of_def find_key_eq)

lemma threads_ok_main: "threads_ok p s \<Longrightarrow> \<exists>t. threads_main s = Some t \<and> t_process_id t = p"
proof -
  assume ok: "threads_ok p s"
  then have "threads_get s (ts_main_tid s) \<noteq> None"
    by (simp add: threads_ok_def threads_get_None_iff)
  then obtain t where t: "threads_main s = Some t" by (auto simp: threads_main_def)
  with ok have "t_process_id t = p"
    by (auto simp: threads_ok_def threads_main_def list_all_iff dest: threads_get_SomeD)
  with t show ?thesis by blast
qed

lemma tids_of_modify [simp]:
  "(\<And>t. t_tid (f t) = t_tid t) \<Longrightarrow> tids_of (threads_modify tid f s) = tids_of s"
  by (simp add: tids_of_def threads_modify_def map_update_first)

lemma main_tid_modify [simp]: "ts_main_tid (threads_modify tid f s) = ts_main_tid s"
  by (simp add: threads_modify_def)

lemma threads_ok_modify:
  assumes "\<And>t. t_tid (f t) = t_tid t" and "\<And>t. t_process_id (f t) = t_process_id t"
  shows "threads_ok p s \<Longrightarrow> threads_ok p (threads_modify tid f s)"
  using assms
  by (auto simp: threads_ok_def threads_modify_def list_all_iff tids_of_def map_update_first
      dest!: set_update_firstD find_SomeD)

lemma threads_ok_modify_main:
  assumes "\<And>t. t_tid (f t) = t_tid t" and "\<And>t. t_process_id (f t) = t_process_id t"
  shows "threads_ok p s \<Longrightarrow> threads_ok p (threads_modify_main f s)"
  using threads_ok_modify[OF assms] by (simp add: threads_modify_main_def)

lemma threads_ok_with_main: "threads_ok (t_process_id t) (threads_with_main t)"
  by (simp add: threads_ok_def threads_with_main_def tids_of_def MAX_THREADS_PER_PROCESS_def)

lemma threads_insert_ok:
  assumes ok: "threads_ok p s" and ins: "threads_insert t s = (b, s')"
  shows "threads_ok p s'"
proof -
  from threads_ok_main[OF ok] obtain m
    where m: "threads_main s = Some m" "t_process_id m = p" by blast
  show ?thesis
  proof (cases b)
    case False
    with ins have "s' = s" by (auto simp: threads_insert_def split: if_splits)
    with ok show ?thesis by simp
  next
    case True
    with ins m have "s' = s\<lparr>ts_items := ts_items s @ [t]\<rparr>"
      and "length (ts_items s) < MAX_THREADS_PER_PROCESS"
      and "t_process_id t = p" and "t_tid t \<notin> set (tids_of s)"
      by (auto simp: threads_insert_def threads_get_None_iff split: if_splits)
    with ok show ?thesis by (auto simp: threads_ok_def tids_of_def)
  qed
qed

text \<open>What an accepted insertion makes visible, and what a refused one keeps.\<close>

lemma threads_insert_get:
  "threads_insert t s = (True, s') \<Longrightarrow>
   threads_get s' k = (if k = t_tid t then Some t else threads_get s k)"
  by (auto simp: threads_insert_def threads_get_def find_append split: if_splits option.splits)

lemma threads_insert_refused: "threads_insert t s = (False, s') \<Longrightarrow> s' = s"
  by (auto simp: threads_insert_def split: if_splits)

lemma threads_insert_tids:
  "threads_insert t s = (True, s') \<Longrightarrow> tids_of s' = tids_of s @ [t_tid t] \<and> ts_main_tid s' = ts_main_tid s"
  by (auto simp: threads_insert_def tids_of_def split: if_splits)

section \<open>Disjoint user stacks\<close>

definition stack_disjoint :: "thread \<Rightarrow> thread \<Rightarrow> bool" where
  "stack_disjoint a b \<longleftrightarrow>
     (case (t_user_stack_start a, t_user_stack_top a, t_user_stack_start b, t_user_stack_top b) of
        (Some s, Some e, Some s', Some e') \<Rightarrow> e \<le> s' \<or> e' \<le> s
      | _ \<Rightarrow> True)"

definition stacks_disjoint :: "thread_store \<Rightarrow> bool" where
  "stacks_disjoint s \<longleftrightarrow> sorted_wrt stack_disjoint (ts_items s)"

lemma stack_range_available_insert:
  assumes "stacks_disjoint s" and "stack_range_available lo hi s"
    and "t_user_stack_start t = Some lo" and "t_user_stack_top t = Some hi"
    and "threads_insert t s = (b, s')"
  shows "stacks_disjoint s'"
proof -
  have "stack_disjoint x t" if "x \<in> set (ts_items s)" for x
    using that assms(2-4)
    by (cases "t_user_stack_start x"; cases "t_user_stack_top x")
      (force simp: stack_range_available_def list_all_iff stack_disjoint_def)+
  with assms(1,5) show ?thesis
    by (auto simp: stacks_disjoint_def threads_insert_def sorted_wrt_append split: if_splits)
qed

end
