(* ===== verification/User_Layout.thy ===== *)
theory User_Layout
  imports Kernel_Prelude Threads
begin

text \<open>
  The user address-space layout (\<^verbatim>\<open>kernel/src/user/ring3.rs\<close>) and the pool of private level-4
  page tables with their user stacks (\<^verbatim>\<open>kernel/src/user/address_space.rs\<close>).  The statics of the
  module are the fields of the record \<open>mm\<close>; the physical memory behind the boot-time direct
  mapping is a byte function.
\<close>

section \<open>Layout constants\<close>

definition USER_BASE :: u64 where "USER_BASE = 0x01000000"
definition FIRST_USER_ENTRY :: u64 where "FIRST_USER_ENTRY = USER_BASE"
definition FIRST_USER_STACK_TOP :: u64 where "FIRST_USER_STACK_TOP = USER_BASE + 0x00400000"
definition USER_STACK_PAGE_COUNT :: u64 where "USER_STACK_PAGE_COUNT = 4"
definition USER_STACK_GUARD_SIZE :: u64 where "USER_STACK_GUARD_SIZE = 4096"
definition USER_STACK_SIZE :: u64 where "USER_STACK_SIZE = 4096 * USER_STACK_PAGE_COUNT"
definition USER_STACK_SLOT_SIZE :: u64 where
  "USER_STACK_SLOT_SIZE = USER_STACK_SIZE + USER_STACK_GUARD_SIZE"
definition USER_STACK_SLOT_COUNT :: u64 where "USER_STACK_SLOT_COUNT = 8"
definition USER_STACK_REGION_SIZE :: u64 where
  "USER_STACK_REGION_SIZE = USER_STACK_SLOT_SIZE * USER_STACK_SLOT_COUNT"
definition USER_STACK_REGION_START :: u64 where
  "USER_STACK_REGION_START = FIRST_USER_STACK_TOP - USER_STACK_REGION_SIZE"
definition USER_PROGRAM_AREA_SIZE :: u64 where
  "USER_PROGRAM_AREA_SIZE = USER_STACK_REGION_START - FIRST_USER_ENTRY"
definition FIRST_USER_PAGE_SIZE :: u64 where "FIRST_USER_PAGE_SIZE = 4096"

lemmas layout_consts =
  USER_BASE_def FIRST_USER_ENTRY_def FIRST_USER_STACK_TOP_def USER_STACK_PAGE_COUNT_def
  USER_STACK_GUARD_SIZE_def USER_STACK_SIZE_def USER_STACK_SLOT_SIZE_def
  USER_STACK_SLOT_COUNT_def USER_STACK_REGION_SIZE_def USER_STACK_REGION_START_def
  USER_PROGRAM_AREA_SIZE_def FIRST_USER_PAGE_SIZE_def

record user_memory_layout =
  l_program_start :: u64
  l_program_end :: u64
  l_stack_start :: u64
  l_stack_top :: u64

definition layout_kernel_placeholder :: user_memory_layout where
  "layout_kernel_placeholder =
     \<lparr>l_program_start = 0, l_program_end = 0, l_stack_start = 0, l_stack_top = 0\<rparr>"

definition stack_top_for_pid :: "pid \<Rightarrow> u64" where
  "stack_top_for_pid p =
     (let slot = ucast (saturating_sub p 2) mod USER_STACK_SLOT_COUNT
      in FIRST_USER_STACK_TOP - slot * USER_STACK_SLOT_SIZE)"

text \<open>\<^verbatim>\<open>u64::div_ceil\<close> rounds the quotient up when the division leaves a remainder.\<close>

definition u64_div_ceil :: "u64 \<Rightarrow> u64 \<Rightarrow> u64" where
  "u64_div_ceil a b = (if a mod b = 0 then a div b else a div b + 1)"

definition align_user_program_size :: "u64 \<Rightarrow> u64" where
  "align_user_program_size sz =
     (let sz = max sz FIRST_USER_PAGE_SIZE;
          aligned = u64_div_ceil sz FIRST_USER_PAGE_SIZE * FIRST_USER_PAGE_SIZE
      in min aligned USER_PROGRAM_AREA_SIZE)"

definition memory_layout_for_pid_with_program_size :: "pid \<Rightarrow> u64 \<Rightarrow> user_memory_layout" where
  "memory_layout_for_pid_with_program_size p program_size =
     (let stack_top = stack_top_for_pid p;
          program_size = align_user_program_size program_size
      in \<lparr>l_program_start = FIRST_USER_ENTRY,
          l_program_end = FIRST_USER_ENTRY + program_size,
          l_stack_start = stack_top - USER_STACK_SIZE,
          l_stack_top = stack_top\<rparr>)"

definition memory_layout_for_pid :: "pid \<Rightarrow> user_memory_layout" where
  "memory_layout_for_pid p = memory_layout_for_pid_with_program_size p USER_PROGRAM_AREA_SIZE"

section \<open>Address spaces\<close>

datatype address_space_kind = ASKernel | KernelSharedUser | PreparedUser | IsolatedUser

record address_space =
  as_kind :: address_space_kind
  as_p4_frame :: "u64 option"
  as_p4_verified :: bool
  as_entry_point :: u64
  as_layout :: user_memory_layout

datatype address_space_error =
  FrameAllocationFailed | MissingPhysicalMemoryOffset | NoKernelP4 | NoPreparedP4
| PrivateMappingNotFound | PrivateMappingTooSmall | SwitchVerificationFailed
| UserMappingNotAccessible

definition as_kernel_placeholder :: "u64 \<Rightarrow> address_space" where
  "as_kernel_placeholder entry_point =
     \<lparr>as_kind = ASKernel, as_p4_frame = None, as_p4_verified = False,
      as_entry_point = entry_point, as_layout = layout_kernel_placeholder\<rparr>"

definition as_kernel_shared_user :: "u64 \<Rightarrow> user_memory_layout \<Rightarrow> address_space" where
  "as_kernel_shared_user entry_point layout =
     \<lparr>as_kind = KernelSharedUser, as_p4_frame = None, as_p4_verified = False,
      as_entry_point = entry_point, as_layout = layout\<rparr>"

definition as_isolated_user :: "u64 \<Rightarrow> user_memory_layout \<Rightarrow> u64 \<Rightarrow> address_space" where
  "as_isolated_user entry_point layout p4_frame =
     \<lparr>as_kind = IsolatedUser, as_p4_frame = Some p4_frame, as_p4_verified = True,
      as_entry_point = entry_point, as_layout = layout\<rparr>"

definition as_prepared_user :: "u64 \<Rightarrow> user_memory_layout \<Rightarrow> u64 \<Rightarrow> address_space" where
  "as_prepared_user entry_point layout p4_frame =
     \<lparr>as_kind = PreparedUser, as_p4_frame = Some p4_frame, as_p4_verified = False,
      as_entry_point = entry_point, as_layout = layout\<rparr>"

definition as_verified_prepared_user :: "u64 \<Rightarrow> user_memory_layout \<Rightarrow> u64 \<Rightarrow> address_space" where
  "as_verified_prepared_user entry_point layout p4_frame =
     \<lparr>as_kind = PreparedUser, as_p4_frame = Some p4_frame, as_p4_verified = True,
      as_entry_point = entry_point, as_layout = layout\<rparr>"

definition promoted_isolated_user :: "address_space \<Rightarrow> address_space" where
  "promoted_isolated_user a =
     (case as_p4_frame a of
        Some p4_frame \<Rightarrow>
          if as_p4_verified a then as_isolated_user (as_entry_point a) (as_layout a) p4_frame else a
      | None \<Rightarrow> a)"

section \<open>The pool of prepared level-4 tables\<close>

definition PRIVATE_P4_POOL_SIZE :: nat where "PRIVATE_P4_POOL_SIZE = 8"
definition MAX_PRIVATE_PROGRAM_PAGE_COUNT :: nat where "MAX_PRIVATE_PROGRAM_PAGE_COUNT = 64"
definition PRIVATE_STACK_SLOT_COUNT :: nat where
  "PRIVATE_STACK_SLOT_COUNT = unat USER_STACK_SLOT_COUNT"
definition PRIVATE_STACK_PAGE_COUNT :: nat where
  "PRIVATE_STACK_PAGE_COUNT = unat USER_STACK_PAGE_COUNT"

record p4_slot =
  s_p4_frame :: u64
  s_program_frames :: "u64 list"
  s_program_frame_count :: nat
  s_stack_frames :: "u64 list list"
  s_stack_in_use :: "bool list"
  s_in_use :: bool

definition p4_slot_EMPTY :: p4_slot where
  "p4_slot_EMPTY =
     \<lparr>s_p4_frame = 0, s_program_frames = replicate MAX_PRIVATE_PROGRAM_PAGE_COUNT 0,
      s_program_frame_count = 0,
      s_stack_frames = replicate PRIVATE_STACK_SLOT_COUNT (replicate PRIVATE_STACK_PAGE_COUNT 0),
      s_stack_in_use = replicate PRIVATE_STACK_SLOT_COUNT False, s_in_use = False\<rparr>"

record p4_pool =
  pool_slots :: "p4_slot list"
  pool_count :: nat

definition pool_new :: p4_pool where
  "pool_new = \<lparr>pool_slots = replicate PRIVATE_P4_POOL_SIZE p4_slot_EMPTY, pool_count = 0\<rparr>"

text \<open>\<^verbatim>\<open>self.slots[..self.count]\<close>, searched and mutated in place.\<close>

definition pool_live :: "p4_pool \<Rightarrow> p4_slot list" where
  "pool_live pool = take (pool_count pool) (pool_slots pool)"

definition pool_modify :: "(p4_slot \<Rightarrow> bool) \<Rightarrow> (p4_slot \<Rightarrow> p4_slot) \<Rightarrow> p4_pool \<Rightarrow> p4_pool" where
  "pool_modify P f pool =
     pool\<lparr>pool_slots := update_first P f (pool_live pool) @ drop (pool_count pool) (pool_slots pool)\<rparr>"

definition pool_push :: "p4_slot \<Rightarrow> p4_pool \<Rightarrow> bool \<times> p4_pool" where
  "pool_push slot pool =
     (if pool_count pool \<ge> length (pool_slots pool) then (False, pool)
      else (True, pool\<lparr>pool_slots := (pool_slots pool)[pool_count pool := slot],
                       pool_count := pool_count pool + 1\<rparr>))"

definition pool_take :: "p4_pool \<Rightarrow> u64 option \<times> p4_pool" where
  "pool_take pool =
     (case find (\<lambda>s. \<not> s_in_use s) (pool_live pool) of
        None \<Rightarrow> (None, pool)
      | Some slot \<Rightarrow>
          (Some (s_p4_frame slot),
           pool_modify (\<lambda>s. \<not> s_in_use s) (\<lambda>s. s\<lparr>s_in_use := True\<rparr>) pool))"

definition pool_peek_next :: "p4_pool \<Rightarrow> u64 option" where
  "pool_peek_next pool = map_option s_p4_frame (find (\<lambda>s. \<not> s_in_use s) (pool_live pool))"

definition pool_find_index :: "u64 \<Rightarrow> p4_pool \<Rightarrow> nat option" where
  "pool_find_index p4_frame pool = position (\<lambda>s. s_p4_frame s = p4_frame) (pool_live pool)"

definition pool_release :: "u64 \<Rightarrow> p4_pool \<Rightarrow> bool \<times> p4_pool" where
  "pool_release p4_frame pool =
     (case find (\<lambda>s. s_p4_frame s = p4_frame) (pool_live pool) of
        None \<Rightarrow> (False, pool)
      | Some _ \<Rightarrow>
          (True, pool_modify (\<lambda>s. s_p4_frame s = p4_frame)
             (\<lambda>s. s\<lparr>s_in_use := False,
                    s_stack_in_use := replicate (length (s_stack_in_use s)) False\<rparr>) pool))"

definition stack_range_for_slot :: "nat \<Rightarrow> u64 \<times> u64" where
  "stack_range_for_slot index =
     (let stack_top = FIRST_USER_STACK_TOP - of_nat index * USER_STACK_SLOT_SIZE
      in (stack_top - USER_STACK_SIZE, stack_top))"

definition stack_slot_index :: "u64 \<Rightarrow> nat option" where
  "stack_slot_index stack_top =
     (if stack_top > FIRST_USER_STACK_TOP then None
      else
        let offset = FIRST_USER_STACK_TOP - stack_top
        in if offset mod USER_STACK_SLOT_SIZE \<noteq> 0 then None
           else
             let index = unat (offset div USER_STACK_SLOT_SIZE)
             in if index < PRIVATE_STACK_SLOT_COUNT then Some index else None)"

definition reserve_stack_slot :: "u64 \<Rightarrow> u64 \<Rightarrow> p4_pool \<Rightarrow> (u64 \<times> u64) option \<times> p4_pool" where
  "reserve_stack_slot p4_frame main_stack_top pool =
     (let P = (\<lambda>s. s_p4_frame s = p4_frame \<and> s_in_use s)
      in case find P (pool_live pool) of
           None \<Rightarrow> (None, pool)
         | Some slot \<Rightarrow>
             (case stack_slot_index main_stack_top of
                None \<Rightarrow> (None, pool)
              | Some main_index \<Rightarrow>
                  let used = (s_stack_in_use slot)[main_index := True]
                  in (case position Not used of
                        None \<Rightarrow> (None, pool_modify P (\<lambda>s. s\<lparr>s_stack_in_use := used\<rparr>) pool)
                      | Some index \<Rightarrow>
                          (Some (stack_range_for_slot index),
                           pool_modify P (\<lambda>s. s\<lparr>s_stack_in_use := used[index := True]\<rparr>) pool))))"

definition release_stack_slot :: "u64 \<Rightarrow> u64 \<Rightarrow> p4_pool \<Rightarrow> bool \<times> p4_pool" where
  "release_stack_slot p4_frame stack_top pool =
     (let P = (\<lambda>s. s_p4_frame s = p4_frame \<and> s_in_use s)
      in case find P (pool_live pool) of
           None \<Rightarrow> (False, pool)
         | Some slot \<Rightarrow>
             (case stack_slot_index stack_top of
                None \<Rightarrow> (False, pool)
              | Some index \<Rightarrow>
                  (True, pool_modify P
                     (\<lambda>s. s\<lparr>s_stack_in_use := (s_stack_in_use s)[index := False]\<rparr>) pool)))"

section \<open>The module state\<close>

type_synonym phys_mem = "u64 \<Rightarrow> u8"

record mm =
  mm_pool :: p4_pool
  mm_kernel_p4 :: "u64 option"
  mm_offset :: "u64 option"
  mm_offset_value :: u64
  mm_mem :: phys_mem

text \<open>
  \<^verbatim>\<open>write_bytes((offset + frame) as *mut u8, 0, 4096)\<close> through the direct mapping.
\<close>

definition zero_frame :: "u64 \<Rightarrow> phys_mem \<Rightarrow> phys_mem" where
  "zero_frame frame m = (\<lambda>a. if a - frame < 4096 then 0 else m a)"

definition physical_memory_offset :: "mm \<Rightarrow> (address_space_error + u64) \<times> mm" where
  "physical_memory_offset m =
     (if mm_offset_value m \<noteq> 0 then (Inr (mm_offset_value m), m)
      else case mm_offset m of
             None \<Rightarrow> (Inl MissingPhysicalMemoryOffset, m)
           | Some offset \<Rightarrow> (Inr offset, m\<lparr>mm_offset_value := offset\<rparr>))"

definition take_prepared_p4_frame :: "mm \<Rightarrow> u64 option \<times> mm" where
  "take_prepared_p4_frame m =
     (let (r, pool) = pool_take (mm_pool m) in (r, m\<lparr>mm_pool := pool\<rparr>))"

definition release_prepared_p4_frame :: "u64 \<Rightarrow> mm \<Rightarrow> bool \<times> mm" where
  "release_prepared_p4_frame p4_frame m =
     (let (r, pool) = pool_release p4_frame (mm_pool m) in (r, m\<lparr>mm_pool := pool\<rparr>))"

definition release_private_thread_stack :: "u64 \<Rightarrow> u64 \<Rightarrow> mm \<Rightarrow> bool \<times> mm" where
  "release_private_thread_stack p4_frame stack_top m =
     (let (r, pool) = release_stack_slot p4_frame stack_top (mm_pool m)
      in (r, m\<lparr>mm_pool := pool\<rparr>))"

definition clear_private_thread_stack ::
    "u64 \<Rightarrow> u64 \<Rightarrow> mm \<Rightarrow> (address_space_error + unit) \<times> mm" where
  "clear_private_thread_stack p4_frame stack_top m =
     (case physical_memory_offset m of
        (Inl e, m) \<Rightarrow> (Inl e, m)
      | (Inr _, m) \<Rightarrow>
          (case find (\<lambda>s. s_p4_frame s = p4_frame \<and> s_in_use s) (pool_live (mm_pool m)) of
             None \<Rightarrow> (Inl PrivateMappingNotFound, m)
           | Some slot \<Rightarrow>
               (case stack_slot_index stack_top of
                  None \<Rightarrow> (Inl PrivateMappingNotFound, m)
                | Some stack_slot \<Rightarrow>
                    (Inr (), m\<lparr>mm_mem := fold zero_frame (s_stack_frames slot ! stack_slot)
                                            (mm_mem m)\<rparr>))))"

definition reserve_private_thread_stack :: "u64 \<Rightarrow> u64 \<Rightarrow> mm \<Rightarrow> (u64 \<times> u64) option \<times> mm" where
  "reserve_private_thread_stack p4_frame main_stack_top m =
     (case reserve_stack_slot p4_frame main_stack_top (mm_pool m) of
        (None, pool) \<Rightarrow> (None, m\<lparr>mm_pool := pool\<rparr>)
      | (Some rng, pool) \<Rightarrow>
          (case clear_private_thread_stack p4_frame (snd rng) (m\<lparr>mm_pool := pool\<rparr>) of
             (Inl _, m) \<Rightarrow> (None, snd (release_private_thread_stack p4_frame (snd rng) m))
           | (Inr _, m) \<Rightarrow> (Some rng, m)))"

section \<open>Stack slots\<close>

lemma stack_slot_cases:
  assumes "i < PRIVATE_STACK_SLOT_COUNT"
  obtains "i = 0" | "i = 1" | "i = 2" | "i = 3" | "i = 4" | "i = 5" | "i = 6" | "i = 7"
  using assms unfolding PRIVATE_STACK_SLOT_COUNT_def USER_STACK_SLOT_COUNT_def by fastforce

lemma stack_slot_index_range:
  assumes "i < PRIVATE_STACK_SLOT_COUNT"
  shows "stack_slot_index (snd (stack_range_for_slot i)) = Some i"
  using assms
  by (cases rule: stack_slot_cases)
    (simp_all add: stack_slot_index_def stack_range_for_slot_def layout_consts
      PRIVATE_STACK_SLOT_COUNT_def Let_def)

lemma stack_slot_indexD:
  assumes "stack_slot_index addr = Some i"
  shows "i < PRIVATE_STACK_SLOT_COUNT \<and> snd (stack_range_for_slot i) = addr"
proof -
  let ?off = "FIRST_USER_STACK_TOP - addr"
  from assms have i: "i = unat (?off div USER_STACK_SLOT_SIZE)" "i < PRIVATE_STACK_SLOT_COUNT"
    and m: "?off mod USER_STACK_SLOT_SIZE = 0"
    by (auto simp: stack_slot_index_def Let_def split: if_splits)
  have "of_nat i * USER_STACK_SLOT_SIZE = ?off"
    using m div_mult_mod_eq[of ?off USER_STACK_SLOT_SIZE] by (simp add: i(1))
  then show ?thesis using i(2) by (simp add: stack_range_for_slot_def Let_def)
qed

lemma stack_range_for_slot_lower:
  assumes "i < j" "j < PRIVATE_STACK_SLOT_COUNT"
  shows "snd (stack_range_for_slot j) + USER_STACK_GUARD_SIZE \<le> fst (stack_range_for_slot i)"
proof -
  from assms have "i < PRIVATE_STACK_SLOT_COUNT" by simp
  then show ?thesis using assms
    by (cases rule: stack_slot_cases; cases rule: stack_slot_cases[OF assms(2)])
      (simp_all add: stack_range_for_slot_def layout_consts)
qed

lemma stack_range_for_slot_bounds:
  assumes "i < PRIVATE_STACK_SLOT_COUNT"
  shows "USER_STACK_REGION_START + USER_STACK_GUARD_SIZE \<le> fst (stack_range_for_slot i) \<and>
    fst (stack_range_for_slot i) + USER_STACK_SIZE = snd (stack_range_for_slot i) \<and>
    fst (stack_range_for_slot i) < snd (stack_range_for_slot i) \<and>
    snd (stack_range_for_slot i) \<le> FIRST_USER_STACK_TOP"
  using assms
  by (cases rule: stack_slot_cases) (simp_all add: stack_range_for_slot_def layout_consts)

lemma unat_ucast_u64 [simp]: "unat (ucast (w :: u32) :: u64) = unat w"
proof -
  have "unat w < 2 ^ LENGTH(32)" by (rule unsigned_less)
  then have "unat w < 2 ^ 64" by simp
  then show ?thesis by (simp add: unsigned_ucast_eq take_bit_nat_eq_self)
qed

lemma stack_top_for_pid_slot:
  "stack_slot_index (stack_top_for_pid p) = Some (unat (saturating_sub p 2) mod 8)"
proof -
  let ?s = "unat (saturating_sub p 2) mod 8"
  have "(ucast (saturating_sub p 2) :: u64) mod 8 = of_nat ?s"
    by (rule word_unat_eq_iff[THEN iffD2])
      (simp add: unat_mod unat_of_nat)
  then have "stack_top_for_pid p = snd (stack_range_for_slot ?s)"
    by (simp add: stack_top_for_pid_def stack_range_for_slot_def USER_STACK_SLOT_COUNT_def Let_def)
  moreover have "?s < PRIVATE_STACK_SLOT_COUNT"
    by (simp add: PRIVATE_STACK_SLOT_COUNT_def USER_STACK_SLOT_COUNT_def)
  ultimately show ?thesis by (simp add: stack_slot_index_range)
qed

section \<open>Exclusive ownership in a pool\<close>

text \<open>
  A pool hands out a free resource and takes it back; \<open>pool_run\<close> executes a sequence of
  operations, \<^term>\<open>None\<close> for an acquisition and \<^term>\<open>Some k\<close> for the release of \<open>k\<close>, and lists
  what was handed out.
\<close>

fun pool_run :: "('s \<Rightarrow> 'k option \<times> 's) \<Rightarrow> ('k \<Rightarrow> 's \<Rightarrow> bool \<times> 's) \<Rightarrow> 'k option list \<Rightarrow> 's \<Rightarrow> 'k list \<times> 's"
where
  "pool_run acquire release [] s = ([], s)"
| "pool_run acquire release (None # ops) s =
     (case acquire s of (r, s') \<Rightarrow>
        (case pool_run acquire release ops s' of (ks, s'') \<Rightarrow>
           ((case r of None \<Rightarrow> ks | Some k \<Rightarrow> k # ks), s'')))"
| "pool_run acquire release (Some k # ops) s = pool_run acquire release ops (snd (release k s))"

locale exclusive_pool =
  fixes inv :: "'s \<Rightarrow> bool"
    and free :: "'s \<Rightarrow> 'k set"
    and acquire :: "'s \<Rightarrow> 'k option \<times> 's"
    and release :: "'k \<Rightarrow> 's \<Rightarrow> bool \<times> 's"
  assumes acquire_Some:
      "inv s \<Longrightarrow> acquire s = (Some k, s') \<Longrightarrow> inv s' \<and> k \<in> free s \<and> free s' = free s - {k}"
    and acquire_None: "inv s \<Longrightarrow> acquire s = (None, s') \<Longrightarrow> s' = s \<and> free s = {}"
    and release_free:
      "inv s \<Longrightarrow> release k s = (b, s') \<Longrightarrow> inv s' \<and> free s' = (if b then insert k (free s) else free s)"
begin

lemma not_reissued:
  "inv s \<Longrightarrow> k \<notin> free s \<Longrightarrow> Some k \<notin> set ops \<Longrightarrow>
   inv (snd (pool_run acquire release ops s)) \<and> k \<notin> set (fst (pool_run acquire release ops s))"
proof (induction ops arbitrary: s)
  case (Cons op ops)
  show ?case
  proof (cases op)
    case None
    obtain r s' where a: "acquire s = (r, s')" by (cases "acquire s")
    have s': "inv s' \<and> k \<notin> free s' \<and> r \<noteq> Some k"
      using a Cons.prems acquire_Some[of s] acquire_None[of s] by (cases r) force+
    obtain ks s'' where "pool_run acquire release ops s' = (ks, s'')"
      by (cases "pool_run acquire release ops s'")
    with Cons.IH[of s'] Cons.prems s' a None show ?thesis by (auto split: option.splits)
  next
    case (Some j)
    obtain b s' where r: "release j s = (b, s')" by (cases "release j s")
    with release_free[OF Cons.prems(1) r] Cons Some show ?thesis by (auto split: if_splits)
  qed
qed simp

end

section \<open>The pool invariant\<close>

definition pool_ok :: "p4_pool \<Rightarrow> bool" where
  "pool_ok pool \<longleftrightarrow>
     length (pool_slots pool) = PRIVATE_P4_POOL_SIZE \<and> pool_count pool \<le> PRIVATE_P4_POOL_SIZE \<and>
     distinct (map s_p4_frame (pool_live pool)) \<and>
     list_all (\<lambda>s. length (s_stack_in_use s) = PRIVATE_STACK_SLOT_COUNT) (pool_slots pool)"

definition pool_free :: "p4_pool \<Rightarrow> u64 set" where
  "pool_free pool = s_p4_frame ` {s \<in> set (pool_live pool). \<not> s_in_use s}"

lemma pool_live_modify:
  "pool_count pool \<le> length (pool_slots pool) \<Longrightarrow>
   pool_live (pool_modify P f pool) = update_first P f (pool_live pool)"
  by (simp add: pool_live_def pool_modify_def min_def)

lemma pool_ok_modify:
  assumes "pool_ok pool" and "\<And>s. s_p4_frame (f s) = s_p4_frame s"
    and "\<And>s. find P (pool_live pool) = Some s \<Longrightarrow>
      length (s_stack_in_use (f s)) = length (s_stack_in_use s)"
  shows "pool_ok (pool_modify P f pool)"
proof -
  let ?ok = "\<lambda>s. length (s_stack_in_use s) = PRIVATE_STACK_SLOT_COUNT"
  have old: "\<forall>s\<in>set (pool_slots pool). ?ok s" using assms(1) by (simp add: pool_ok_def list_all_iff)
  have "?ok s" if s: "s \<in> set (update_first P f (pool_live pool))" for s
    using set_update_firstD[OF s]
  proof
    assume "\<exists>x. find P (pool_live pool) = Some x \<and> s = f x"
    then obtain x where x: "find P (pool_live pool) = Some x" "s = f x" by blast
    then have "x \<in> set (pool_slots pool)"
      using find_SomeD[OF x(1)] by (auto simp: pool_live_def dest: in_set_takeD)
    with old assms(3)[OF x(1)] x(2) show ?thesis by simp
  qed (use old in \<open>auto simp: pool_live_def dest: in_set_takeD\<close>)
  then have "list_all ?ok (pool_slots (pool_modify P f pool))"
    using old by (auto simp: pool_modify_def list_all_iff dest: in_set_dropD)
  with assms(1) show ?thesis
    using pool_live_modify[of pool P f] assms(2)
    by (simp add: pool_ok_def map_update_first)
      (auto simp: pool_modify_def pool_live_def)
qed

lemma distinct_key_update:
  assumes "distinct (map g xs)" "find P xs = Some x" "\<And>y. g (f y) = g y"
  shows "y \<in> set (update_first P f xs) \<longleftrightarrow> (y \<in> set xs \<and> g y \<noteq> g x) \<or> y = f x"
  using assms
proof (induction xs)
  case (Cons z zs)
  then show ?case
    by (cases "P z") (auto simp: image_iff dest: find_SomeD)
qed simp

lemma distinct_key_same:
  "distinct (map g xs) \<Longrightarrow> x \<in> set xs \<Longrightarrow> y \<in> set xs \<Longrightarrow> g x = g y \<Longrightarrow> x = y"
  by (metis find_distinct_key option.inject)

lemma pool_free_iff:
  "k \<in> pool_free pool \<longleftrightarrow> (\<exists>s\<in>set (pool_live pool). s_p4_frame s = k \<and> \<not> s_in_use s)"
  by (auto simp: pool_free_def)

text \<open>Changing one slot changes the free set at its frame only.\<close>

lemma pool_free_modify:
  assumes ok: "pool_ok pool" and x: "find P (pool_live pool) = Some x"
    and f: "\<And>s. s_p4_frame (f s) = s_p4_frame s"
  shows "pool_free (pool_modify P f pool) =
    (if s_in_use (f x) then pool_free pool - {s_p4_frame x}
     else insert (s_p4_frame x) (pool_free pool))"
proof -
  have d: "distinct (map s_p4_frame (pool_live pool))"
    and l: "pool_live (pool_modify P f pool) = update_first P f (pool_live pool)"
    using ok by (simp_all add: pool_ok_def pool_live_modify)
  have mem: "y \<in> set (pool_live (pool_modify P f pool)) \<longleftrightarrow>
      y \<in> set (pool_live pool) \<and> s_p4_frame y \<noteq> s_p4_frame x \<or> y = f x" for y
    unfolding l by (rule distinct_key_update[where f = f and g = s_p4_frame, OF d x f])
  have "k \<in> pool_free (pool_modify P f pool) \<longleftrightarrow>
      (if k = s_p4_frame x then \<not> s_in_use (f x) else k \<in> pool_free pool)" for k
  proof (cases "k = s_p4_frame x")
    case True
    then show ?thesis unfolding pool_free_iff Bex_def mem by (metis f)
  next
    case False
    then show ?thesis unfolding pool_free_iff Bex_def mem by (metis f)
  qed
  then show ?thesis by (simp add: set_eq_iff)
qed

lemma pool_take_cases:
  assumes "pool_ok pool"
  shows "case pool_take pool of
      (None, pool') \<Rightarrow> pool' = pool \<and> pool_free pool = {}
    | (Some k, pool') \<Rightarrow> pool_ok pool' \<and> k \<in> pool_free pool \<and> pool_free pool' = pool_free pool - {k}"
proof (cases "find (\<lambda>s. \<not> s_in_use s) (pool_live pool)")
  case None
  then have "pool_free pool = {}" by (auto simp: pool_free_iff find_None_iff_all)
  with None show ?thesis by (simp add: pool_take_def)
next
  case (Some x)
  let ?f = "\<lambda>s :: p4_slot. s\<lparr>s_in_use := True\<rparr>" and ?P = "\<lambda>s. \<not> s_in_use s"
  have "s_p4_frame x \<in> pool_free pool" using find_SomeD[OF Some] by (auto simp: pool_free_iff)
  moreover have "pool_ok (pool_modify ?P ?f pool)" by (rule pool_ok_modify[OF assms]) simp_all
  moreover have "pool_free (pool_modify ?P ?f pool) = pool_free pool - {s_p4_frame x}"
    using pool_free_modify[of _ _ _ ?f, OF assms Some] by simp
  moreover have "pool_take pool = (Some (s_p4_frame x), pool_modify ?P ?f pool)"
    using Some by (simp add: pool_take_def)
  ultimately show ?thesis by simp
qed

lemma pool_release_cases:
  assumes "pool_ok pool"
  shows "case pool_release k pool of (b, pool') \<Rightarrow>
      pool_ok pool' \<and> pool_free pool' = (if b then insert k (pool_free pool) else pool_free pool)"
proof (cases "find (\<lambda>s. s_p4_frame s = k) (pool_live pool)")
  case None
  with assms show ?thesis by (simp add: pool_release_def)
next
  case (Some x)
  let ?f = "\<lambda>s :: p4_slot. s\<lparr>s_in_use := False, s_stack_in_use := replicate (length (s_stack_in_use s)) False\<rparr>"
  let ?P = "\<lambda>s. s_p4_frame s = k"
  have "pool_ok (pool_modify ?P ?f pool)" by (rule pool_ok_modify[OF assms]) simp_all
  moreover have "pool_free (pool_modify ?P ?f pool) = insert k (pool_free pool)"
    using pool_free_modify[of _ _ _ ?f, OF assms Some] find_SomeD[OF Some] by simp
  moreover have "pool_release k pool = (True, pool_modify ?P ?f pool)"
    using Some by (simp add: pool_release_def)
  ultimately show ?thesis by simp
qed

interpretation p4_frames: exclusive_pool
  "\<lambda>m. pool_ok (mm_pool m)" "\<lambda>m. pool_free (mm_pool m)" take_prepared_p4_frame release_prepared_p4_frame
proof
  fix m m' :: mm and k
  assume ok: "pool_ok (mm_pool m)" and t: "take_prepared_p4_frame m = (Some k, m')"
  obtain r pool where p: "pool_take (mm_pool m) = (r, pool)" by (cases "pool_take (mm_pool m)")
  with t have "r = Some k" "m' = m\<lparr>mm_pool := pool\<rparr>" by (simp_all add: take_prepared_p4_frame_def)
  with pool_take_cases[OF ok] p show "pool_ok (mm_pool m') \<and> k \<in> pool_free (mm_pool m) \<and>
      pool_free (mm_pool m') = pool_free (mm_pool m) - {k}" by simp
next
  fix m m' :: mm
  assume ok: "pool_ok (mm_pool m)" and t: "take_prepared_p4_frame m = (None, m')"
  obtain r pool where p: "pool_take (mm_pool m) = (r, pool)" by (cases "pool_take (mm_pool m)")
  with t have "r = None" "m' = m\<lparr>mm_pool := pool\<rparr>" by (simp_all add: take_prepared_p4_frame_def)
  with pool_take_cases[OF ok] p show "m' = m \<and> pool_free (mm_pool m) = {}" by simp
next
  fix m m' :: mm and k b
  assume ok: "pool_ok (mm_pool m)" and t: "release_prepared_p4_frame k m = (b, m')"
  obtain r pool where p: "pool_release k (mm_pool m) = (r, pool)"
    by (cases "pool_release k (mm_pool m)")
  with t have "r = b" "m' = m\<lparr>mm_pool := pool\<rparr>" by (simp_all add: release_prepared_p4_frame_def)
  with pool_release_cases[OF ok, of k] p show "pool_ok (mm_pool m') \<and>
      pool_free (mm_pool m') = (if b then insert k (pool_free (mm_pool m)) else pool_free (mm_pool m))"
    by simp
qed

section \<open>Thread stacks\<close>

definition slot_live :: "u64 \<Rightarrow> p4_pool \<Rightarrow> p4_slot option" where
  "slot_live p4_frame pool = find (\<lambda>s. s_p4_frame s = p4_frame \<and> s_in_use s) (pool_live pool)"

lemma fold_zero_frame:
  "fold zero_frame frames m a = (if \<exists>f\<in>set frames. a - f < 4096 then 0 else m a)"
  by (induction frames arbitrary: m) (auto simp: zero_frame_def)

lemma slot_live_modify:
  assumes "pool_ok pool" and "\<And>s. s_p4_frame (f s) = s_p4_frame s" and "\<And>s. s_in_use (f s) = s_in_use s"
  shows "slot_live k (pool_modify (\<lambda>s. s_p4_frame s = k \<and> s_in_use s) f pool) =
    map_option f (slot_live k pool)"
  using assms by (simp add: slot_live_def pool_live_modify pool_ok_def find_update_first_same)

lemma reserve_stack_slot_SomeD:
  assumes ok: "pool_ok pool" and r: "reserve_stack_slot k main pool = (Some rng, pool')"
  obtains slot i j where "slot_live k pool = Some slot" "stack_slot_index main = Some j"
    "i < PRIVATE_STACK_SLOT_COUNT" "i \<noteq> j" "\<not> s_stack_in_use slot ! i" "rng = stack_range_for_slot i"
    "slot_live k pool' =
       Some (slot\<lparr>s_stack_in_use := (s_stack_in_use slot)[j := True, i := True]\<rparr>)"
    "pool_ok pool'"
proof -
  let ?P = "\<lambda>s. s_p4_frame s = k \<and> s_in_use s"
  from r obtain slot where slot: "slot_live k pool = Some slot"
    by (cases "slot_live k pool") (simp_all add: reserve_stack_slot_def slot_live_def)
  from r slot obtain j where j: "stack_slot_index main = Some j"
    by (cases "stack_slot_index main") (simp_all add: reserve_stack_slot_def slot_live_def)
  let ?used = "(s_stack_in_use slot)[j := True]"
  from r slot j obtain i where i: "position Not ?used = Some i"
    by (cases "position Not ?used") (simp_all add: reserve_stack_slot_def slot_live_def Let_def)
  let ?f = "\<lambda>s :: p4_slot. s\<lparr>s_stack_in_use := ?used[i := True]\<rparr>"
  from r slot j i have res: "rng = stack_range_for_slot i" "pool' = pool_modify ?P ?f pool"
    by (simp_all add: reserve_stack_slot_def slot_live_def Let_def)
  have len: "length (s_stack_in_use slot) = PRIVATE_STACK_SLOT_COUNT"
    using ok find_SomeD[OF slot[unfolded slot_live_def]]
    by (auto simp: pool_ok_def list_all_iff pool_live_def dest: in_set_takeD)
  from position_SomeD[OF i] len have i': "i < PRIVATE_STACK_SLOT_COUNT" "\<not> ?used ! i" by simp_all
  have ij: "i \<noteq> j" using i' stack_slot_indexD[OF j] len by auto
  have "pool_ok pool'" unfolding res(2)
    by (rule pool_ok_modify[OF ok]) (use slot len in \<open>simp_all add: slot_live_def\<close>)
  moreover have "slot_live k pool' = Some (?f slot)"
    unfolding res(2) using slot_live_modify[OF ok, where f = ?f and k = k] slot by simp
  ultimately show ?thesis using that[OF slot j i'(1) ij _ res(1)] i'(2) ij by simp
qed

text \<open>The stack operations keep the pool well formed.\<close>

lemma pool_ok_reserve_stack_slot:
  assumes ok: "pool_ok pool" and r: "reserve_stack_slot k main pool = (r, pool')"
  shows "pool_ok pool'"
proof (cases r)
  case (Some rng)
  with r have "reserve_stack_slot k main pool = (Some rng, pool')" by simp
  with ok show ?thesis by (rule reserve_stack_slot_SomeD)
next
  case None
  let ?P = "\<lambda>s. s_p4_frame s = k \<and> s_in_use s"
  have "\<exists>u. pool' = pool \<or> (\<exists>s. find ?P (pool_live pool) = Some s \<and> length u = length (s_stack_in_use s) \<and>
      pool' = pool_modify ?P (\<lambda>s. s\<lparr>s_stack_in_use := u\<rparr>) pool)"
    using r None
    by (auto simp: reserve_stack_slot_def Let_def split: option.splits) (metis length_list_update)
  then show ?thesis using ok by (auto intro!: pool_ok_modify)
qed

lemma pool_ok_release_stack_slot:
  "pool_ok pool \<Longrightarrow> pool_ok (snd (release_stack_slot k stack_top pool))"
  by (simp add: release_stack_slot_def pool_ok_modify Let_def split: option.split)

lemma pool_ok_release_private_thread_stack:
  "pool_ok (mm_pool m) \<Longrightarrow> pool_ok (mm_pool (snd (release_private_thread_stack k stack_top m)))"
  using pool_ok_release_stack_slot[of "mm_pool m" k stack_top]
  by (simp add: release_private_thread_stack_def case_prod_beta Let_def)

lemma physical_memory_offset_pool [simp]: "mm_pool (snd (physical_memory_offset m)) = mm_pool m"
  by (simp add: physical_memory_offset_def split: option.split)

lemma clear_private_thread_stack_pool [simp]:
  "mm_pool (snd (clear_private_thread_stack k stack_top m)) = mm_pool m"
proof -
  obtain r m1 where "physical_memory_offset m = (r, m1)" by (cases "physical_memory_offset m")
  then show ?thesis
    using physical_memory_offset_pool[of m]
    by (auto simp: clear_private_thread_stack_def split: sum.split option.split)
qed

lemma pool_ok_reserve_private_thread_stack:
  assumes "pool_ok (mm_pool m)"
  shows "pool_ok (mm_pool (snd (reserve_private_thread_stack k main m)))"
proof -
  obtain r pool where r: "reserve_stack_slot k main (mm_pool m) = (r, pool)"
    by (cases "reserve_stack_slot k main (mm_pool m)")
  then have ok: "pool_ok pool" by (rule pool_ok_reserve_stack_slot[OF assms])
  obtain c m1 where c: "clear_private_thread_stack k (snd (the r)) (m\<lparr>mm_pool := pool\<rparr>) = (c, m1)"
    by (cases "clear_private_thread_stack k (snd (the r)) (m\<lparr>mm_pool := pool\<rparr>)")
  then have "mm_pool m1 = pool"
    using clear_private_thread_stack_pool[of k "snd (the r)" "m\<lparr>mm_pool := pool\<rparr>"] by simp
  with ok r c show ?thesis
    by (cases r; cases c)
      (simp_all add: reserve_private_thread_stack_def pool_ok_release_private_thread_stack)
qed

section \<open>Properties\<close>

text \<open>
  C11: private level-4 tables are owned exclusively.  Once \<^verbatim>\<open>take_prepared_p4_frame\<close> handed out a
  frame, no later sequence of takes and releases hands it out again unless it releases that frame.
\<close>

theorem p4_frame_exclusive:
  assumes "pool_ok (mm_pool m)" and "take_prepared_p4_frame m = (Some f, m')"
    and "Some f \<notin> set ops"
  shows "f \<notin> set (fst (pool_run take_prepared_p4_frame release_prepared_p4_frame ops m'))"
  using p4_frames.not_reissued[of m' f ops] p4_frames.acquire_Some[OF assms(1,2)] assms(3) by simp

definition example_slot :: "u64 \<Rightarrow> p4_slot" where
  "example_slot frame = p4_slot_EMPTY\<lparr>s_p4_frame := frame,
     s_stack_frames := map (\<lambda>i. map (\<lambda>j. frame + 0x1000 * of_nat (4 * i + j + 1)) [0..<4]) [0..<8]\<rparr>"

definition example_mm :: mm where
  "example_mm = \<lparr>mm_pool = snd (pool_push (example_slot 0x900000) (snd (pool_push (example_slot 0x500000) pool_new))),
     mm_kernel_p4 = Some 0x1000, mm_offset = Some 0x18000000000, mm_offset_value = 0, mm_mem = (\<lambda>a. 7)\<rparr>"

lemma example_mm_ok: "pool_ok (mm_pool example_mm)"
  by code_simp

theorem p4_frame_exclusive_witness:
  "(0x500000 :: u64) \<notin> set (fst (pool_run take_prepared_p4_frame release_prepared_p4_frame
     [None, Some 0x900000, None, None] (snd (take_prepared_p4_frame example_mm))))"
proof (rule p4_frame_exclusive[OF example_mm_ok])
  have "fst (take_prepared_p4_frame example_mm) = Some 0x500000" by code_simp
  then show "take_prepared_p4_frame example_mm = (Some 0x500000, snd (take_prepared_p4_frame example_mm))"
    by (simp add: prod_eq_iff)
qed simp



lemma unat_page_ceil:
  assumes "unat a + 4096 \<le> 2 ^ 64"
  shows "unat (u64_div_ceil a 4096 * 4096) = div_ceil (unat a) 4096 * 4096"
proof -
  have b: "div_ceil (unat a) 4096 * 4096 < 2 ^ 64"
    using div_ceil_mult_less[of 4096 "unat a"] assms by linarith
  have z: "a mod 4096 = 0 \<longleftrightarrow> unat a mod 4096 = 0"
    by (simp add: word_unat_eq_iff unat_mod)
  have "unat (a div 4096 + 1) = unat a div 4096 + 1"
    using assms by (subst unat_add_lem[THEN iffD1]) (auto simp: unat_div)
  then have q: "unat (u64_div_ceil a 4096) = div_ceil (unat a) 4096"
    using z by (simp add: u64_div_ceil_def div_ceil_def unat_div)
  show ?thesis
    using unat_mult_lem[of "u64_div_ceil a 4096" 4096] b by (simp add: q)
qed

lemma align_user_program_size_bounds:
  assumes "unat n + 4096 \<le> 2 ^ 64"
  shows "0 < align_user_program_size n \<and> align_user_program_size n \<le> USER_PROGRAM_AREA_SIZE"
proof -
  let ?m = "max n 4096"
  have m: "unat ?m + 4096 \<le> 2 ^ 64" "4096 \<le> unat ?m"
    using assms by (auto simp: max_def word_le_nat_alt)
  have "4096 \<le> unat (u64_div_ceil ?m 4096 * 4096)"
    using unat_page_ceil[OF m(1)] div_ceil_mult_ge[of 4096 "unat ?m"] m(2) by linarith
  then have "0 < u64_div_ceil ?m 4096 * 4096" by (auto simp: word_less_nat_alt)
  then show ?thesis
    by (simp add: align_user_program_size_def FIRST_USER_PAGE_SIZE_def Let_def)
      (simp add: layout_consts)
qed



end
