(* ===== verification/Vfs_Path.thy ===== *)
theory Vfs_Path
  imports Kernel_Prelude
begin

text \<open>
  Path strings and their normalisation (\<^verbatim>\<open>kernel/src/fs.rs\<close>: \<^verbatim>\<open>NormalizedPath\<close>,
  \<^verbatim>\<open>normalize_path_from\<close> and its helpers, the mount matching functions, \<^verbatim>\<open>append_line\<close> and
  \<^verbatim>\<open>FsError\<close>).  A \<^verbatim>\<open>&str\<close> is its UTF-8 byte list; the validity test of
  \<^verbatim>\<open>core::str::from_utf8\<close> is the byte automaton \<open>utf8_step\<close>.  The fixed buffer with an in-place
  cursor refines a stack of path components.
\<close>

section \<open>Strings\<close>

definition str :: "string \<Rightarrow> bytes" where
  "str s = map of_char s"

abbreviation SLASH :: u8 where "SLASH \<equiv> 0x2F"
abbreviation DOT :: u8 where "DOT \<equiv> 0x2E"
abbreviation NEWLINE :: u8 where "NEWLINE \<equiv> 0x0A"

text \<open>\<^verbatim>\<open>str::split\<close> on one byte: always at least one piece.\<close>

fun split_on :: "'a \<Rightarrow> 'a list \<Rightarrow> 'a list list" where
  "split_on c [] = [[]]"
| "split_on c (x # xs) =
     (if x = c then [] # split_on c xs
      else (x # hd (split_on c xs)) # tl (split_on c xs))"

text \<open>
  The Unicode table of well-formed byte sequences: the pending list holds the ranges the next
  continuation bytes must fall into.
\<close>

abbreviation cont_byte :: "u8 \<times> u8" where "cont_byte \<equiv> (0x80, 0xBF)"

fun utf8_step :: "(u8 \<times> u8) list \<Rightarrow> u8 \<Rightarrow> (u8 \<times> u8) list option" where
  "utf8_step ((lo, hi) # p) b = (if lo \<le> b \<and> b \<le> hi then Some p else None)"
| "utf8_step [] b =
     (if b < 0x80 then Some []
      else if 0xC2 \<le> b \<and> b \<le> 0xDF then Some [cont_byte]
      else if b = 0xE0 then Some [(0xA0, 0xBF), cont_byte]
      else if 0xE1 \<le> b \<and> b \<le> 0xEC then Some [cont_byte, cont_byte]
      else if b = 0xED then Some [(0x80, 0x9F), cont_byte]
      else if 0xEE \<le> b \<and> b \<le> 0xEF then Some [cont_byte, cont_byte]
      else if b = 0xF0 then Some [(0x90, 0xBF), cont_byte, cont_byte]
      else if 0xF1 \<le> b \<and> b \<le> 0xF3 then Some [cont_byte, cont_byte, cont_byte]
      else if b = 0xF4 then Some [(0x80, 0x8F), cont_byte, cont_byte]
      else None)"

fun utf8_run :: "(u8 \<times> u8) list \<Rightarrow> bytes \<Rightarrow> (u8 \<times> u8) list option" where
  "utf8_run p [] = Some p"
| "utf8_run p (b # bs) = (case utf8_step p b of None \<Rightarrow> None | Some p' \<Rightarrow> utf8_run p' bs)"

definition utf8_valid :: "bytes \<Rightarrow> bool" where
  "utf8_valid bs \<longleftrightarrow> utf8_run [] bs = Some []"

section \<open>Errors and normalised paths\<close>

datatype fs_error =
  NotFound | NotDirectory | IsDirectory | InvalidPath | PathTooLong | NameTooLong
| AlreadyExists | ReadOnly | NoSpace | FileTooLarge | BufferTooSmall | CrossDevice
| StaleNode | Unavailable | Corrupt | FsIo | DirectoryNotEmpty

definition MAX_NORMALIZED_PATH_LEN :: nat where
  "MAX_NORMALIZED_PATH_LEN = 128"

record normalized_path =
  np_bytes :: bytes
  np_len :: nat

definition np_root :: normalized_path where
  "np_root = \<lparr>np_bytes = SLASH # replicate (MAX_NORMALIZED_PATH_LEN - 1) 0, np_len = 1\<rparr>"

definition np_as_str :: "normalized_path \<Rightarrow> bytes" where
  "np_as_str p = (let s = take (np_len p) (np_bytes p) in if utf8_valid s then s else [])"

definition push_root :: "normalized_path \<Rightarrow> normalized_path" where
  "push_root out = out\<lparr>np_bytes := (np_bytes out)[0 := SLASH], np_len := 1\<rparr>"

definition push_component :: "normalized_path \<Rightarrow> bytes \<Rightarrow> fs_error + normalized_path" where
  "push_component out component =
     (if 0 \<in> set component then Inl InvalidPath
      else
        let needs_slash = np_len out > 1;
            needed = np_len out + (if needs_slash then 1 else 0) + length component
        in if needed > length (np_bytes out) then Inl PathTooLong
           else
             let out1 = (if needs_slash
                         then out\<lparr>np_bytes := (np_bytes out)[np_len out := SLASH],
                                  np_len := np_len out + 1\<rparr>
                         else out)
             in Inr (out1\<lparr>np_bytes := splice (np_len out1) component (np_bytes out1),
                          np_len := np_len out1 + length component\<rparr>))"

function pop_scan :: "bytes \<Rightarrow> nat \<Rightarrow> nat" where
  "pop_scan bs n = (if n > 1 \<and> bs ! (n - 1) \<noteq> SLASH then pop_scan bs (n - 1) else n)"
  by pat_completeness auto
termination by (relation "measure snd") auto

declare pop_scan.simps [simp del]

definition pop_component :: "normalized_path \<Rightarrow> normalized_path" where
  "pop_component out =
     (if np_len out \<le> 1 then out
      else
        let n = pop_scan (np_bytes out) (np_len out)
        in if n > 1 then out\<lparr>np_len := n - 1\<rparr> else out\<lparr>np_len := n\<rparr>)"

fun push_path_components :: "normalized_path \<Rightarrow> bytes list \<Rightarrow> fs_error + normalized_path" where
  "push_path_components out [] = Inr out"
| "push_path_components out (c # cs) =
     (if c = [] \<or> c = [DOT] then push_path_components out cs
      else if c = [DOT, DOT] then push_path_components (pop_component out) cs
      else case push_component out c of
             Inl e \<Rightarrow> Inl e
           | Inr out' \<Rightarrow> push_path_components out' cs)"

definition normalize_path_from :: "bytes \<Rightarrow> bytes \<Rightarrow> fs_error + normalized_path" where
  "normalize_path_from cwd path =
     (let normalized = push_root \<lparr>np_bytes = replicate MAX_NORMALIZED_PATH_LEN 0, np_len = 0\<rparr>;
          from_cwd = (if path \<noteq> [] \<and> hd path = SLASH then Inr normalized
                      else push_path_components normalized (split_on SLASH cwd))
      in case from_cwd of
           Inl e \<Rightarrow> Inl e
         | Inr out \<Rightarrow> push_path_components out (split_on SLASH path))"

definition normalize_path :: "bytes \<Rightarrow> fs_error + normalized_path" where
  "normalize_path path = normalize_path_from [SLASH] path"

section \<open>Mount matching\<close>

text \<open>\<^verbatim>\<open>str::strip_prefix\<close>.\<close>

fun strip_prefix :: "'a list \<Rightarrow> 'a list \<Rightarrow> 'a list option" where
  "strip_prefix [] xs = Some xs"
| "strip_prefix (p # ps) [] = None"
| "strip_prefix (p # ps) (x # xs) = (if p = x then strip_prefix ps xs else None)"

definition path_matches_mount :: "bytes \<Rightarrow> bytes \<Rightarrow> bool" where
  "path_matches_mount path mount_path \<longleftrightarrow>
     mount_path = [SLASH] \<or> path = mount_path \<or>
     (case strip_prefix mount_path path of
        None \<Rightarrow> False
      | Some suffix \<Rightarrow> suffix \<noteq> [] \<and> hd suffix = SLASH)"

definition strip_mount_path :: "bytes \<Rightarrow> bytes \<Rightarrow> bytes" where
  "strip_mount_path path mount_path =
     (if mount_path = [SLASH] then path
      else
        let suffix = (case strip_prefix mount_path path of None \<Rightarrow> path | Some s \<Rightarrow> s)
        in if suffix = [] then [SLASH] else suffix)"

definition direct_mount_child :: "bytes \<Rightarrow> bytes \<Rightarrow> bytes option" where
  "direct_mount_child directory mount_path =
     (if mount_path = [SLASH] then None
      else
        case (if directory = [SLASH] then strip_prefix [SLASH] mount_path
              else case strip_prefix directory mount_path of
                     None \<Rightarrow> None
                   | Some rest \<Rightarrow> strip_prefix [SLASH] rest) of
          None \<Rightarrow> None
        | Some suffix \<Rightarrow>
            if suffix \<noteq> [] \<and> SLASH \<notin> set suffix then Some suffix else None)"

text \<open>The buffer stays as it was when the line does not fit.\<close>

definition append_line :: "bytes \<Rightarrow> nat \<Rightarrow> bytes \<Rightarrow> fs_error + (nat \<times> bytes)" where
  "append_line out offset value =
     (let end = offset + (length value + 1)
      in if end > length out then Inl BufferTooSmall
         else Inr (end, (splice offset value out)[end - 1 := NEWLINE]))"

section \<open>Splitting and UTF-8\<close>

lemma split_on_ne [simp]: "split_on c xs \<noteq> []"
  by (cases xs) auto

lemma split_on_no_sep: "p \<in> set (split_on c xs) \<Longrightarrow> c \<notin> set p"
proof (induction xs arbitrary: p)
  case (Cons x xs)
  obtain q qs where q: "split_on c xs = q # qs" using split_on_ne[of c xs] by (cases "split_on c xs") auto
  then have "c \<notin> set q" "\<And>r. r \<in> set qs \<Longrightarrow> c \<notin> set r" using Cons.IH by auto
  with Cons.prems q show ?case by (auto split: if_splits)
qed simp

lemma split_on_absent: "c \<notin> set xs \<Longrightarrow> split_on c xs = [xs]"
  by (induction xs) auto

lemma split_on_append_sep: "split_on c (xs @ c # ys) = split_on c xs @ split_on c ys"
  by (induction xs) auto

lemma utf8_run_append:
  "utf8_run p (xs @ ys) = (case utf8_run p xs of None \<Rightarrow> None | Some p' \<Rightarrow> utf8_run p' ys)"
  by (induction xs arbitrary: p) (auto split: option.splits)

definition cont_pending :: "(u8 \<times> u8) list \<Rightarrow> bool" where
  "cont_pending p \<longleftrightarrow> list_all (\<lambda>(lo, hi). 0x80 \<le> lo) p"

lemma cont_pending_step: "cont_pending p \<Longrightarrow> utf8_step p b = Some p' \<Longrightarrow> cont_pending p'"
  by (cases "(p, b)" rule: utf8_step.cases) (auto simp: cont_pending_def split: if_splits)

lemma cont_pending_run: "cont_pending p \<Longrightarrow> utf8_run p bs = Some p' \<Longrightarrow> cont_pending p'"
  by (induction p bs rule: utf8_run.induct) (auto split: option.splits dest: cont_pending_step)

lemma utf8_step_ascii:
  "cont_pending p \<Longrightarrow> b < 0x80 \<Longrightarrow> utf8_step p b = (if p = [] then Some [] else None)"
  by (cases p) (auto simp: cont_pending_def)

text \<open>An ASCII byte is never inside a code point, so cutting there keeps both sides valid.\<close>

lemma utf8_valid_cut:
  assumes "b < 0x80"
  shows "utf8_valid (xs @ b # ys) \<longleftrightarrow> utf8_valid xs \<and> utf8_valid ys"
proof (cases "utf8_run [] xs")
  case None
  then show ?thesis by (simp add: utf8_valid_def utf8_run_append)
next
  case (Some p)
  then have "cont_pending p" using cont_pending_run[of "[]" xs p] by (simp add: cont_pending_def)
  then have "utf8_step p b = (if p = [] then Some [] else None)" using assms by (rule utf8_step_ascii)
  with Some show ?thesis by (cases p) (simp_all add: utf8_valid_def utf8_run_append)
qed

lemma utf8_valid_Nil [simp]: "utf8_valid []"
  by (simp add: utf8_valid_def)

lemma utf8_valid_split:
  assumes "b < 0x80"
  shows "utf8_valid xs \<Longrightarrow> p \<in> set (split_on b xs) \<Longrightarrow> utf8_valid p"
proof (induction "length xs" arbitrary: xs p rule: less_induct)
  case less
  show ?case
  proof (cases "b \<in> set xs")
    case False
    with less.prems show ?thesis by (simp add: split_on_absent)
  next
    case True
    then obtain us vs where xs: "xs = us @ b # vs" "b \<notin> set us" by (meson split_list_first)
    from less.prems(1) have v: "utf8_valid us" "utf8_valid vs"
      using utf8_valid_cut[OF assms] xs(1) by auto
    from less.prems(2) have "p = us \<or> p \<in> set (split_on b vs)"
      using xs by (auto simp: split_on_append_sep split_on_absent)
    then show ?thesis using v less.hyps[of vs p] xs(1) by auto
  qed
qed

section \<open>The component stack the buffer implements\<close>

definition render :: "bytes list \<Rightarrow> bytes" where
  "render cs = (if cs = [] then [SLASH] else concat (map ((#) SLASH) cs))"

fun stack_steps :: "bytes list \<Rightarrow> bytes list \<Rightarrow> fs_error + bytes list" where
  "stack_steps st [] = Inr st"
| "stack_steps st (c # cs) =
     (if c = [] \<or> c = [DOT] then stack_steps st cs
      else if c = [DOT, DOT] then stack_steps (butlast st) cs
      else if 0 \<in> set c then Inl InvalidPath
      else if length (render (st @ [c])) > MAX_NORMALIZED_PATH_LEN then Inl PathTooLong
      else stack_steps (st @ [c]) cs)"

definition is_absolute :: "bytes \<Rightarrow> bool" where
  "is_absolute path \<longleftrightarrow> path \<noteq> [] \<and> hd path = SLASH"

definition normalize_spec :: "bytes \<Rightarrow> bytes \<Rightarrow> fs_error + bytes list" where
  "normalize_spec cwd path =
     stack_steps [] ((if is_absolute path then [] else split_on SLASH cwd) @ split_on SLASH path)"

definition plain :: "bytes \<Rightarrow> bool" where
  "plain c \<longleftrightarrow> c \<noteq> [] \<and> c \<noteq> [DOT] \<and> c \<noteq> [DOT, DOT] \<and> SLASH \<notin> set c \<and> 0 \<notin> set c"

definition represents :: "normalized_path \<Rightarrow> bytes list \<Rightarrow> bool" where
  "represents p cs \<longleftrightarrow>
     length (np_bytes p) = MAX_NORMALIZED_PATH_LEN \<and> np_len p = length (render cs) \<and>
     np_len p \<le> MAX_NORMALIZED_PATH_LEN \<and> take (np_len p) (np_bytes p) = render cs \<and>
     list_all plain cs"

lemma render_snoc: "render (cs @ [c]) = (if cs = [] then SLASH # c else render cs @ SLASH # c)"
  by (simp add: render_def)

lemma render_ne [simp]: "render cs \<noteq> []"
  by (cases cs) (auto simp: render_def)

lemma length_render_gt1: "list_all plain cs \<Longrightarrow> length (render cs) > 1 \<longleftrightarrow> cs \<noteq> []"
  by (cases cs) (auto simp: render_def plain_def)

lemma represents_push:
  assumes r: "represents p cs" and c: "plain c"
  shows "case push_component p c of
      Inl e \<Rightarrow> e = PathTooLong \<and> length (render (cs @ [c])) > MAX_NORMALIZED_PATH_LEN
    | Inr p' \<Rightarrow> length (render (cs @ [c])) \<le> MAX_NORMALIZED_PATH_LEN \<and> represents p' (cs @ [c])"
proof (cases "cs = []")
  case True
  with r have t: "length (np_bytes p) = MAX_NORMALIZED_PATH_LEN" "np_len p = 1"
    "take 1 (np_bytes p) = [SLASH]" by (auto simp: represents_def render_def)
  with c True show ?thesis
    by (auto simp: push_component_def Let_def represents_def render_def plain_def splice_def)
next
  case False
  let ?n = "np_len p" and ?b = "np_bytes p"
  from r False have t: "length ?b = MAX_NORMALIZED_PATH_LEN" "?n = length (render cs)" "?n > 1"
    "take ?n ?b = render cs" "list_all plain cs"
    using length_render_gt1[of cs] by (auto simp: represents_def)
  have "take (Suc ?n) (?b[?n := SLASH]) = render cs @ [SLASH]" if "?n < length ?b"
    using that t(4) by (simp add: take_Suc_conv_app_nth)
  with c t False show ?thesis
    by (auto simp: push_component_def Let_def represents_def render_snoc plain_def splice_def)
qed

lemma pop_scan_last:
  "SLASH \<notin> set c \<Longrightarrow> pop_scan (u @ SLASH # c @ rest) (length u + 1 + length c) = length u + 1"
proof (induction c arbitrary: rest rule: rev_induct)
  case Nil
  then show ?case by (subst pop_scan.simps) (simp add: nth_append)
next
  case (snoc x c)
  then have "pop_scan (u @ SLASH # c @ x # rest) (length u + 1 + length c) = length u + 1" by simp
  moreover have "(u @ SLASH # (c @ [x]) @ rest) ! (length u + 1 + length c) = x"
    by (simp add: nth_append)
  ultimately show ?case using snoc.prems by (subst pop_scan.simps) simp
qed

lemma represents_pop:
  assumes r: "represents p cs"
  shows "represents (pop_component p) (butlast cs)"
proof (cases cs rule: rev_cases)
  case Nil
  with r show ?thesis by (auto simp: represents_def pop_component_def render_def)
next
  case (snoc ds c)
  let ?u = "if ds = [] then [] else render ds"
  from r snoc have len: "length (np_bytes p) = MAX_NORMALIZED_PATH_LEN"
    and n: "np_len p = length ?u + 1 + length c" "np_len p \<le> MAX_NORMALIZED_PATH_LEN"
    and tk: "take (np_len p) (np_bytes p) = ?u @ SLASH # c"
    and pl: "list_all plain ds" "plain c" and gt: "np_len p > 1"
    using length_render_gt1[of cs] by (auto simp: represents_def render_snoc)
  from tk obtain rest where b: "np_bytes p = ?u @ SLASH # c @ rest"
    by (metis append_take_drop_id append_assoc append_Cons)
  have scan: "pop_scan (np_bytes p) (np_len p) = length ?u + 1"
    unfolding b n(1) by (rule pop_scan_last) (use pl in \<open>simp add: plain_def\<close>)
  show ?thesis
  proof (cases "ds = []")
    case True
    with scan gt b len n pl snoc show ?thesis
      by (simp add: pop_component_def represents_def render_def)
  next
    case False
    with pl(1) have "length (render ds) > 1" using length_render_gt1 by blast
    with False scan gt b len n pl snoc show ?thesis
      by (simp add: pop_component_def represents_def)
  qed
qed

lemma represents_steps:
  assumes "represents p st" and "\<forall>c\<in>set cs. SLASH \<notin> set c"
  shows "case push_path_components p cs of
      Inl e \<Rightarrow> stack_steps st cs = Inl e
    | Inr p' \<Rightarrow> \<exists>st'. stack_steps st cs = Inr st' \<and> represents p' st'"
  using assms
proof (induction cs arbitrary: p st)
  case (Cons c cs)
  consider (skip) "c = [] \<or> c = [DOT]" | (up) "c = [DOT, DOT]"
    | (nul) "c \<noteq> [] \<and> c \<noteq> [DOT] \<and> c \<noteq> [DOT, DOT] \<and> 0 \<in> set c" | (push) "plain c"
    using Cons.prems(2) by (auto simp: plain_def)
  then show ?case
  proof cases
    case skip
    with Cons.IH[of p st] Cons.prems show ?thesis by (auto split: sum.splits)
  next
    case up
    with Cons.IH[OF represents_pop[OF Cons.prems(1)]] Cons.prems(2) show ?thesis
      by (auto split: sum.splits)
  next
    case nul
    then show ?thesis by (simp add: push_component_def)
  next
    case push
    show ?thesis
    proof (cases "push_component p c")
      case (Inl e)
      with push represents_push[OF Cons.prems(1) push] show ?thesis by (auto simp: plain_def)
    next
      case (Inr p')
      with push represents_push[OF Cons.prems(1) push] Cons.prems(2) Cons.IH[of p' "st @ [c]"]
      show ?thesis by (auto simp: plain_def split: sum.splits)
    qed
  qed
qed simp

lemma push_path_components_append:
  "push_path_components p (xs @ ys) =
   (case push_path_components p xs of Inl e \<Rightarrow> Inl e | Inr p' \<Rightarrow> push_path_components p' ys)"
  by (induction p xs rule: push_path_components.induct) (auto split: sum.splits)

lemma represents_start:
  "represents (push_root \<lparr>np_bytes = replicate MAX_NORMALIZED_PATH_LEN 0, np_len = 0\<rparr>) []"
proof -
  have "replicate MAX_NORMALIZED_PATH_LEN (0 :: u8) = 0 # replicate 127 0"
    by (simp add: MAX_NORMALIZED_PATH_LEN_def numeral_eq_Suc)
  then show ?thesis by (simp add: represents_def push_root_def render_def MAX_NORMALIZED_PATH_LEN_def)
qed

lemma normalize_path_from_steps:
  "normalize_path_from cwd path =
   push_path_components (push_root \<lparr>np_bytes = replicate MAX_NORMALIZED_PATH_LEN 0, np_len = 0\<rparr>)
     ((if is_absolute path then [] else split_on SLASH cwd) @ split_on SLASH path)"
  by (simp add: normalize_path_from_def is_absolute_def push_path_components_append Let_def)

lemma normalize_represents:
  "case normalize_path_from cwd path of
     Inl e \<Rightarrow> normalize_spec cwd path = Inl e
   | Inr p \<Rightarrow> \<exists>cs. normalize_spec cwd path = Inr cs \<and> represents p cs"
  unfolding normalize_path_from_steps normalize_spec_def
  by (rule represents_steps[OF represents_start]) (auto dest: split_on_no_sep)

lemma represents_path: "represents p cs \<Longrightarrow> take (np_len p) (np_bytes p) = render cs"
  by (auto simp: represents_def)

text \<open>Every component of the result was a component of one of the inputs.\<close>

lemma stack_steps_source:
  "stack_steps st cs = Inr st' \<Longrightarrow> set st' \<subseteq> set st \<union> set cs"
  by (induction st cs rule: stack_steps.induct)
    (fastforce split: if_splits dest: in_set_butlastD)+

lemma utf8_valid_append: "utf8_valid xs \<Longrightarrow> utf8_valid ys \<Longrightarrow> utf8_valid (xs @ ys)"
  by (simp add: utf8_valid_def utf8_run_append)

lemma utf8_valid_slash: "utf8_valid c \<Longrightarrow> utf8_valid (SLASH # c)"
  by (simp add: utf8_valid_def)

lemma utf8_valid_render: "\<forall>c\<in>set cs. utf8_valid c \<Longrightarrow> utf8_valid (render cs)"
proof -
  have "utf8_valid (concat (map ((#) SLASH) cs))" if "\<forall>c\<in>set cs. utf8_valid c"
    using that
  proof (induction cs)
    case (Cons c cs)
    then show ?case using utf8_valid_append[OF utf8_valid_slash] by simp
  qed simp
  then show "\<forall>c\<in>set cs. utf8_valid c \<Longrightarrow> utf8_valid (render cs)"
    using utf8_valid_slash[of "[]"] by (simp add: render_def)
qed

lemma normalize_as_str:
  assumes "utf8_valid cwd" "utf8_valid path" "normalize_path_from cwd path = Inr p"
  obtains cs where "normalize_spec cwd path = Inr cs" "list_all plain cs" "np_as_str p = render cs"
    "length (render cs) \<le> MAX_NORMALIZED_PATH_LEN"
proof -
  from normalize_represents[of cwd path] assms(3) obtain cs
    where cs: "normalize_spec cwd path = Inr cs" "represents p cs" by auto
  have "set cs \<subseteq> set (split_on SLASH cwd) \<union> set (split_on SLASH path)"
    using stack_steps_source[of "[]" _ cs] cs(1) by (force simp: normalize_spec_def split: if_splits)
  then have "\<forall>c\<in>set cs. utf8_valid c"
    using utf8_valid_split[of SLASH] assms(1,2) by (auto simp: subset_iff)
  then have "np_as_str p = render cs"
    using utf8_valid_render[of cs] represents_path[OF cs(2)] by (simp add: np_as_str_def Let_def)
  with cs show ?thesis by (intro that) (auto simp: represents_def)
qed

lemma split_render:
  "list_all plain cs \<Longrightarrow> split_on SLASH (render cs) = (if cs = [] then [[], []] else [] # cs)"
proof -
  have "split_on SLASH (concat (map ((#) SLASH) cs)) = [] # cs" if "list_all plain cs"
    using that
  proof (induction cs rule: rev_induct)
    case (snoc c cs)
    then show ?case
      using split_on_append_sep[of SLASH "concat (map ((#) SLASH) cs)" c]
      by (simp add: plain_def split_on_absent)
  qed simp
  then show "list_all plain cs \<Longrightarrow> split_on SLASH (render cs) = (if cs = [] then [[], []] else [] # cs)"
    by (simp add: render_def)
qed

lemma length_render_append: "length (render xs) \<le> length (render (xs @ ys))"
  by (cases "xs = []"; cases ys) (auto simp: render_def)

lemma stack_steps_plain:
  "list_all plain cs \<Longrightarrow> length (render (st @ cs)) \<le> MAX_NORMALIZED_PATH_LEN \<Longrightarrow>
   stack_steps st cs = Inr (st @ cs)"
proof (induction cs arbitrary: st)
  case (Cons c cs)
  have "length (render (st @ [c])) \<le> MAX_NORMALIZED_PATH_LEN"
    using length_render_append[of "st @ [c]" cs] Cons.prems(2) by simp
  with Cons show ?case by (simp add: plain_def)
qed simp

lemma normalize_spec_render:
  assumes "list_all plain cs" "length (render cs) \<le> MAX_NORMALIZED_PATH_LEN"
  shows "normalize_spec cwd (render cs) = Inr cs"
proof -
  have "is_absolute (render cs)" by (cases cs) (auto simp: is_absolute_def render_def)
  then show ?thesis
    using assms stack_steps_plain[of cs "[]"] by (simp add: normalize_spec_def split_render)
qed

section \<open>Properties\<close>

text \<open>
  C9: path normalisation implements the component stack.  For every working directory and
  path, \<^verbatim>\<open>normalize_path_from\<close> fails exactly when the stack machine fails, with the same error,
  and otherwise its buffer holds the rendered stack.
\<close>

theorem normalize_refines_stack:
  "map_sum id (\<lambda>p. take (np_len p) (np_bytes p)) (normalize_path_from cwd path) =
   map_sum id render (normalize_spec cwd path)"
  using normalize_represents[of cwd path]
  by (auto split: sum.splits dest: represents_path)

text \<open>
  C19: a normalised path is canonical: it is absolute, at most 128 bytes, and none of its
  components is empty, \<^verbatim>\<open>.\<close>, \<^verbatim>\<open>..\<close> or holds a NUL byte.
\<close>

theorem normalize_canonical:
  assumes "utf8_valid cwd" and "utf8_valid path" and "normalize_path_from cwd path = Inr p"
  shows "is_absolute (np_as_str p) \<and> length (np_as_str p) \<le> MAX_NORMALIZED_PATH_LEN \<and>
    (np_as_str p = [SLASH] \<or> list_all plain (tl (split_on SLASH (np_as_str p))))"
proof -
  from normalize_as_str[OF assms] obtain cs where "list_all plain cs"
    "np_as_str p = render cs" "length (render cs) \<le> MAX_NORMALIZED_PATH_LEN" .
  then show ?thesis
    by (cases cs) (simp_all add: split_render is_absolute_def, simp_all add: render_def)
qed

theorem normalize_canonical_witness:
  "case normalize_path_from (str ''/home'') (str ''../etc//./x'') of
     Inl e \<Rightarrow> False
   | Inr p \<Rightarrow> np_as_str p = str ''/etc/x'' \<and> is_absolute (np_as_str p) \<and>
       length (np_as_str p) \<le> MAX_NORMALIZED_PATH_LEN"
proof -
  have v: "utf8_valid (str ''/home'')" "utf8_valid (str ''../etc//./x'')" by code_simp+
  have e: "case normalize_path_from (str ''/home'') (str ''../etc//./x'') of
      Inl e \<Rightarrow> False | Inr p \<Rightarrow> np_as_str p = str ''/etc/x''" by code_simp
  then show ?thesis using normalize_canonical[OF v] by (auto split: sum.splits)
qed

text \<open>
  C20: normalisation is idempotent and forgets the working directory: a normalised path
  normalises, from any directory, to the same path.
\<close>

theorem normalize_idempotent:
  assumes "utf8_valid cwd" and "utf8_valid path" and "normalize_path_from cwd path = Inr p"
  shows "\<exists>q. normalize_path_from other (np_as_str p) = Inr q \<and>
    take (np_len q) (np_bytes q) = np_as_str p"
proof -
  from normalize_as_str[OF assms] obtain cs where cs: "list_all plain cs"
    "np_as_str p = render cs" "length (render cs) \<le> MAX_NORMALIZED_PATH_LEN" .
  then have "normalize_spec other (np_as_str p) = Inr cs" by (simp add: normalize_spec_render)
  with normalize_represents[of other "np_as_str p"] cs(2) show ?thesis
    by (auto split: sum.splits dest: represents_path)
qed

theorem normalize_idempotent_witness:
  "\<exists>p q. normalize_path_from (str ''/home'') (str ''../etc//./x'') = Inr p \<and>
     normalize_path_from (str ''/tmp'') (np_as_str p) = Inr q \<and>
     take (np_len q) (np_bytes q) = np_as_str p"
proof -
  have v: "utf8_valid (str ''/home'')" "utf8_valid (str ''../etc//./x'')" by code_simp+
  have "case normalize_path_from (str ''/home'') (str ''../etc//./x'') of
      Inl e \<Rightarrow> False | Inr p \<Rightarrow> True" by code_simp
  then obtain p where "normalize_path_from (str ''/home'') (str ''../etc//./x'') = Inr p"
    by (auto split: sum.splits)
  with normalize_idempotent[OF v this] show ?thesis by blast
qed

end
