(* ===== verification/Process_Types.thy ===== *)
theory Process_Types
  imports Threads User_Layout Vfs_Path
begin

text \<open>
  The data of the process table (\<^verbatim>\<open>kernel/src/user/process.rs\<close> and the argument types of
  \<^verbatim>\<open>kernel/src/user/program.rs\<close>): processes, credentials, the process store and the record \<open>kproc\<close>
  of the module's whole state.  The fields of \<^verbatim>\<open>ProcessTable\<close>, the atomics and the lazily created
  statics of the module are fields of \<open>kproc\<close>; the tick counter a function reads is its argument
  \<open>now\<close>.  The identity of a table (its PIDs, main TIDs and TIDs) is what the well-formedness
  invariant speaks about, and in-place mutations leave it alone.
\<close>

section \<open>Program arguments and credentials\<close>

datatype job_mode = Foreground | Background

record user_program_arg =
  arg_bytes :: bytes
  arg_len :: nat

datatype program_error = ProgramNotFound | ArgumentTooLong

definition FIRST_USER_ARG_PATH_LEN :: nat where
  "FIRST_USER_ARG_PATH_LEN = 32"

definition arg_empty :: user_program_arg where
  "arg_empty = \<lparr>arg_bytes = replicate FIRST_USER_ARG_PATH_LEN 0, arg_len = 0\<rparr>"

definition arg_from_path :: "bytes \<Rightarrow> program_error + user_program_arg" where
  "arg_from_path path =
     (if path = [] \<or> length path > FIRST_USER_ARG_PATH_LEN then Inl ArgumentTooLong
      else Inr (arg_empty\<lparr>arg_bytes := splice 0 path (arg_bytes arg_empty), arg_len := length path\<rparr>))"

definition arg_as_bytes :: "user_program_arg \<Rightarrow> bytes" where
  "arg_as_bytes a = take (arg_len a) (arg_bytes a)"

definition USERNAME_MAX_LEN :: nat where
  "USERNAME_MAX_LEN = 16"

record credentials =
  cr_uid :: u32
  cr_gid :: u32
  cr_username :: bytes
  cr_username_len :: nat

definition credentials_root :: credentials where
  "credentials_root = \<lparr>cr_uid = 0, cr_gid = 0,
     cr_username = splice 0 (str ''root'') (replicate USERNAME_MAX_LEN 0), cr_username_len = 4\<rparr>"

text \<open>The two index loops drop the leading and then the trailing spaces.\<close>

definition trim_ascii_spaces :: "bytes \<Rightarrow> bytes" where
  "trim_ascii_spaces bs =
     (let b = dropWhile (\<lambda>c. c = 0x20) bs in rev (dropWhile (\<lambda>c. c = 0x20) (rev b)))"

definition credentials_from_username :: "bytes \<Rightarrow> credentials" where
  "credentials_from_username name =
     (let name = trim_ascii_spaces name
      in if name = str ''root'' then credentials_root
         else
           let len = min (length name) USERNAME_MAX_LEN
           in \<lparr>cr_uid = 1000, cr_gid = 1000,
               cr_username = splice 0 (take len name) (replicate USERNAME_MAX_LEN 0),
               cr_username_len = len\<rparr>)"

definition username :: "credentials \<Rightarrow> bytes" where
  "username c = take (cr_username_len c) (cr_username c)"

section \<open>Signals\<close>

definition SIGTERM :: u64 where "SIGTERM = 15"
definition SIGCONT :: u64 where "SIGCONT = 18"
definition SIGTSTP :: u64 where "SIGTSTP = 20"
definition SIGINT :: u64 where "SIGINT = 2"
definition SIG_DFL :: u64 where "SIG_DFL = 0"
definition SIG_IGN :: u64 where "SIG_IGN = 1"

definition signal_bit :: "u64 \<Rightarrow> u64 option" where
  "signal_bit signal =
     (if signal = 0 \<or> signal > 64 then None else Some (push_bit (unat (signal - 1)) 1))"

text \<open>\<^verbatim>\<open>trailing_zeros\<close> of a non-zero mask is the index of its lowest set bit.\<close>

definition trailing_zeros :: "u64 \<Rightarrow> nat" where
  "trailing_zeros m = length (takeWhile (\<lambda>i. \<not> bit m i) [0..<64])"

definition lowest_signal :: "u64 \<Rightarrow> u64 option" where
  "lowest_signal m = (if m \<noteq> 0 then Some (of_nat (trailing_zeros m) + 1) else None)"

section \<open>Processes\<close>

datatype process_state =
  PCreated | PReady | PRunning | PBlocked | PStopped | PExited | PZombie | PReaped

datatype process_kind = KernelTask | UserProcess

record process =
  p_pid :: pid
  p_parent_pid :: "pid option"
  p_process_group_id :: pid
  p_session_id :: pid
  p_name :: bytes
  p_program_path :: bytes
  p_kind :: process_kind
  p_threads :: thread_store
  p_credentials :: credentials
  p_arg :: user_program_arg
  p_cwd :: normalized_path
  p_job_mode :: job_mode
  p_state :: process_state
  p_address_space :: address_space
  p_file_handles :: "u32 list"
  p_exit_status :: "u64 option"
  p_waiting_for :: "pid option"
  p_sleeping_until_tick :: "u64 option"
  p_pending_signals :: u64
  p_blocked_signals :: u64
  p_sigterm_disposition :: u64

definition terminal :: "process_state \<Rightarrow> bool" where
  "terminal s \<longleftrightarrow> s = PExited \<or> s = PZombie \<or> s = PReaped"

fun thread_state_for_process :: "process_state \<Rightarrow> thread_state" where
  "thread_state_for_process PCreated = TCreated"
| "thread_state_for_process PReady = TReady"
| "thread_state_for_process PRunning = TRunning"
| "thread_state_for_process PBlocked = TBlocked"
| "thread_state_for_process PStopped = TStopped"
| "thread_state_for_process PExited = TExited"
| "thread_state_for_process PZombie = TZombie"
| "thread_state_for_process PReaped = TReaped"

abbreviation main_tid :: "process \<Rightarrow> tid" where
  "main_tid p \<equiv> ts_main_tid (p_threads p)"

definition modify_thread :: "tid \<Rightarrow> (thread \<Rightarrow> thread) \<Rightarrow> process \<Rightarrow> process" where
  "modify_thread tid f p = p\<lparr>p_threads := threads_modify tid f (p_threads p)\<rparr>"

definition modify_main :: "(thread \<Rightarrow> thread) \<Rightarrow> process \<Rightarrow> process" where
  "modify_main f p = modify_thread (main_tid p) f p"

definition modify_all_threads :: "(thread \<Rightarrow> thread) \<Rightarrow> process \<Rightarrow> process" where
  "modify_all_threads f p = p\<lparr>p_threads := (p_threads p)\<lparr>ts_items := map f (ts_items (p_threads p))\<rparr>\<rparr>"

definition set_state :: "process_state \<Rightarrow> process \<Rightarrow> process" where
  "set_state s p =
     (let p = p\<lparr>p_state := s\<rparr>;
          thread_state = thread_state_for_process s
      in if terminal s
         then modify_all_threads (\<lambda>t. t\<lparr>t_state := thread_state, t_resume_context := None,
                                        t_last_started_tick := None\<rparr>) p
         else modify_main (\<lambda>t. t\<lparr>t_state := thread_state\<rparr>) p)"

definition any_thread :: "thread_state \<Rightarrow> process \<Rightarrow> bool" where
  "any_thread s p \<longleftrightarrow> list_ex (\<lambda>t. t_state t = s) (ts_items (p_threads p))"

definition refresh_state_from_threads :: "process \<Rightarrow> process" where
  "refresh_state_from_threads p =
     (if terminal (p_state p) then p
      else p\<lparr>p_state :=
        (if any_thread TRunning p then PRunning
         else if any_thread TReady p then PReady
         else if any_thread TBlocked p then PBlocked
         else if any_thread TStopped p then PStopped
         else PCreated)\<rparr>)"

definition stop_thread_run :: "u64 \<Rightarrow> thread \<Rightarrow> thread" where
  "stop_thread_run now t =
     (case t_last_started_tick t of
        None \<Rightarrow> t
      | Some started_at \<Rightarrow>
          t\<lparr>t_last_started_tick := None,
            t_runtime_ticks := saturating_add (t_runtime_ticks t) (saturating_sub now started_at)\<rparr>)"

definition start_thread_run :: "u64 \<Rightarrow> thread \<Rightarrow> thread" where
  "start_thread_run now t =
     t\<lparr>t_context_switches := saturating_add (t_context_switches t) 1,
       t_last_started_tick := Some now\<rparr>"

definition runtime_ticks_snapshot :: "process \<Rightarrow> u64 \<Rightarrow> u64 option" where
  "runtime_ticks_snapshot p now =
     (case threads_main (p_threads p) of
        None \<Rightarrow> None
      | Some t \<Rightarrow>
          let active_elapsed =
            (case (p_state p, t_last_started_tick t) of
               (PRunning, Some started_at) \<Rightarrow> saturating_sub now started_at
             | _ \<Rightarrow> 0)
          in Some (saturating_add (t_runtime_ticks t) active_elapsed))"

text \<open>
  \<^verbatim>\<open>if let Some(context) = thread.resume_context.as_mut() { context.rax = v }\<close>.
\<close>

definition set_resume_rax :: "u64 \<Rightarrow> thread \<Rightarrow> thread" where
  "set_resume_rax v t = t\<lparr>t_resume_context := map_option (\<lambda>c. c\<lparr>c_rax := v\<rparr>) (t_resume_context t)\<rparr>"

section \<open>The module state\<close>

record kproc =
  k_processes :: "process list"
  k_ready_queue :: "tid list"
  k_next_pid :: pid
  k_next_tid :: tid
  k_user_context_switches :: u64
  k_ready_queue_skips :: u64
  k_cur_pid :: u32
  k_cur_tid :: u32
  k_preempt_checks :: u64
  k_preempt_requests :: u64
  k_preempt_yields :: u64
  k_preempt_pending :: bool
  k_last_preempt_tick :: u64
  k_terminal_foreground :: u32
  k_current_process :: "pid option"
  k_current_thread :: "tid option"
  k_last_exited :: "pid option"
  k_mm :: mm

definition kproc_new :: "mm \<Rightarrow> kproc" where
  "kproc_new m = \<lparr>k_processes = [], k_ready_queue = [], k_next_pid = 1, k_next_tid = 1,
     k_user_context_switches = 0, k_ready_queue_skips = 0, k_cur_pid = 0, k_cur_tid = 0,
     k_preempt_checks = 0, k_preempt_requests = 0, k_preempt_yields = 0, k_preempt_pending = False,
     k_last_preempt_tick = 0, k_terminal_foreground = 0, k_current_process = None,
     k_current_thread = None, k_last_exited = None, k_mm = m\<rparr>"

subsection \<open>The process store\<close>

definition get_process :: "kproc \<Rightarrow> pid \<Rightarrow> process option" where
  "get_process k p = find (\<lambda>q. p_pid q = p) (k_processes k)"

definition modify_process :: "pid \<Rightarrow> (process \<Rightarrow> process) \<Rightarrow> kproc \<Rightarrow> kproc" where
  "modify_process p f k =
     k\<lparr>k_processes := update_first (\<lambda>q. p_pid q = p) f (k_processes k)\<rparr>"

definition store_insert :: "pid \<Rightarrow> process \<Rightarrow> kproc \<Rightarrow> kproc" where
  "store_insert p q k =
     (if get_process k p \<noteq> None then modify_process p (\<lambda>_. q) k
      else k\<lparr>k_processes := k_processes k @ [q]\<rparr>)"

definition store_remove :: "pid \<Rightarrow> kproc \<Rightarrow> kproc" where
  "store_remove p k = k\<lparr>k_processes := remove_first (\<lambda>q. p_pid q = p) (k_processes k)\<rparr>"

definition has_tid :: "tid \<Rightarrow> process \<Rightarrow> bool" where
  "has_tid tid p \<longleftrightarrow> threads_get (p_threads p) tid \<noteq> None"

definition get_by_tid :: "kproc \<Rightarrow> tid \<Rightarrow> process option" where
  "get_by_tid k tid = find (has_tid tid) (k_processes k)"

definition modify_by_tid :: "tid \<Rightarrow> (process \<Rightarrow> process) \<Rightarrow> kproc \<Rightarrow> kproc" where
  "modify_by_tid tid f k = k\<lparr>k_processes := update_first (has_tid tid) f (k_processes k)\<rparr>"

subsection \<open>Queue and run helpers\<close>

definition enqueue_ready :: "tid \<Rightarrow> kproc \<Rightarrow> kproc" where
  "enqueue_ready tid k =
     (if tid \<in> set (k_ready_queue k) then k else k\<lparr>k_ready_queue := k_ready_queue k @ [tid]\<rparr>)"

definition remove_from_ready_queue :: "pid \<Rightarrow> kproc \<Rightarrow> kproc" where
  "remove_from_ready_queue p k =
     (let tids = (case get_process k p of None \<Rightarrow> [] | Some q \<Rightarrow> tids_of (p_threads q))
      in k\<lparr>k_ready_queue := filter (\<lambda>queued. queued \<notin> set tids) (k_ready_queue k)\<rparr>)"

definition reserve_pid :: "kproc \<Rightarrow> pid \<times> kproc" where
  "reserve_pid k = (k_next_pid k, k\<lparr>k_next_pid := k_next_pid k + 1\<rparr>)"

definition reserve_tid :: "kproc \<Rightarrow> tid \<times> kproc" where
  "reserve_tid k = (k_next_tid k, k\<lparr>k_next_tid := saturating_add (k_next_tid k) 1\<rparr>)"

definition start_process_run :: "u64 \<Rightarrow> pid \<Rightarrow> kproc \<Rightarrow> kproc" where
  "start_process_run now p k =
     (case get_process k p of
        None \<Rightarrow> k
      | Some _ \<Rightarrow>
          (modify_process p (\<lambda>q. modify_main (start_thread_run now) (set_state PRunning q)) k)
            \<lparr>k_preempt_pending := False, k_cur_pid := p,
             k_user_context_switches := k_user_context_switches k + 1\<rparr>)"

definition stop_process_run :: "u64 \<Rightarrow> pid \<Rightarrow> kproc \<Rightarrow> kproc" where
  "stop_process_run now p k =
     modify_process p (modify_main (stop_thread_run now))
       (if k_cur_pid k = p then k\<lparr>k_cur_pid := 0, k_cur_tid := 0, k_preempt_pending := False\<rparr> else k)"

text \<open>
  Hands the kernel-managed stack of a thread back: the frame of its address space and the top of
  its stack, which the thread forgets.
\<close>

definition take_managed_stack_release :: "tid \<Rightarrow> process \<Rightarrow> (u64 \<times> u64) option \<times> process" where
  "take_managed_stack_release tid p =
     (case (as_p4_frame (p_address_space p), threads_get (p_threads p) tid) of
        (Some p4_frame, Some t) \<Rightarrow>
          (case (t_kernel_managed_stack t, t_user_stack_top t) of
             (True, Some stack_top) \<Rightarrow>
               (Some (p4_frame, stack_top),
                modify_thread tid (\<lambda>t. t\<lparr>t_user_stack_top := None, t_user_stack_start := None,
                                         t_kernel_managed_stack := False\<rparr>) p)
           | _ \<Rightarrow> (None, p))
      | _ \<Rightarrow> (None, p))"

definition release_stack_opt :: "(u64 \<times> u64) option \<Rightarrow> kproc \<Rightarrow> kproc" where
  "release_stack_opt r k =
     (case r of
        None \<Rightarrow> k
      | Some (p4_frame, stack_top) \<Rightarrow>
          k\<lparr>k_mm := snd (release_private_thread_stack p4_frame stack_top (k_mm k))\<rparr>)"

interpretation process_items: keyed_store p_pid get_process modify_process
  by unfold_locales
    (auto simp: get_process_def modify_process_def find_key_update_first dest: find_SomeD)

definition thread_of :: "kproc \<Rightarrow> tid \<Rightarrow> thread option" where
  "thread_of k tid = (case get_by_tid k tid of None \<Rightarrow> None | Some p \<Rightarrow> threads_get (p_threads p) tid)"

section \<open>Identities\<close>

definition thread_ident :: "thread \<Rightarrow> tid \<times> pid" where
  "thread_ident t = (t_tid t, t_process_id t)"

definition process_ident :: "process \<Rightarrow> pid \<times> tid \<times> (tid \<times> pid) list" where
  "process_ident p = (p_pid p, main_tid p, map thread_ident (ts_items (p_threads p)))"

definition table_ident :: "kproc \<Rightarrow> (pid \<times> tid \<times> (tid \<times> pid) list) list" where
  "table_ident k = map process_ident (k_processes k)"

named_theorems ident_simps

lemma thread_ident_stop [simp]: "thread_ident (stop_thread_run now t) = thread_ident t"
  by (simp add: stop_thread_run_def thread_ident_def split: option.split)

lemma thread_ident_start [simp]: "thread_ident (start_thread_run now t) = thread_ident t"
  by (simp add: start_thread_run_def thread_ident_def)

lemma thread_ident_rax [simp]: "thread_ident (set_resume_rax v t) = thread_ident t"
  by (simp add: set_resume_rax_def thread_ident_def)

lemma thread_ident_updates [simp]:
  "thread_ident (t\<lparr>t_state := s\<rparr>) = thread_ident t"
  "thread_ident (t\<lparr>t_resume_context := c\<rparr>) = thread_ident t"
  "thread_ident (t\<lparr>t_signal_return_context := c\<rparr>) = thread_ident t"
  "thread_ident (t\<lparr>t_context_switches := n\<rparr>) = thread_ident t"
  "thread_ident (t\<lparr>t_last_started_tick := l\<rparr>) = thread_ident t"
  "thread_ident (t\<lparr>t_user_stack_start := u\<rparr>) = thread_ident t"
  "thread_ident (t\<lparr>t_user_stack_top := u\<rparr>) = thread_ident t"
  "thread_ident (t\<lparr>t_kernel_managed_stack := b\<rparr>) = thread_ident t"
  "thread_ident (t\<lparr>t_waiting_for := w\<rparr>) = thread_ident t"
  by (simp_all add: thread_ident_def)

lemma process_ident_modify_thread [simp]:
  "(\<And>t. thread_ident (f t) = thread_ident t) \<Longrightarrow> process_ident (modify_thread tid f p) = process_ident p"
  by (simp add: process_ident_def modify_thread_def threads_modify_def map_update_first)

lemma process_ident_modify_main [simp]:
  "(\<And>t. thread_ident (f t) = thread_ident t) \<Longrightarrow> process_ident (modify_main f p) = process_ident p"
  by (simp add: modify_main_def)

lemma process_ident_modify_all [simp]:
  "(\<And>t. thread_ident (f t) = thread_ident t) \<Longrightarrow> process_ident (modify_all_threads f p) = process_ident p"
  by (simp add: modify_all_threads_def process_ident_def)

lemma process_ident_updates [simp]:
  "process_ident (p\<lparr>p_state := a\<rparr>) = process_ident p"
  "process_ident (p\<lparr>p_credentials := b\<rparr>) = process_ident p"
  "process_ident (p\<lparr>p_cwd := c\<rparr>) = process_ident p"
  "process_ident (p\<lparr>p_address_space := d\<rparr>) = process_ident p"
  "process_ident (p\<lparr>p_exit_status := e\<rparr>) = process_ident p"
  "process_ident (p\<lparr>p_waiting_for := f\<rparr>) = process_ident p"
  "process_ident (p\<lparr>p_sleeping_until_tick := g\<rparr>) = process_ident p"
  "process_ident (p\<lparr>p_pending_signals := h\<rparr>) = process_ident p"
  "process_ident (p\<lparr>p_blocked_signals := i\<rparr>) = process_ident p"
  "process_ident (p\<lparr>p_sigterm_disposition := j\<rparr>) = process_ident p"
  "process_ident (p\<lparr>p_process_group_id := l\<rparr>) = process_ident p"
  "process_ident (p\<lparr>p_session_id := m\<rparr>) = process_ident p"
  by (simp_all add: process_ident_def)

lemma process_ident_set_state [simp]: "process_ident (set_state s p) = process_ident p"
  by (simp add: set_state_def Let_def)

lemma process_ident_refresh [simp]: "process_ident (refresh_state_from_threads p) = process_ident p"
  by (simp add: refresh_state_from_threads_def)

lemma process_ident_take_managed [simp]:
  "process_ident (snd (take_managed_stack_release tid p)) = process_ident p"
  by (simp add: take_managed_stack_release_def split: option.split bool.split)

lemma table_ident_modify_process [simp]:
  "(\<And>p. process_ident (f p) = process_ident p) \<Longrightarrow> table_ident (modify_process q f k) = table_ident k"
  by (simp add: table_ident_def modify_process_def map_update_first)

lemma table_ident_modify_by_tid [simp]:
  "(\<And>p. process_ident (f p) = process_ident p) \<Longrightarrow> table_ident (modify_by_tid tid f k) = table_ident k"
  by (simp add: table_ident_def modify_by_tid_def map_update_first)

lemma table_ident_updates [simp]:
  "table_ident (k\<lparr>k_ready_queue := a\<rparr>) = table_ident k"
  "table_ident (k\<lparr>k_next_pid := b\<rparr>) = table_ident k"
  "table_ident (k\<lparr>k_next_tid := c\<rparr>) = table_ident k"
  "table_ident (k\<lparr>k_user_context_switches := d\<rparr>) = table_ident k"
  "table_ident (k\<lparr>k_ready_queue_skips := e\<rparr>) = table_ident k"
  "table_ident (k\<lparr>k_cur_pid := f\<rparr>) = table_ident k"
  "table_ident (k\<lparr>k_cur_tid := g\<rparr>) = table_ident k"
  "table_ident (k\<lparr>k_preempt_pending := h\<rparr>) = table_ident k"
  "table_ident (k\<lparr>k_mm := i\<rparr>) = table_ident k"
  by (simp_all add: table_ident_def)

section \<open>Well-formed tables\<close>

definition ident_ok :: "pid \<times> tid \<times> (tid \<times> pid) list \<Rightarrow> bool" where
  "ident_ok = (\<lambda>(p, m, ts). distinct (map fst ts) \<and> m \<in> set (map fst ts) \<and>
     length ts \<le> MAX_THREADS_PER_PROCESS \<and> list_all (\<lambda>(t, q). q = p) ts)"

definition ident_tids :: "pid \<times> tid \<times> (tid \<times> pid) list \<Rightarrow> tid list" where
  "ident_tids = (\<lambda>(p, m, ts). map fst ts)"

definition idents_ok :: "pid \<Rightarrow> tid \<Rightarrow> (pid \<times> tid \<times> (tid \<times> pid) list) list \<Rightarrow> bool" where
  "idents_ok np nt ids \<longleftrightarrow>
     distinct (map fst ids) \<and> list_all ident_ok ids \<and>
     distinct (concat (map ident_tids ids)) \<and>
     list_all (\<lambda>i. fst i < np) ids \<and> list_all (\<lambda>t. t < nt) (concat (map ident_tids ids))"

text \<open>
  The invariant of the table: PIDs are distinct and below the next one, TIDs are distinct across
  all processes and below the next one, each store is well formed with its main thread present,
  no TID is queued twice, and the pool of private tables is well formed.
\<close>

definition table_ok :: "kproc \<Rightarrow> bool" where
  "table_ok k \<longleftrightarrow>
     idents_ok (k_next_pid k) (k_next_tid k) (table_ident k) \<and>
     distinct (k_ready_queue k) \<and> pool_ok (mm_pool (k_mm k))"

lemma ident_ok_iff: "ident_ok (process_ident p) \<longleftrightarrow> threads_ok (p_pid p) (p_threads p)"
  by (simp add: ident_ok_def process_ident_def threads_ok_def tids_of_def thread_ident_def
      comp_def list_all_iff image_image)

lemma ident_tids_process [simp]: "ident_tids (process_ident p) = tids_of (p_threads p)"
  by (simp add: ident_tids_def process_ident_def tids_of_def thread_ident_def comp_def)

lemma fst_process_ident [simp]: "fst (process_ident p) = p_pid p"
  by (simp add: process_ident_def)

text \<open>What the invariant says of the processes themselves.\<close>

lemma table_ok_pids: "table_ok k \<Longrightarrow> distinct (map p_pid (k_processes k))"
  by (simp add: table_ok_def idents_ok_def table_ident_def comp_def)

lemma table_ok_threads: "table_ok k \<Longrightarrow> p \<in> set (k_processes k) \<Longrightarrow> threads_ok (p_pid p) (p_threads p)"
  by (simp add: table_ok_def idents_ok_def table_ident_def list_all_iff ident_ok_iff)

lemma table_ok_tids: "table_ok k \<Longrightarrow> distinct (concat (map (\<lambda>p. tids_of (p_threads p)) (k_processes k)))"
  by (simp add: table_ok_def idents_ok_def table_ident_def comp_def)

lemma table_ok_pid_less: "table_ok k \<Longrightarrow> p \<in> set (k_processes k) \<Longrightarrow> p_pid p < k_next_pid k"
  by (simp add: table_ok_def idents_ok_def table_ident_def list_all_iff)

lemma table_ok_tid_less:
  "table_ok k \<Longrightarrow> p \<in> set (k_processes k) \<Longrightarrow> t \<in> set (tids_of (p_threads p)) \<Longrightarrow> t < k_next_tid k"
  by (auto simp: table_ok_def idents_ok_def table_ident_def list_all_iff)

lemma get_process_iff:
  "table_ok k \<Longrightarrow> get_process k q = Some p \<longleftrightarrow> p \<in> set (k_processes k) \<and> p_pid p = q"
  by (simp add: get_process_def find_key_eq table_ok_pids)

lemma get_process_SomeD: "get_process k q = Some p \<Longrightarrow> p \<in> set (k_processes k) \<and> p_pid p = q"
  by (auto simp: get_process_def dest: find_SomeD)

lemma has_tid_iff: "has_tid tid p \<longleftrightarrow> tid \<in> set (tids_of (p_threads p))"
  by (simp add: has_tid_def threads_get_None_iff)

lemma get_by_tid_SomeD:
  "get_by_tid k tid = Some p \<Longrightarrow> p \<in> set (k_processes k) \<and> tid \<in> set (tids_of (p_threads p))"
  by (auto simp: get_by_tid_def has_tid_iff dest: find_SomeD)

lemma distinct_concat_unique:
  "distinct (concat (map g xs)) \<Longrightarrow> x \<in> set xs \<Longrightarrow> y \<in> set xs \<Longrightarrow> z \<in> set (g x) \<Longrightarrow> z \<in> set (g y) \<Longrightarrow> x = y"
  by (induction xs) auto

lemma table_ok_owner_unique:
  "table_ok k \<Longrightarrow> p \<in> set (k_processes k) \<Longrightarrow> q \<in> set (k_processes k) \<Longrightarrow>
   t \<in> set (tids_of (p_threads p)) \<Longrightarrow> t \<in> set (tids_of (p_threads q)) \<Longrightarrow> p = q"
  using distinct_concat_unique[OF table_ok_tids] by blast

lemma get_by_tid_iff:
  assumes "table_ok k"
  shows "get_by_tid k tid = Some p \<longleftrightarrow> p \<in> set (k_processes k) \<and> tid \<in> set (tids_of (p_threads p))"
proof
  assume p: "p \<in> set (k_processes k) \<and> tid \<in> set (tids_of (p_threads p))"
  then have "get_by_tid k tid \<noteq> None" by (auto simp: get_by_tid_def find_None_iff_all has_tid_iff)
  then obtain q where "get_by_tid k tid = Some q" by blast
  with p table_ok_owner_unique[OF assms] show "get_by_tid k tid = Some p"
    by (metis get_by_tid_SomeD)
qed (rule get_by_tid_SomeD)

section \<open>The primitives keep the invariant\<close>

lemma modify_process_fields [simp]:
  "k_ready_queue (modify_process q f k) = k_ready_queue k"
  "k_next_pid (modify_process q f k) = k_next_pid k"
  "k_next_tid (modify_process q f k) = k_next_tid k"
  "k_cur_pid (modify_process q f k) = k_cur_pid k"
  "k_mm (modify_process q f k) = k_mm k"
  by (simp_all add: modify_process_def)

lemma modify_by_tid_fields [simp]:
  "k_ready_queue (modify_by_tid t f k) = k_ready_queue k"
  "k_next_pid (modify_by_tid t f k) = k_next_pid k"
  "k_next_tid (modify_by_tid t f k) = k_next_tid k"
  "k_cur_pid (modify_by_tid t f k) = k_cur_pid k"
  "k_mm (modify_by_tid t f k) = k_mm k"
  by (simp_all add: modify_by_tid_def)

lemma table_ok_modify [simp]:
  "(\<And>p. process_ident (f p) = process_ident p) \<Longrightarrow> table_ok (modify_process q f k) = table_ok k"
  "(\<And>p. process_ident (f p) = process_ident p) \<Longrightarrow> table_ok (modify_by_tid t f k) = table_ok k"
  by (simp_all add: table_ok_def)

lemma table_ok_fields [simp]:
  "table_ok (k\<lparr>k_user_context_switches := a\<rparr>) = table_ok k"
  "table_ok (k\<lparr>k_ready_queue_skips := b\<rparr>) = table_ok k"
  "table_ok (k\<lparr>k_cur_pid := c\<rparr>) = table_ok k"
  "table_ok (k\<lparr>k_cur_tid := d\<rparr>) = table_ok k"
  "table_ok (k\<lparr>k_preempt_checks := e\<rparr>) = table_ok k"
  "table_ok (k\<lparr>k_preempt_requests := f\<rparr>) = table_ok k"
  "table_ok (k\<lparr>k_preempt_yields := g\<rparr>) = table_ok k"
  "table_ok (k\<lparr>k_preempt_pending := h\<rparr>) = table_ok k"
  "table_ok (k\<lparr>k_last_preempt_tick := i\<rparr>) = table_ok k"
  "table_ok (k\<lparr>k_terminal_foreground := j\<rparr>) = table_ok k"
  "table_ok (k\<lparr>k_current_process := l\<rparr>) = table_ok k"
  "table_ok (k\<lparr>k_current_thread := m\<rparr>) = table_ok k"
  "table_ok (k\<lparr>k_last_exited := n\<rparr>) = table_ok k"
  by (simp_all add: table_ok_def table_ident_def)

lemma table_ok_queue:
  "table_ok k \<Longrightarrow> distinct q \<Longrightarrow> table_ok (k\<lparr>k_ready_queue := q\<rparr>)"
  by (simp add: table_ok_def)

lemma table_ok_distinct_queue: "table_ok k \<Longrightarrow> distinct (k_ready_queue k)"
  by (simp add: table_ok_def)

lemma table_ok_enqueue [simp]: "table_ok (enqueue_ready t k) = table_ok k"
  by (simp add: enqueue_ready_def table_ok_def)

lemma table_ok_remove_queue [simp]: "table_ok k \<Longrightarrow> table_ok (remove_from_ready_queue p k)"
  by (simp add: remove_from_ready_queue_def table_ok_queue table_ok_distinct_queue Let_def)

lemma table_ok_filter_queue [simp]:
  "table_ok k \<Longrightarrow> table_ok (k\<lparr>k_ready_queue := filter P (k_ready_queue k)\<rparr>)"
  by (simp add: table_ok_queue table_ok_distinct_queue)

lemma table_ok_start [simp]: "table_ok (start_process_run now p k) = table_ok k"
  by (simp add: start_process_run_def split: option.split)

lemma table_ok_stop [simp]: "table_ok (stop_process_run now p k) = table_ok k"
  by (simp add: stop_process_run_def)

lemma table_ok_release_stack [simp]: "table_ok k \<Longrightarrow> table_ok (release_stack_opt r k)"
  by (auto simp: release_stack_opt_def table_ok_def pool_ok_release_private_thread_stack
      split: option.split)

lemma table_ok_reserve_stack:
  "table_ok k \<Longrightarrow> table_ok (k\<lparr>k_mm := snd (reserve_private_thread_stack f t (k_mm k))\<rparr>)"
  by (simp add: table_ok_def pool_ok_reserve_private_thread_stack)

lemma less_saturating_Suc: "a < b \<Longrightarrow> a < saturating_add b (1 :: 'a :: len word)"
  by (meson less_le_trans saturating_add_ge)

lemma table_ok_reserve_tid:
  "table_ok k \<Longrightarrow> table_ok (snd (reserve_tid k))"
  by (auto simp: table_ok_def reserve_tid_def idents_ok_def list_all_iff
      intro: less_saturating_Suc)

text \<open>Writing back a copy of the found process.\<close>

lemma table_ok_write_back:
  "get_process k q = Some p \<Longrightarrow> process_ident r = process_ident p \<Longrightarrow>
   table_ok (modify_process q (\<lambda>_. r) k) = table_ok k"
  "get_by_tid k t = Some p \<Longrightarrow> process_ident r = process_ident p \<Longrightarrow>
   table_ok (modify_by_tid t (\<lambda>_. r) k) = table_ok k"
  using update_first_split[of "\<lambda>x. p_pid x = q" "k_processes k" p "\<lambda>_. r"]
    update_first_split[of "has_tid t" "k_processes k" p "\<lambda>_. r"]
  by (auto simp: table_ok_def table_ident_def modify_process_def modify_by_tid_def
      get_process_def get_by_tid_def)

section \<open>Adding a thread or a process\<close>

text \<open>
  One entry of the table is replaced (\<open>xs\<close> is that entry) or added (\<open>xs\<close> is empty); its TIDs are
  old ones of that entry or fresh.
\<close>

lemma idents_ok_replace:
  assumes ok: "idents_ok np nt (us @ xs @ vs)"
    and pid: "fst y \<notin> fst ` (set us \<union> set vs)" "fst y < np'" "np \<le> np'"
    and y: "ident_ok y" "nt \<le> nt'"
    and tids: "\<And>t. t \<in> set (ident_tids y) \<Longrightarrow> t < nt' \<and> (t \<in> set (concat (map ident_tids xs)) \<or> nt \<le> t)"
  shows "idents_ok np' nt' (us @ y # vs)"
proof -
  define A where "A = concat (map ident_tids us)"
  define X where "X = concat (map ident_tids xs)"
  define B where "B = concat (map ident_tids vs)"
  define Y where "Y = ident_tids y"
  have old: "distinct (map fst us @ map fst xs @ map fst vs)" "distinct (A @ X @ B)"
    and all: "\<forall>i\<in>set us \<union> set vs. ident_ok i" "\<forall>i\<in>set us \<union> set vs. fst i < np"
      "\<forall>t\<in>set A \<union> set B. t < nt"
    using ok by (simp_all add: idents_ok_def list_all_iff A_def X_def B_def ball_Un)
  have new: "t < nt' \<and> (t \<in> set X \<or> nt \<le> t)" if "t \<in> set Y" for t
    using tids that unfolding X_def Y_def .
  have "set Y \<inter> (set A \<union> set B) = {}"
  proof -
    have "t \<notin> set A \<union> set B" if t: "t \<in> set Y" for t
    proof
      assume ab: "t \<in> set A \<union> set B"
      with all(3) have "t < nt" by blast
      with new[OF t] have "t \<in> set X" using leD by blast
      with ab old(2) show False by auto
    qed
    then show ?thesis by blast
  qed
  moreover have "distinct Y" using y(1) by (auto simp: ident_ok_def ident_tids_def Y_def)
  ultimately have "distinct (A @ Y @ B)" using old(2) by auto
  moreover have "\<forall>t\<in>set (A @ Y @ B). t < nt'"
  proof
    fix t assume "t \<in> set (A @ Y @ B)"
    then consider "t \<in> set Y" | "t < nt" using all(3) by auto
    then show "t < nt'" using new y(2) by cases (blast, rule less_le_trans)
  qed
  moreover have "\<forall>i\<in>set (us @ y # vs). fst i < np'"
  proof
    fix i assume "i \<in> set (us @ y # vs)"
    then consider "i = y" | "fst i < np" using all(2) by auto
    then show "fst i < np'" using pid(2,3) by cases (blast, rule less_le_trans)
  qed
  moreover have "distinct (map fst (us @ y # vs))" using old(1) pid(1) by auto
  moreover have "\<forall>i\<in>set (us @ y # vs). ident_ok i" using all(1) y(1) by auto
  ultimately show ?thesis
    by (simp only: idents_ok_def list_all_iff concat_append map_append list.map concat.simps
        A_def[symmetric] B_def[symmetric] Y_def[symmetric])
qed

lemma table_ok_replace:
  assumes ok: "table_ok k" and p: "get_process k q = Some p"
    and f: "p_pid (f p) = q" "threads_ok q (p_threads (f p))"
    and le: "k_next_pid k \<le> np" "k_next_tid k \<le> nt"
    and tids: "\<And>t. t \<in> set (tids_of (p_threads (f p))) \<Longrightarrow>
      t < nt \<and> (t \<in> set (tids_of (p_threads p)) \<or> k_next_tid k \<le> t)"
  shows "table_ok (modify_process q f (k\<lparr>k_next_pid := np, k_next_tid := nt\<rparr>))"
proof -
  obtain us vs where sp: "k_processes k = us @ p # vs"
    "update_first (\<lambda>r. p_pid r = q) f (k_processes k) = us @ f p # vs"
    using update_first_split[of _ _ _ f, OF p[unfolded get_process_def]] by blast
  have old: "idents_ok (k_next_pid k) (k_next_tid k)
      (map process_ident us @ [process_ident p] @ map process_ident vs)"
    using ok sp(1) by (simp add: table_ok_def table_ident_def)
  have q: "p_pid p = q" using get_process_SomeD[OF p] by simp
  have "idents_ok np nt (map process_ident us @ process_ident (f p) # map process_ident vs)"
  proof (rule idents_ok_replace[OF old])
    show "fst (process_ident (f p)) \<notin> fst ` (set (map process_ident us) \<union> set (map process_ident vs))"
      using table_ok_pids[OF ok] sp(1) q f(1) by (auto simp: image_iff)
    have "p_pid p < k_next_pid k" using table_ok_pid_less[OF ok] sp(1) by simp
    with q f(1) le(1) show "fst (process_ident (f p)) < np" by simp
    show "ident_ok (process_ident (f p))" using f ident_ok_iff[of "f p"] by simp
    show "t < nt \<and> (t \<in> set (concat (map ident_tids [process_ident p])) \<or> k_next_tid k \<le> t)"
      if "t \<in> set (ident_tids (process_ident (f p)))" for t
      using tids[of t] that by simp
  qed (use le in simp_all)
  with ok sp(2) show ?thesis by (simp add: table_ok_def table_ident_def modify_process_def)
qed

lemma table_ok_append:
  assumes ok: "table_ok k" and none: "get_process k (p_pid p) = None"
    and p: "p_pid p < np" "threads_ok (p_pid p) (p_threads p)"
    and le: "k_next_pid k \<le> np" "k_next_tid k \<le> nt"
    and tids: "\<And>t. t \<in> set (tids_of (p_threads p)) \<Longrightarrow> t < nt \<and> k_next_tid k \<le> t"
  shows "table_ok (k\<lparr>k_next_pid := np, k_next_tid := nt, k_processes := k_processes k @ [p]\<rparr>)"
proof -
  have old: "idents_ok (k_next_pid k) (k_next_tid k) (table_ident k @ [] @ [])"
    using ok by (simp add: table_ok_def)
  have "p_pid p \<notin> p_pid ` set (k_processes k)"
    using none by (auto simp: get_process_def find_None_iff_all)
  then have n: "fst (process_ident p) \<notin> fst ` (set (table_ident k) \<union> set [])"
    by (simp add: table_ident_def image_image)
  have "idents_ok np nt (table_ident k @ [process_ident p])"
  proof (rule idents_ok_replace[OF old n])
    show "ident_ok (process_ident p)" using p ident_ok_iff[of p] by simp
    show "t < nt \<and> (t \<in> set (concat (map ident_tids [])) \<or> k_next_tid k \<le> t)"
      if "t \<in> set (ident_tids (process_ident p))" for t
      using tids[of t] that by simp
  qed (use p le in simp_all)
  with ok show ?thesis by (simp add: table_ok_def table_ident_def)
qed

lemma table_ok_store_remove [simp]:
  assumes ok: "table_ok k"
  shows "table_ok (store_remove q k)"
proof (cases "get_process k q")
  case None
  then have "store_remove q k = k" by (simp add: store_remove_def get_process_def remove_first_absent)
  with ok show ?thesis by simp
next
  case (Some p)
  then obtain us vs where sp: "k_processes k = us @ p # vs"
    "remove_first (\<lambda>r. p_pid r = q) (k_processes k) = us @ vs"
    using remove_first_split[OF Some[unfolded get_process_def]] by blast
  have "idents_ok (k_next_pid k) (k_next_tid k) (map process_ident us @ process_ident p # map process_ident vs)"
    using ok sp(1) by (simp add: table_ok_def table_ident_def)
  then have "idents_ok (k_next_pid k) (k_next_tid k) (map process_ident us @ map process_ident vs)"
    by (simp add: idents_ok_def) blast
  with ok sp(2) show ?thesis by (simp add: table_ok_def table_ident_def store_remove_def)
qed

section \<open>Looking threads up\<close>

definition keeps_tids :: "(process \<Rightarrow> process) \<Rightarrow> bool" where
  "keeps_tids f \<longleftrightarrow> (\<forall>p. tids_of (p_threads (f p)) = tids_of (p_threads p))"

lemma keeps_tidsI: "(\<And>p. process_ident (f p) = process_ident p) \<Longrightarrow> keeps_tids f"
  unfolding keeps_tids_def by (metis ident_tids_process)

lemma has_tid_keeps: "keeps_tids f \<Longrightarrow> has_tid t (f p) = has_tid t p"
  by (simp add: keeps_tids_def has_tid_iff)

lemma thread_of_modify_by_tid:
  assumes "\<And>p. p_threads (f p) = threads_modify t h (p_threads p)" and "\<And>x. t_tid (h x) = t_tid x"
  shows "thread_of (modify_by_tid t f k) t' =
    (if t' = t then map_option h (thread_of k t) else thread_of k t')"
proof -
  have ht: "has_tid r (f p) = has_tid r p" for r p
    using assms by (simp add: has_tid_iff)
  define look where "look r ps = (case find (has_tid r) ps of None \<Rightarrow> None | Some p \<Rightarrow> threads_get (p_threads p) r)"
    for r ps
  have get: "threads_get (p_threads (f p)) t' =
      (if t' = t then map_option h (threads_get (p_threads p) t) else threads_get (p_threads p) t')" for p
    unfolding assms(1) by (rule thread_items.get_modify[OF assms(2)])
  have "look t' (update_first (has_tid t) f ps) =
    (if t' = t then map_option h (look t ps) else look t' ps)" for ps
  proof (induction ps)
    case (Cons p ps)
    show ?case
    proof (cases "has_tid t' p")
      case True
      then show ?thesis using get[of p] ht[of t' p] by (cases "t' = t") (simp_all add: look_def)
    next
      case False
      then show ?thesis using Cons ht[of t' p] by (cases "t' = t") (auto simp: look_def)
    qed
  qed (simp add: look_def)
  then show ?thesis by (simp add: modify_by_tid_def thread_of_def get_by_tid_def look_def)
qed

lemma thread_of_fields [simp]:
  "thread_of (k\<lparr>k_ready_queue := a\<rparr>) t = thread_of k t"
  "thread_of (k\<lparr>k_next_tid := b\<rparr>) t = thread_of k t"
  "thread_of (k\<lparr>k_mm := c\<rparr>) t = thread_of k t"
  "thread_of (k\<lparr>k_user_context_switches := d\<rparr>) t = thread_of k t"
  "thread_of (k\<lparr>k_ready_queue_skips := e\<rparr>) t = thread_of k t"
  by (simp_all add: thread_of_def get_by_tid_def)

lemma thread_of_enqueue [simp]: "thread_of (enqueue_ready a k) t = thread_of k t"
  by (simp add: enqueue_ready_def)

text \<open>A change of one process shows in the lookups of its own threads only.\<close>

lemma thread_of_iff:
  "table_ok k \<Longrightarrow> thread_of k t = Some x \<longleftrightarrow> (\<exists>p\<in>set (k_processes k). threads_get (p_threads p) t = Some x)"
proof
  assume "table_ok k" "thread_of k t = Some x"
  then show "\<exists>p\<in>set (k_processes k). threads_get (p_threads p) t = Some x"
    by (auto simp: thread_of_def split: option.splits dest: get_by_tid_SomeD)
next
  assume ok: "table_ok k" and "\<exists>p\<in>set (k_processes k). threads_get (p_threads p) t = Some x"
  then obtain p where p: "p \<in> set (k_processes k)" "threads_get (p_threads p) t = Some x" by blast
  then have "t \<in> set (tids_of (p_threads p))" using threads_get_None_iff[of "p_threads p" t] by simp
  then have "get_by_tid k t = Some p" using get_by_tid_iff[OF ok] p(1) by blast
  then show "thread_of k t = Some x" using p(2) by (simp add: thread_of_def)
qed

lemma thread_of_get_process:
  assumes ok: "table_ok k" and p: "get_process k q = Some p" and t: "t \<in> set (tids_of (p_threads p))"
  shows "thread_of k t = threads_get (p_threads p) t"
proof -
  have "get_by_tid k t = Some p" using get_by_tid_iff[OF ok] get_process_SomeD[OF p] t by blast
  then show ?thesis by (simp add: thread_of_def)
qed

lemma modify_by_tid_process:
  assumes ok: "table_ok k" and p: "get_by_tid k t = Some p"
  shows "modify_by_tid t f k = modify_process (p_pid p) f k"
proof -
  have eq: "has_tid t r \<longleftrightarrow> p_pid r = p_pid p" if "r \<in> set (k_processes k)" for r
    using get_by_tid_SomeD[OF p] that table_ok_owner_unique[OF ok] table_ok_pids[OF ok]
    by (auto simp: has_tid_iff dest: distinct_key_same)
  have "update_first (has_tid t) f xs = update_first (\<lambda>r. p_pid r = p_pid p) f xs"
    if "set xs \<subseteq> set (k_processes k)" for xs
    using that by (induction xs) (auto simp: eq)
  then show ?thesis by (simp add: modify_by_tid_def modify_process_def)
qed

lemma threads_get_modify_all:
  "(\<And>t. t_tid (f t) = t_tid t) \<Longrightarrow>
   threads_get (p_threads (modify_all_threads f p)) t = map_option f (threads_get (p_threads p) t)"
proof -
  assume f: "\<And>t. t_tid (f t) = t_tid t"
  have "find (\<lambda>x. t_tid x = t) (map f xs) = map_option f (find (\<lambda>x. t_tid x = t) xs)" for xs
    by (induction xs) (auto simp: f)
  then show ?thesis by (simp add: threads_get_def modify_all_threads_def)
qed

lemma threads_get_modify_thread:
  "(\<And>t. t_tid (f t) = t_tid t) \<Longrightarrow>
   threads_get (p_threads (modify_thread u f p)) t =
   (if t = u then map_option f (threads_get (p_threads p) t) else threads_get (p_threads p) t)"
  by (simp add: modify_thread_def thread_items.get_modify)

lemma p_threads_refresh [simp]: "p_threads (refresh_state_from_threads p) = p_threads p"
  by (simp add: refresh_state_from_threads_def)

text \<open>Lookups after one process of the table changed its threads.\<close>

lemma thread_of_modify_process:
  assumes ok: "table_ok k" and p: "get_process k q = Some p"
    and f: "tids_of (p_threads (f p)) = tids_of (p_threads p)"
  shows "thread_of (modify_process q f k) t =
    (if t \<in> set (tids_of (p_threads p)) then threads_get (p_threads (f p)) t else thread_of k t)"
proof -
  obtain us vs where sp: "k_processes k = us @ p # vs"
    "update_first (\<lambda>r. p_pid r = q) f (k_processes k) = us @ f p # vs"
    using update_first_split[of _ _ _ f, OF p[unfolded get_process_def]] by blast
  have ht: "has_tid t (f p) = has_tid t p" using f by (simp add: has_tid_iff)
  have us: "find (has_tid t) us = None" if "t \<in> set (tids_of (p_threads p))"
    using table_ok_tids[OF ok] that sp(1) by (auto simp: find_None_iff_all has_tid_iff)
  show ?thesis
    using sp us ht
    by (cases "find (has_tid t) us")
      (auto simp: thread_of_def get_by_tid_def modify_process_def find_append has_tid_iff[symmetric])
qed

lemma thread_of_write_back:
  assumes ok: "table_ok k" and p: "get_by_tid k u = Some p"
    and r: "process_ident r = process_ident p"
  shows "thread_of (modify_by_tid u (\<lambda>_. r) k) t =
    (if t \<in> set (tids_of (p_threads p)) then threads_get (p_threads r) t else thread_of k t)"
proof -
  have q: "get_process k (p_pid p) = Some p"
    using get_process_iff[OF ok] get_by_tid_SomeD[OF p] by blast
  have "tids_of (p_threads r) = tids_of (p_threads p)" using arg_cong[OF r, of ident_tids] by simp
  then show ?thesis
    using thread_of_modify_process[OF ok q, of "\<lambda>_. r" t] modify_by_tid_process[OF ok p] by simp
qed

section \<open>What the process operations leave alone\<close>

lemma modify_thread_selectors [simp]:
  "p_pid (modify_thread t f p) = p_pid p"
  "p_parent_pid (modify_thread t f p) = p_parent_pid p"
  "p_process_group_id (modify_thread t f p) = p_process_group_id p"
  "p_session_id (modify_thread t f p) = p_session_id p"
  "p_name (modify_thread t f p) = p_name p"
  "p_program_path (modify_thread t f p) = p_program_path p"
  "p_kind (modify_thread t f p) = p_kind p"
  "p_credentials (modify_thread t f p) = p_credentials p"
  "p_arg (modify_thread t f p) = p_arg p"
  "p_cwd (modify_thread t f p) = p_cwd p"
  "p_job_mode (modify_thread t f p) = p_job_mode p"
  "p_address_space (modify_thread t f p) = p_address_space p"
  "p_file_handles (modify_thread t f p) = p_file_handles p"
  "p_exit_status (modify_thread t f p) = p_exit_status p"
  "p_waiting_for (modify_thread t f p) = p_waiting_for p"
  "p_sleeping_until_tick (modify_thread t f p) = p_sleeping_until_tick p"
  "p_pending_signals (modify_thread t f p) = p_pending_signals p"
  "p_blocked_signals (modify_thread t f p) = p_blocked_signals p"
  "p_sigterm_disposition (modify_thread t f p) = p_sigterm_disposition p"
  "p_state (modify_thread t f p) = p_state p"
  "main_tid (modify_thread t f p) = main_tid p"
  by (simp_all add: modify_thread_def)

lemma modify_main_selectors [simp]:
  "p_pid (modify_main f p) = p_pid p"
  "p_parent_pid (modify_main f p) = p_parent_pid p"
  "p_process_group_id (modify_main f p) = p_process_group_id p"
  "p_session_id (modify_main f p) = p_session_id p"
  "p_name (modify_main f p) = p_name p"
  "p_program_path (modify_main f p) = p_program_path p"
  "p_kind (modify_main f p) = p_kind p"
  "p_credentials (modify_main f p) = p_credentials p"
  "p_arg (modify_main f p) = p_arg p"
  "p_cwd (modify_main f p) = p_cwd p"
  "p_job_mode (modify_main f p) = p_job_mode p"
  "p_address_space (modify_main f p) = p_address_space p"
  "p_file_handles (modify_main f p) = p_file_handles p"
  "p_exit_status (modify_main f p) = p_exit_status p"
  "p_waiting_for (modify_main f p) = p_waiting_for p"
  "p_sleeping_until_tick (modify_main f p) = p_sleeping_until_tick p"
  "p_pending_signals (modify_main f p) = p_pending_signals p"
  "p_blocked_signals (modify_main f p) = p_blocked_signals p"
  "p_sigterm_disposition (modify_main f p) = p_sigterm_disposition p"
  "p_state (modify_main f p) = p_state p"
  "main_tid (modify_main f p) = main_tid p"
  by (simp_all add: modify_main_def)

lemma modify_all_threads_selectors [simp]:
  "p_pid (modify_all_threads f p) = p_pid p"
  "p_parent_pid (modify_all_threads f p) = p_parent_pid p"
  "p_process_group_id (modify_all_threads f p) = p_process_group_id p"
  "p_session_id (modify_all_threads f p) = p_session_id p"
  "p_name (modify_all_threads f p) = p_name p"
  "p_program_path (modify_all_threads f p) = p_program_path p"
  "p_kind (modify_all_threads f p) = p_kind p"
  "p_credentials (modify_all_threads f p) = p_credentials p"
  "p_arg (modify_all_threads f p) = p_arg p"
  "p_cwd (modify_all_threads f p) = p_cwd p"
  "p_job_mode (modify_all_threads f p) = p_job_mode p"
  "p_address_space (modify_all_threads f p) = p_address_space p"
  "p_file_handles (modify_all_threads f p) = p_file_handles p"
  "p_exit_status (modify_all_threads f p) = p_exit_status p"
  "p_waiting_for (modify_all_threads f p) = p_waiting_for p"
  "p_sleeping_until_tick (modify_all_threads f p) = p_sleeping_until_tick p"
  "p_pending_signals (modify_all_threads f p) = p_pending_signals p"
  "p_blocked_signals (modify_all_threads f p) = p_blocked_signals p"
  "p_sigterm_disposition (modify_all_threads f p) = p_sigterm_disposition p"
  "p_state (modify_all_threads f p) = p_state p"
  "main_tid (modify_all_threads f p) = main_tid p"
  by (simp_all add: modify_all_threads_def)

lemma set_state_selectors [simp]:
  "p_pid (set_state s p) = p_pid p"
  "p_parent_pid (set_state s p) = p_parent_pid p"
  "p_process_group_id (set_state s p) = p_process_group_id p"
  "p_session_id (set_state s p) = p_session_id p"
  "p_name (set_state s p) = p_name p"
  "p_program_path (set_state s p) = p_program_path p"
  "p_kind (set_state s p) = p_kind p"
  "p_credentials (set_state s p) = p_credentials p"
  "p_arg (set_state s p) = p_arg p"
  "p_cwd (set_state s p) = p_cwd p"
  "p_job_mode (set_state s p) = p_job_mode p"
  "p_address_space (set_state s p) = p_address_space p"
  "p_file_handles (set_state s p) = p_file_handles p"
  "p_exit_status (set_state s p) = p_exit_status p"
  "p_waiting_for (set_state s p) = p_waiting_for p"
  "p_sleeping_until_tick (set_state s p) = p_sleeping_until_tick p"
  "p_pending_signals (set_state s p) = p_pending_signals p"
  "p_blocked_signals (set_state s p) = p_blocked_signals p"
  "p_sigterm_disposition (set_state s p) = p_sigterm_disposition p"
  "main_tid (set_state s p) = main_tid p"
  by (simp_all add: set_state_def Let_def)

lemma refresh_selectors [simp]:
  "p_pid (refresh_state_from_threads p) = p_pid p"
  "p_parent_pid (refresh_state_from_threads p) = p_parent_pid p"
  "p_process_group_id (refresh_state_from_threads p) = p_process_group_id p"
  "p_session_id (refresh_state_from_threads p) = p_session_id p"
  "p_name (refresh_state_from_threads p) = p_name p"
  "p_program_path (refresh_state_from_threads p) = p_program_path p"
  "p_kind (refresh_state_from_threads p) = p_kind p"
  "p_credentials (refresh_state_from_threads p) = p_credentials p"
  "p_arg (refresh_state_from_threads p) = p_arg p"
  "p_cwd (refresh_state_from_threads p) = p_cwd p"
  "p_job_mode (refresh_state_from_threads p) = p_job_mode p"
  "p_address_space (refresh_state_from_threads p) = p_address_space p"
  "p_file_handles (refresh_state_from_threads p) = p_file_handles p"
  "p_exit_status (refresh_state_from_threads p) = p_exit_status p"
  "p_waiting_for (refresh_state_from_threads p) = p_waiting_for p"
  "p_sleeping_until_tick (refresh_state_from_threads p) = p_sleeping_until_tick p"
  "p_pending_signals (refresh_state_from_threads p) = p_pending_signals p"
  "p_blocked_signals (refresh_state_from_threads p) = p_blocked_signals p"
  "p_sigterm_disposition (refresh_state_from_threads p) = p_sigterm_disposition p"
  "main_tid (refresh_state_from_threads p) = main_tid p"
  by (simp_all add: refresh_state_from_threads_def)

lemma p_state_set_state [simp]: "p_state (set_state s p) = s"
  by (simp add: set_state_def Let_def)

lemma threads_main_modify_main [simp]:
  "(\<And>t. t_tid (f t) = t_tid t) \<Longrightarrow>
   threads_main (p_threads (modify_main f p)) = map_option f (threads_main (p_threads p))"
  by (simp add: threads_main_def modify_main_def modify_thread_def thread_items.get_modify)

lemma threads_main_set_state:
  "threads_main (p_threads (set_state s p)) =
   map_option (\<lambda>t. if terminal s
     then t\<lparr>t_state := thread_state_for_process s, t_resume_context := None, t_last_started_tick := None\<rparr>
     else t\<lparr>t_state := thread_state_for_process s\<rparr>) (threads_main (p_threads p))"
proof (cases "terminal s")
  case True
  let ?f = "\<lambda>t :: thread. t\<lparr>t_state := thread_state_for_process s, t_resume_context := None, t_last_started_tick := None\<rparr>"
  have "threads_get (p_threads (modify_all_threads ?f (p\<lparr>p_state := s\<rparr>))) (main_tid p) =
      map_option ?f (threads_get (p_threads p) (main_tid p))"
    by (subst threads_get_modify_all) simp_all
  with True show ?thesis by (simp add: threads_main_def set_state_def Let_def)
qed (simp add: set_state_def Let_def)

lemma t_tid_updates [simp]:
  "t_tid (stop_thread_run now t) = t_tid t" "t_tid (start_thread_run now t) = t_tid t"
  "t_tid (set_resume_rax v t) = t_tid t"
  by (simp_all add: stop_thread_run_def start_thread_run_def set_resume_rax_def split: option.split)

lemma resume_context_updates [simp]:
  "t_resume_context (stop_thread_run now t) = t_resume_context t"
  "t_resume_context (start_thread_run now t) = t_resume_context t"
  "t_resume_context (set_resume_rax v t) = map_option (\<lambda>c. c\<lparr>c_rax := v\<rparr>) (t_resume_context t)"
  by (simp_all add: stop_thread_run_def start_thread_run_def set_resume_rax_def split: option.split)

lemma get_process_fields [simp]:
  "get_process (k\<lparr>k_ready_queue := a\<rparr>) q = get_process k q"
  "get_process (k\<lparr>k_next_pid := b\<rparr>) q = get_process k q"
  "get_process (k\<lparr>k_next_tid := c\<rparr>) q = get_process k q"
  "get_process (k\<lparr>k_cur_pid := d\<rparr>) q = get_process k q"
  "get_process (k\<lparr>k_cur_tid := e\<rparr>) q = get_process k q"
  "get_process (k\<lparr>k_preempt_pending := f\<rparr>) q = get_process k q"
  "get_process (k\<lparr>k_user_context_switches := g\<rparr>) q = get_process k q"
  "get_process (k\<lparr>k_ready_queue_skips := h\<rparr>) q = get_process k q"
  "get_process (k\<lparr>k_mm := i\<rparr>) q = get_process k q"
  by (simp_all add: get_process_def)

lemma get_process_enqueue [simp]: "get_process (enqueue_ready t k) q = get_process k q"
  by (simp add: enqueue_ready_def)

lemma get_process_remove_queue [simp]: "get_process (remove_from_ready_queue p k) q = get_process k q"
  by (simp add: remove_from_ready_queue_def Let_def)

lemma get_process_stop [simp]:
  "get_process (stop_process_run now p k) q =
   (if q = p then map_option (modify_main (stop_thread_run now)) (get_process k p) else get_process k q)"
  by (simp add: stop_process_run_def process_items.get_modify)

lemma get_process_start [simp]:
  "get_process (start_process_run now p k) q =
   (if q = p then map_option (\<lambda>r. modify_main (start_thread_run now) (set_state PRunning r)) (get_process k p)
    else get_process k q)"
  by (simp add: start_process_run_def process_items.get_modify split: option.split)

lemmas get_modify = process_items.get_modify

end
