(* ===== verification/Ipc.thy ===== *)
theory Ipc
  imports Bounded_Fifo Process_Types
begin

text \<open>
  The inter-process communication objects of \<^verbatim>\<open>kernel/src/user/syscall.rs\<close>: pipes, events and message
  queues, with their fixed arrays.  Pipes and message queues meet the contract of a bounded queue
  (\<open>bounded_fifo\<close>); the wait queue of an event is a duplicate-free list.
\<close>

section \<open>Errors of system calls\<close>

datatype syscall_error = EUnknownSyscall | EInvalidArgument | ENotImplemented | ENoSuchProcess
  | ENotChild | EWouldBlock | EPermissionDenied

text \<open>The discriminants, as \<^verbatim>\<open>err as i64 as u64\<close>.\<close>

fun error_code :: "syscall_error \<Rightarrow> u64" where
  "error_code EUnknownSyscall = - 1"
| "error_code EInvalidArgument = - 2"
| "error_code ENotImplemented = - 3"
| "error_code ENoSuchProcess = - 4"
| "error_code ENotChild = - 5"
| "error_code EWouldBlock = - 6"
| "error_code EPermissionDenied = - 7"

section \<open>Pipes\<close>

definition PIPE_CAPACITY :: nat where
  "PIPE_CAPACITY = 256"

record pipe =
  pi_id :: u64
  pi_owner_pid :: pid
  pi_bytes :: bytes
  pi_read_index :: nat
  pi_len :: nat
  pi_readers :: u8
  pi_writers :: u8

definition pipe_new :: "u64 \<Rightarrow> pid \<Rightarrow> pipe" where
  "pipe_new i owner = \<lparr>pi_id = i, pi_owner_pid = owner, pi_bytes = replicate PIPE_CAPACITY 0,
     pi_read_index = 0, pi_len = 0, pi_readers = 1, pi_writers = 1\<rparr>"

text \<open>The bodies of the two copy loops.\<close>

definition pipe_put :: "u8 \<Rightarrow> pipe \<Rightarrow> pipe" where
  "pipe_put byte p =
     (let write_index = (pi_read_index p + pi_len p) mod PIPE_CAPACITY
      in p\<lparr>pi_bytes := (pi_bytes p)[write_index := byte], pi_len := pi_len p + 1\<rparr>)"

definition pipe_get :: "pipe \<Rightarrow> u8 \<times> pipe" where
  "pipe_get p =
     (pi_bytes p ! pi_read_index p,
      p\<lparr>pi_read_index := (pi_read_index p + 1) mod PIPE_CAPACITY, pi_len := pi_len p - 1\<rparr>)"

definition pipe_write :: "bytes \<Rightarrow> pipe \<Rightarrow> (syscall_error + nat) \<times> pipe" where
  "pipe_write source p =
     (if pi_readers p = 0 then (Inl EInvalidArgument, p)
      else if pi_len p = PIPE_CAPACITY then (Inl EWouldBlock, p)
      else let count = min (length source) (PIPE_CAPACITY - pi_len p)
           in (Inr count, fold pipe_put (take count source) p))"

text \<open>The bytes are those stored at the front of the \<open>n\<close> bytes of the destination.\<close>

definition pipe_read :: "nat \<Rightarrow> pipe \<Rightarrow> (syscall_error + bytes) \<times> pipe" where
  "pipe_read n p =
     (if pi_len p = 0 then (if pi_writers p = 0 then (Inr [], p) else (Inl EWouldBlock, p))
      else let count = min n (pi_len p); (bs, p) = drain pipe_get count p in (Inr bs, p))"

definition pipe_contents :: "pipe \<Rightarrow> bytes" where
  "pipe_contents p = ring_contents (pi_bytes p) (pi_read_index p) (pi_len p)"

definition pipe_ok :: "pipe \<Rightarrow> bool" where
  "pipe_ok p \<longleftrightarrow> length (pi_bytes p) = PIPE_CAPACITY \<and> pi_read_index p < PIPE_CAPACITY \<and>
     pi_len p \<le> PIPE_CAPACITY"

section \<open>Events\<close>

abbreviation MAX_EVENT_WAITERS :: nat where
  "MAX_EVENT_WAITERS \<equiv> MAX_THREADS_PER_PROCESS"

record event =
  ev_id :: u64
  ev_owner_pid :: pid
  ev_signaled :: bool
  ev_waiters :: "tid option list"
  ev_waiter_count :: nat

definition event_new :: "u64 \<Rightarrow> pid \<Rightarrow> event" where
  "event_new i owner = \<lparr>ev_id = i, ev_owner_pid = owner, ev_signaled = False,
     ev_waiters = replicate MAX_EVENT_WAITERS None, ev_waiter_count = 0\<rparr>"

definition event_enqueue :: "tid \<Rightarrow> event \<Rightarrow> bool \<times> event" where
  "event_enqueue t e =
     (if ev_waiter_count e = length (ev_waiters e) \<or>
         Some t \<in> set (take (ev_waiter_count e) (ev_waiters e)) then (False, e)
      else (True, e\<lparr>ev_waiters := (ev_waiters e)[ev_waiter_count e := Some t],
                    ev_waiter_count := ev_waiter_count e + 1\<rparr>))"

text \<open>The tail of \<^verbatim>\<open>dequeue\<close> and \<^verbatim>\<open>remove\<close>: close the gap in front of \<open>from\<close>.\<close>

definition close_gap :: "nat \<Rightarrow> event \<Rightarrow> event" where
  "close_gap from e =
     (let n = ev_waiter_count e - 1
      in e\<lparr>ev_waiters := (shift_down from (ev_waiter_count e) (ev_waiters e))[n := None],
           ev_waiter_count := n\<rparr>)"

definition event_dequeue :: "event \<Rightarrow> tid option \<times> event" where
  "event_dequeue e =
     (case ev_waiters e ! 0 of None \<Rightarrow> (None, e) | Some t \<Rightarrow> (Some t, close_gap 1 e))"

definition event_remove :: "tid \<Rightarrow> event \<Rightarrow> event" where
  "event_remove t e =
     (case position (\<lambda>w. w = Some t) (take (ev_waiter_count e) (ev_waiters e)) of
        None \<Rightarrow> e
      | Some i \<Rightarrow> close_gap (i + 1) e)"

definition event_queue :: "event \<Rightarrow> tid list" where
  "event_queue e = map the (take (ev_waiter_count e) (ev_waiters e))"

definition event_ok :: "event \<Rightarrow> bool" where
  "event_ok e \<longleftrightarrow> length (ev_waiters e) = MAX_EVENT_WAITERS \<and> ev_waiter_count e \<le> MAX_EVENT_WAITERS \<and>
     ev_waiters e = map Some (event_queue e) @ replicate (MAX_EVENT_WAITERS - ev_waiter_count e) None \<and>
     distinct (event_queue e)"

section \<open>Message queues\<close>

definition MESSAGE_QUEUE_DEPTH :: nat where
  "MESSAGE_QUEUE_DEPTH = 8"

definition MAX_MESSAGE_SIZE :: nat where
  "MAX_MESSAGE_SIZE = 64"

record message =
  m_bytes :: bytes
  m_len :: nat

definition message_EMPTY :: message where
  "message_EMPTY = \<lparr>m_bytes = replicate MAX_MESSAGE_SIZE 0, m_len = 0\<rparr>"

record message_queue =
  q_id :: u64
  q_owner_pid :: pid
  q_messages :: "message list"
  q_read_index :: nat
  q_len :: nat

definition queue_new :: "u64 \<Rightarrow> pid \<Rightarrow> message_queue" where
  "queue_new i owner = \<lparr>q_id = i, q_owner_pid = owner,
     q_messages = replicate MESSAGE_QUEUE_DEPTH message_EMPTY, q_read_index = 0, q_len = 0\<rparr>"

text \<open>Storing one message behind the last one, and taking the first.\<close>

definition queue_put :: "bytes \<Rightarrow> message_queue \<Rightarrow> message_queue" where
  "queue_put source q =
     (let index = (q_read_index q + q_len q) mod MESSAGE_QUEUE_DEPTH;
          m = q_messages q ! index
      in q\<lparr>q_messages := (q_messages q)
             [index := m\<lparr>m_bytes := splice 0 source (m_bytes m), m_len := length source\<rparr>],
           q_len := q_len q + 1\<rparr>)"

definition queue_get :: "message_queue \<Rightarrow> bytes \<times> message_queue" where
  "queue_get q =
     (let m = q_messages q ! q_read_index q
      in (take (m_len m) (m_bytes m),
          q\<lparr>q_messages := (q_messages q)[q_read_index q := message_EMPTY],
            q_read_index := (q_read_index q + 1) mod MESSAGE_QUEUE_DEPTH, q_len := q_len q - 1\<rparr>))"

definition queue_send :: "bytes \<Rightarrow> message_queue \<Rightarrow> (syscall_error + nat) \<times> message_queue" where
  "queue_send source q =
     (if source = [] \<or> MAX_MESSAGE_SIZE < length source then (Inl EInvalidArgument, q)
      else if q_len q = MESSAGE_QUEUE_DEPTH then (Inl EWouldBlock, q)
      else (Inr (length source), queue_put source q))"

definition queue_receive :: "nat \<Rightarrow> message_queue \<Rightarrow> (syscall_error + bytes) \<times> message_queue" where
  "queue_receive n q =
     (if q_len q = 0 then (Inl EWouldBlock, q)
      else if n < m_len (q_messages q ! q_read_index q) then (Inl EInvalidArgument, q)
      else let (bs, q) = queue_get q in (Inr bs, q))"

definition message_text :: "message \<Rightarrow> bytes" where
  "message_text m = take (m_len m) (m_bytes m)"

definition queue_contents :: "message_queue \<Rightarrow> bytes list" where
  "queue_contents q = map message_text (ring_contents (q_messages q) (q_read_index q) (q_len q))"

definition message_fits :: "bytes \<Rightarrow> bool" where
  "message_fits x \<longleftrightarrow> x \<noteq> [] \<and> length x \<le> MAX_MESSAGE_SIZE"

definition queue_ok :: "message_queue \<Rightarrow> bool" where
  "queue_ok q \<longleftrightarrow> length (q_messages q) = MESSAGE_QUEUE_DEPTH \<and> q_read_index q < MESSAGE_QUEUE_DEPTH \<and>
     q_len q \<le> MESSAGE_QUEUE_DEPTH \<and>
     (\<forall>m\<in>set (q_messages q). length (m_bytes m) = MAX_MESSAGE_SIZE \<and> m_len m \<le> MAX_MESSAGE_SIZE)"

section \<open>Pipes and message queues are bounded queues\<close>

lemma pipe_new_ok [simp]: "pipe_ok (pipe_new i owner)" "pipe_contents (pipe_new i owner) = []"
  by (simp_all add: pipe_ok_def pipe_contents_def pipe_new_def PIPE_CAPACITY_def)

lemma length_pipe_contents [simp]: "length (pipe_contents p) = pi_len p"
  by (simp add: pipe_contents_def)

interpretation pipe_fifo: bounded_fifo pipe_ok "\<lambda>_. True" pipe_contents PIPE_CAPACITY pipe_put pipe_get
proof (unfold_locales, goal_cases)
  case (1 p x)
  then show ?case by (simp add: pipe_ok_def pipe_put_def Let_def)
next
  case (2 p x)
  then have "pi_len p < length (pi_bytes p)" "length (pi_bytes p) = PIPE_CAPACITY"
    by (simp_all add: pipe_ok_def)
  from ring_put[OF this(1), of "pi_read_index p" x] this(2) show ?case
    by (simp add: pipe_contents_def pipe_put_def Let_def)
next
  case (3 p)
  then show ?case by (auto simp: pipe_ok_def pipe_get_def PIPE_CAPACITY_def)
next
  case (4 p)
  then have "0 < pi_len p" "pi_read_index p < length (pi_bytes p)" "length (pi_bytes p) = PIPE_CAPACITY"
    by (simp_all add: pipe_ok_def pipe_contents_def)
  from ring_get[OF this(1,2)] this(3) show ?case by (simp add: pipe_contents_def pipe_get_def)
qed

lemma queue_new_ok [simp]: "queue_ok (queue_new i owner)" "queue_contents (queue_new i owner) = []"
  by (simp_all add: queue_ok_def queue_contents_def queue_new_def message_EMPTY_def MESSAGE_QUEUE_DEPTH_def)

lemma length_queue_contents [simp]: "length (queue_contents q) = q_len q"
  by (simp add: queue_contents_def)

lemma queue_contents_empty [simp]: "queue_contents q = [] \<longleftrightarrow> q_len q = 0"
  using length_queue_contents[of q] by (metis length_0_conv)

lemma message_text_splice:
  "length x \<le> length (m_bytes m) \<Longrightarrow> message_text (m\<lparr>m_bytes := splice 0 x (m_bytes m), m_len := length x\<rparr>) = x"
  by (simp add: message_text_def splice_def)

lemma queue_put_ok:
  assumes "queue_ok q" and "message_fits x" and "q_len q < MESSAGE_QUEUE_DEPTH"
  shows "queue_ok (queue_put x q)" "queue_contents (queue_put x q) = queue_contents q @ [x]"
proof -
  let ?i = "(q_read_index q + q_len q) mod length (q_messages q)"
  have n: "q_len q < length (q_messages q)" "length (q_messages q) = MESSAGE_QUEUE_DEPTH"
    using assms by (simp_all add: queue_ok_def)
  then have i: "q_messages q ! ?i \<in> set (q_messages q)" by (intro nth_mem mod_less_divisor) linarith
  then have l: "length x \<le> length (m_bytes (q_messages q ! ?i))"
    using assms by (auto simp: queue_ok_def message_fits_def)
  show "queue_ok (queue_put x q)"
    using assms i l n by (auto simp: queue_ok_def queue_put_def Let_def message_fits_def dest!: set_update_subset_insert[THEN subsetD])
  show "queue_contents (queue_put x q) = queue_contents q @ [x]"
    using ring_put[OF n(1)] message_text_splice[OF l] n(2)
    by (simp add: queue_contents_def queue_put_def Let_def)
qed

lemma queue_get_ok:
  assumes "queue_ok q" and "0 < q_len q"
  shows "queue_ok (snd (queue_get q))" "queue_contents q = fst (queue_get q) # queue_contents (snd (queue_get q))"
proof -
  have n: "q_len q \<le> length (q_messages q)" "length (q_messages q) = MESSAGE_QUEUE_DEPTH"
    "q_read_index q < length (q_messages q)"
    using assms by (simp_all add: queue_ok_def)
  show "queue_ok (snd (queue_get q))"
    using assms by (auto simp: queue_ok_def queue_get_def Let_def message_EMPTY_def MESSAGE_QUEUE_DEPTH_def
        dest!: set_update_subset_insert[THEN subsetD])
  show "queue_contents q = fst (queue_get q) # queue_contents (snd (queue_get q))"
    using ring_get[OF assms(2) n(3)] ring_contents_update_outside[OF n(3,1) assms(2), of message_EMPTY] n(2)
    by (simp add: queue_contents_def queue_get_def Let_def message_text_def)
qed

interpretation message_fifo: bounded_fifo queue_ok message_fits queue_contents MESSAGE_QUEUE_DEPTH queue_put queue_get
  by unfold_locales (simp_all add: queue_put_ok queue_get_ok)

section \<open>Streams\<close>

text \<open>A history of calls on one pipe: what the writers were told was accepted and what the readers
  were given.\<close>

datatype pipe_call = PWrite bytes | PRead nat

fun pipe_run :: "pipe_call list \<Rightarrow> pipe \<Rightarrow> bytes \<times> bytes \<times> pipe" where
  "pipe_run [] p = ([], [], p)"
| "pipe_run (PWrite bs # cs) p =
     (let (r, p) = pipe_write bs p; (sent, got, p) = pipe_run cs p
      in ((case r of Inl _ \<Rightarrow> [] | Inr n \<Rightarrow> take n bs) @ sent, got, p))"
| "pipe_run (PRead n # cs) p =
     (let (r, p) = pipe_read n p; (sent, got, p) = pipe_run cs p
      in (sent, (case r of Inl _ \<Rightarrow> [] | Inr bs \<Rightarrow> bs) @ got, p))"

lemma pipe_write_stream:
  assumes "pipe_ok p" and "pipe_write bs p = (r, p')"
  shows "pipe_ok p'" "pipe_contents p @ (case r of Inl _ \<Rightarrow> [] | Inr n \<Rightarrow> take n bs) = pipe_contents p'"
proof -
  let ?c = "min (length bs) (PIPE_CAPACITY - pi_len p)"
  have "pi_len p + length (take ?c bs) \<le> PIPE_CAPACITY" using assms(1) by (auto simp: pipe_ok_def)
  from pipe_fifo.put_all[OF assms(1) _, of "take ?c bs"] this assms(2)
  show "pipe_ok p'" "pipe_contents p @ (case r of Inl _ \<Rightarrow> [] | Inr n \<Rightarrow> take n bs) = pipe_contents p'"
    using assms(1) by (auto simp: pipe_write_def Let_def list_all_iff split: if_splits)
qed

lemma pipe_read_stream:
  assumes "pipe_ok p" and "pipe_read n p = (r, p')"
  shows "pipe_ok p'" "pipe_contents p = (case r of Inl _ \<Rightarrow> [] | Inr bs \<Rightarrow> bs) @ pipe_contents p'"
  using assms pipe_fifo.drain_all[OF assms(1), of "min n (pi_len p)"]
  by (auto simp: pipe_read_def Let_def case_prod_beta split: if_splits)

text \<open>
  C22: a pipe is a reliable byte stream.  Over any history of writes and reads, partial and refused
  ones included, what was buffered followed by the bytes accepted from the writers is the bytes
  given to the readers followed by what is still buffered; at most 256 bytes are ever buffered.
\<close>

theorem pipe_stream:
  assumes "pipe_ok p" and "pipe_run cs p = (sent, got, p')"
  shows "pipe_contents p @ sent = got @ pipe_contents p' \<and> length (pipe_contents p') \<le> 256"
proof -
  have "pipe_contents p @ sent = got @ pipe_contents p' \<and> pipe_ok p'"
    using assms
  proof (induction cs arbitrary: p sent got)
    case (Cons c cs)
    show ?case
    proof (cases c)
      case (PWrite bs)
      obtain r q where w: "pipe_write bs p = (r, q)" by (cases "pipe_write bs p")
      obtain s g q' where run: "pipe_run cs q = (s, g, q')" by (cases "pipe_run cs q")
      note o = pipe_write_stream[OF Cons.prems(1) w]
      have "q' = p'" using Cons.prems(2) w run PWrite by simp
      with Cons.IH[OF o(1)] run Cons.prems(2) w o(2) PWrite show ?thesis
        by (auto simp flip: append_assoc)
    next
      case (PRead n)
      obtain r q where w: "pipe_read n p = (r, q)" by (cases "pipe_read n p")
      obtain s g q' where run: "pipe_run cs q = (s, g, q')" by (cases "pipe_run cs q")
      note o = pipe_read_stream[OF Cons.prems(1) w]
      have "q' = p'" using Cons.prems(2) w run PRead by simp
      with Cons.IH[OF o(1)] run Cons.prems(2) w o(2) PRead show ?thesis by auto
    qed
  qed simp
  then show ?thesis by (simp add: pipe_ok_def PIPE_CAPACITY_def)
qed

theorem pipe_stream_witness:
  "\<exists>sent got p'. pipe_run [PWrite [1, 2, 3], PRead 2, PWrite [4], PRead 9, PRead 1] (pipe_new 1 2) = (sent, got, p') \<and>
     sent = [1, 2, 3, 4] \<and> got = [1, 2, 3, 4] \<and> pipe_contents p' = [] \<and> sent = got @ pipe_contents p'"
proof -
  let ?r = "pipe_run [PWrite [1, 2, 3], PRead 2, PWrite [4], PRead 9, PRead 1] (pipe_new 1 2)"
  have r: "fst ?r = [1, 2, 3, 4]" "fst (snd ?r) = [1, 2, 3, 4]" by code_simp+
  then have "?r = ([1, 2, 3, 4], [1, 2, 3, 4], snd (snd ?r))" by (simp add: prod_eq_iff)
  from pipe_stream[OF pipe_new_ok(1) this] this show ?thesis by auto
qed

text \<open>The same for whole messages; a message too long for the reader's buffer stays first.\<close>

datatype queue_call = QSend bytes | QReceive nat

fun queue_run :: "queue_call list \<Rightarrow> message_queue \<Rightarrow> bytes list \<times> bytes list \<times> message_queue" where
  "queue_run [] q = ([], [], q)"
| "queue_run (QSend bs # cs) q =
     (let (r, q) = queue_send bs q; (sent, got, q) = queue_run cs q
      in ((case r of Inl _ \<Rightarrow> [] | Inr n \<Rightarrow> [bs]) @ sent, got, q))"
| "queue_run (QReceive n # cs) q =
     (let (r, q) = queue_receive n q; (sent, got, q) = queue_run cs q
      in (sent, (case r of Inl _ \<Rightarrow> [] | Inr bs \<Rightarrow> [bs]) @ got, q))"

lemma queue_send_stream:
  assumes "queue_ok q" and "queue_send bs q = (r, q')"
  shows "queue_ok q'" "queue_contents q @ (case r of Inl _ \<Rightarrow> [] | Inr n \<Rightarrow> [bs]) = queue_contents q'"
proof -
  have "message_fits bs \<and> q_len q < MESSAGE_QUEUE_DEPTH" if "\<exists>n. r = Inr n"
    using assms that by (auto simp: queue_send_def message_fits_def queue_ok_def split: if_splits)
  with assms queue_put_ok[OF assms(1), of bs]
  show "queue_ok q'" "queue_contents q @ (case r of Inl _ \<Rightarrow> [] | Inr n \<Rightarrow> [bs]) = queue_contents q'"
    by (auto simp: queue_send_def split: if_splits)
qed

lemma queue_receive_stream:
  assumes "queue_ok q" and "queue_receive n q = (r, q')"
  shows "queue_ok q'" "queue_contents q = (case r of Inl _ \<Rightarrow> [] | Inr bs \<Rightarrow> [bs]) @ queue_contents q'"
  using assms queue_get_ok[OF assms(1)]
  by (auto simp: queue_receive_def case_prod_beta split: if_splits)

text \<open>
  C23: a message queue delivers whole messages in the order they were accepted, each once and
  unchanged, over any history of sends and receives; at most 8 messages are ever queued.
\<close>

theorem queue_stream:
  assumes "queue_ok q" and "queue_run cs q = (sent, got, q')"
  shows "queue_contents q @ sent = got @ queue_contents q' \<and> length (queue_contents q') \<le> 8"
proof -
  have "queue_contents q @ sent = got @ queue_contents q' \<and> queue_ok q'"
    using assms
  proof (induction cs arbitrary: q sent got)
    case (Cons c cs)
    show ?case
    proof (cases c)
      case (QSend bs)
      obtain r m where w: "queue_send bs q = (r, m)" by (cases "queue_send bs q")
      obtain s g m' where run: "queue_run cs m = (s, g, m')" by (cases "queue_run cs m")
      note o = queue_send_stream[OF Cons.prems(1) w]
      have "m' = q'" using Cons.prems(2) w run QSend by simp
      with Cons.IH[OF o(1)] run Cons.prems(2) w o(2) QSend show ?thesis
        by (auto simp flip: append_assoc)
    next
      case (QReceive n)
      obtain r m where w: "queue_receive n q = (r, m)" by (cases "queue_receive n q")
      obtain s g m' where run: "queue_run cs m = (s, g, m')" by (cases "queue_run cs m")
      note o = queue_receive_stream[OF Cons.prems(1) w]
      have "m' = q'" using Cons.prems(2) w run QReceive by simp
      with Cons.IH[OF o(1)] run Cons.prems(2) w o(2) QReceive show ?thesis by auto
    qed
  qed simp
  then show ?thesis by (simp add: queue_ok_def MESSAGE_QUEUE_DEPTH_def)
qed

theorem queue_stream_witness:
  "\<exists>sent got q'. queue_run [QSend [7, 8], QSend [9], QReceive 1, QReceive 2, QSend []] (queue_new 1 2) = (sent, got, q') \<and>
     sent = [[7, 8], [9]] \<and> got = [[7, 8]] \<and> queue_contents q' = [[9]]"
proof -
  let ?r = "queue_run [QSend [7, 8], QSend [9], QReceive 1, QReceive 2, QSend []] (queue_new 1 2)"
  have r: "fst ?r = [[7, 8], [9]]" "fst (snd ?r) = [[7, 8]]" by code_simp+
  then have "?r = ([[7, 8], [9]], [[7, 8]], snd (snd ?r))" by (simp add: prod_eq_iff)
  from queue_stream[OF queue_new_ok(1) this] this show ?thesis by auto
qed

section \<open>The wait queue of an event\<close>

lemma event_new_ok [simp]: "event_ok (event_new i owner)" "event_queue (event_new i owner) = []"
  by (simp_all add: event_ok_def event_queue_def event_new_def)

lemma length_event_queue: "event_ok e \<Longrightarrow> length (event_queue e) = ev_waiter_count e"
  by (simp add: event_ok_def event_queue_def)

lemma event_waiters_nth:
  assumes "event_ok e" and "i < MAX_EVENT_WAITERS"
  shows "ev_waiters e ! i = (if i < ev_waiter_count e then Some (event_queue e ! i) else None)"
proof -
  have w: "ev_waiters e = map Some (event_queue e) @ replicate (MAX_EVENT_WAITERS - ev_waiter_count e) None"
    using assms(1) by (simp add: event_ok_def)
  show ?thesis using assms(2) length_event_queue[OF assms(1)] by (subst w) (simp add: nth_append)
qed

lemma take_waiters: "event_ok e \<Longrightarrow> take (ev_waiter_count e) (ev_waiters e) = map Some (event_queue e)"
  using length_event_queue[of e] unfolding event_ok_def
  by (metis append_eq_conv_conj length_map)

lemma event_okI:
  assumes "ev_waiters e = map Some q @ replicate (MAX_EVENT_WAITERS - length q) None"
    and "ev_waiter_count e = length q" and "length q \<le> MAX_EVENT_WAITERS" and "distinct q"
  shows "event_ok e" "event_queue e = q"
proof -
  show q: "event_queue e = q" using assms by (simp add: event_queue_def)
  show "event_ok e" using assms q by (simp add: event_ok_def)
qed

lemma event_enqueue_refines:
  assumes "event_ok e" and "event_enqueue t e = (b, e')"
  shows "event_ok e'" "b \<longleftrightarrow> length (event_queue e) < MAX_EVENT_WAITERS \<and> t \<notin> set (event_queue e)"
    "event_queue e' = (if b then event_queue e @ [t] else event_queue e)"
proof -
  let ?q = "event_queue e" and ?n = "ev_waiter_count e"
  have w: "ev_waiters e = map Some ?q @ replicate (MAX_EVENT_WAITERS - ?n) None"
    and n: "?n \<le> MAX_EVENT_WAITERS" "length (ev_waiters e) = MAX_EVENT_WAITERS" "distinct ?q"
    using assms(1) unfolding event_ok_def by blast+
  note l = length_event_queue[OF assms(1)]
  show b: "b \<longleftrightarrow> length ?q < MAX_EVENT_WAITERS \<and> t \<notin> set ?q"
    using assms(2) n l take_waiters[OF assms(1)] by (auto simp: event_enqueue_def split: if_splits)
  have "event_ok e' \<and> event_queue e' = ?q @ [t]" if b
  proof -
    have e': "e' = e\<lparr>ev_waiters := (ev_waiters e)[?n := Some t], ev_waiter_count := ?n + 1\<rparr>"
      using assms(2) that by (auto simp: event_enqueue_def split: if_splits)
    define m where "m = MAX_EVENT_WAITERS - ?n - 1"
    then have m: "MAX_EVENT_WAITERS - ?n = Suc m" using that b l by linarith
    have "(ev_waiters e)[?n := Some t] = map Some (?q @ [t]) @ replicate m None"
      unfolding w m using l by (simp add: list_update_append)
    moreover have "m = MAX_EVENT_WAITERS - length (?q @ [t])" using m l by simp
    ultimately have c: "ev_waiters e' = map Some (?q @ [t]) @ replicate (MAX_EVENT_WAITERS - length (?q @ [t])) None"
      by (simp add: e')
    have d: "ev_waiter_count e' = length (?q @ [t])" "length (?q @ [t]) \<le> MAX_EVENT_WAITERS" "distinct (?q @ [t])"
      using that b n l by (simp_all add: e')
    show ?thesis using event_okI[OF c d] by blast
  qed
  moreover have "e' = e" if "\<not> b" using assms(2) that by (auto simp: event_enqueue_def split: if_splits)
  ultimately show "event_ok e'" "event_queue e' = (if b then ?q @ [t] else ?q)" using assms(1) by auto
qed

lemma close_gap_refines:
  assumes ok: "event_ok e" and i: "i < ev_waiter_count e"
  shows "event_ok (close_gap (i + 1) e)"
    "event_queue (close_gap (i + 1) e) = take i (event_queue e) @ drop (i + 1) (event_queue e)"
proof -
  let ?q = "event_queue e" and ?n = "ev_waiter_count e"
  let ?r = "take i ?q @ drop (i + 1) ?q"
  note l = length_event_queue[OF ok]
  have n: "?n \<le> MAX_EVENT_WAITERS" "length (ev_waiters e) = MAX_EVENT_WAITERS" "distinct ?q"
    using ok unfolding event_ok_def by blast+
  have w: "(shift_down (i + 1) ?n (ev_waiters e))[?n - 1 := None] = map Some ?r @ replicate (MAX_EVENT_WAITERS - length ?r) None"
  proof (rule nth_equalityI)
    fix j assume j: "j < length ((shift_down (i + 1) ?n (ev_waiters e))[?n - 1 := None])"
    then have s: "shift_down (Suc i) ?n (ev_waiters e) ! j =
        (if i \<le> j \<and> Suc j < ?n then Some (event_queue e ! Suc j)
         else if j < ?n then Some (event_queue e ! j) else None)"
      using n i event_waiters_nth[OF ok, of j] event_waiters_nth[OF ok, of "Suc j"]
      by (subst nth_shift_down) auto
    show "(shift_down (i + 1) ?n (ev_waiters e))[?n - 1 := None] ! j =
        (map Some ?r @ replicate (MAX_EVENT_WAITERS - length ?r) None) ! j"
      using j i n l by (auto simp: nth_list_update s nth_append min_def)
  qed (use i n l in auto)
  have d: "distinct ?r"
    using n(3) set_take_disj_set_drop_if_distinct[OF n(3), of i "i + 1"] by auto
  have c: "ev_waiters (close_gap (i + 1) e) = map Some ?r @ replicate (MAX_EVENT_WAITERS - length ?r) None"
    "ev_waiter_count (close_gap (i + 1) e) = length ?r" "length ?r \<le> MAX_EVENT_WAITERS"
    using w n(1) l i by (simp_all add: close_gap_def Let_def)
  show "event_ok (close_gap (i + 1) e)" "event_queue (close_gap (i + 1) e) = ?r"
    by (rule event_okI[OF c d])+
qed

lemma event_dequeue_refines:
  assumes "event_ok e"
  shows "event_ok (snd (event_dequeue e))"
    "fst (event_dequeue e) = (case event_queue e of [] \<Rightarrow> None | t # _ \<Rightarrow> Some t)"
    "event_queue (snd (event_dequeue e)) = tl (event_queue e)"
proof -
  have z: "0 < MAX_EVENT_WAITERS" by (simp add: MAX_THREADS_PER_PROCESS_def)
  note w = event_waiters_nth[OF assms z] and l = length_event_queue[OF assms]
  show "event_ok (snd (event_dequeue e))" "fst (event_dequeue e) = (case event_queue e of [] \<Rightarrow> None | t # _ \<Rightarrow> Some t)"
    "event_queue (snd (event_dequeue e)) = tl (event_queue e)"
    using w l assms close_gap_refines[OF assms, of 0]
    by (cases "event_queue e"; simp add: event_dequeue_def)+
qed

lemma position_map_Some:
  "position (\<lambda>w. w = Some t) (map Some q) = position (\<lambda>w. w = t) q"
  by (induction q) auto

lemma remove1_position:
  "remove1 t q = (case position (\<lambda>w. w = t) q of None \<Rightarrow> q | Some i \<Rightarrow> take i q @ drop (i + 1) q)"
  by (induction q) (auto split: option.splits)

lemma event_remove_refines:
  assumes "event_ok e"
  shows "event_ok (event_remove t e)" "event_queue (event_remove t e) = remove1 t (event_queue e)"
proof -
  note l = length_event_queue[OF assms]
  have "i < ev_waiter_count e" if "position (\<lambda>w. w = t) (event_queue e) = Some i" for i
    using position_SomeD[OF that] l by simp
  note g = close_gap_refines[OF assms this]
  show "event_ok (event_remove t e)"
    using assms g(1) by (simp add: event_remove_def take_waiters[OF assms] position_map_Some split: option.split)
  show "event_queue (event_remove t e) = remove1 t (event_queue e)"
    using g(2) by (simp add: event_remove_def take_waiters[OF assms] position_map_Some remove1_position split: option.split)
qed

text \<open>
  C24: the waiter array of an event implements a duplicate-free first-in first-out list of thread
  identifiers: enqueueing appends unless the thread already waits or 16 threads do, dequeueing
  takes the first, and removal deletes the given thread and keeps the order of the others.
\<close>

theorem event_refines_queue:
  assumes "event_ok e"
  shows "event_queue (snd (event_enqueue t e)) =
      (if t \<in> set (event_queue e) \<or> 16 \<le> length (event_queue e) then event_queue e else event_queue e @ [t]) \<and>
    fst (event_enqueue t e) = (t \<notin> set (event_queue e) \<and> length (event_queue e) < 16) \<and>
    fst (event_dequeue e) = (if event_queue e = [] then None else Some (hd (event_queue e))) \<and>
    event_queue (snd (event_dequeue e)) = tl (event_queue e) \<and>
    event_queue (event_remove t e) = remove1 t (event_queue e) \<and>
    event_ok (snd (event_enqueue t e)) \<and> event_ok (snd (event_dequeue e)) \<and> event_ok (event_remove t e)"
proof -
  obtain b e' where q: "event_enqueue t e = (b, e')" by (cases "event_enqueue t e")
  note r = event_enqueue_refines[OF assms q, unfolded MAX_THREADS_PER_PROCESS_def]
  have "fst (event_dequeue e) = (if event_queue e = [] then None else Some (hd (event_queue e)))"
    unfolding event_dequeue_refines(2)[OF assms] by (cases "event_queue e") simp_all
  moreover have "event_queue e' =
      (if t \<in> set (event_queue e) \<or> 16 \<le> length (event_queue e) then event_queue e else event_queue e @ [t])"
    using r(2,3) by (simp add: not_less)
  moreover have "b = (t \<notin> set (event_queue e) \<and> length (event_queue e) < 16)" using r(2) by blast
  ultimately show ?thesis
    using q r(1) event_dequeue_refines(1,3)[OF assms] event_remove_refines[OF assms, of t] by simp
qed

theorem event_refines_queue_witness:
  "event_queue (event_remove 4 (snd (event_enqueue 9 (snd (event_enqueue 4 (event_new 1 2)))))) = [9] \<and>
   fst (event_dequeue (snd (event_enqueue 9 (snd (event_enqueue 4 (event_new 1 2)))))) = Some 4"
proof -
  define e0 e1 e2 where e: "e0 = event_new 1 2" "e1 = snd (event_enqueue 4 e0)" "e2 = snd (event_enqueue 9 e1)"
  have 0: "event_ok e0" "event_queue e0 = []" by (simp_all add: e)
  note 1 = event_refines_queue[OF 0(1), where t = 4, folded e]
  have q1: "event_ok e1" "event_queue e1 = [4]" using 1 0(2) by simp_all
  note 2 = event_refines_queue[OF q1(1), where t = 9, folded e]
  have q2: "event_ok e2" "event_queue e2 = [4, 9]" using 2 q1(2) by simp_all
  from event_refines_queue[OF q2(1), where t = 4] q2(2)
  have "event_queue (event_remove 4 e2) = [9]" "fst (event_dequeue e2) = Some 4" by simp_all
  then show ?thesis unfolding e by blast
qed

end
