(* ===== verification/Fs_Tree.thy ===== *)
theory Fs_Tree
  imports Vfs_Path "HOL-Library.Multiset" "HOL-Library.Sublist"
begin

text \<open>
  What the two writable filesystems (\<^verbatim>\<open>kernel/src/fs/ramfs.rs\<close> and \<^verbatim>\<open>kernel/src/fs/persistent.rs\<close>)
  have in common: a flat vector of nodes that name their parent, path resolution by component
  lookup, and the loop that climbs towards the root before a rename.  The view of a node is its
  inode number, parent, name and kind; the contract \<open>tree_store\<close> says that a store keeps a
  well-formed tree and resolves paths on it, and the effect of insertion, removal and renaming on
  path resolution is proved from it once.
\<close>

section \<open>Types of the file system interface\<close>

datatype file_type = File | Directory

record backend_stat =
  bs_file_type :: file_type
  bs_size :: nat
  bs_readonly :: bool
  bs_inode :: u64

section \<open>Operations\<close>

text \<open>A loop of \<^verbatim>\<open>append_line\<close> over names: it stops at the first error, with the lines before in the buffer.\<close>

fun append_lines :: "bytes list \<Rightarrow> bytes \<Rightarrow> nat \<Rightarrow> (fs_error + nat) \<times> bytes" where
  "append_lines [] out written = (Inr written, out)"
| "append_lines (n # ns) out written =
     (case append_line out written n of
        Inl e \<Rightarrow> (Inl e, out)
      | Inr (written, out) \<Rightarrow> append_lines ns out written)"

text \<open>
  Copying from \<open>offset\<close> what there is of \<open>len\<close> bytes of data into the front of a buffer, as all the
  \<^verbatim>\<open>read\<close> operations do.
\<close>

definition copy_out :: "bytes \<Rightarrow> nat \<Rightarrow> nat \<Rightarrow> bytes \<Rightarrow> nat \<times> bytes" where
  "copy_out data len offset out =
     (let count = min (len - offset) (length out) in (count, splice 0 (slice offset count data) out))"

lemma copy_out_eq:
  assumes "len \<le> length data"
  shows "copy_out data len offset out =
    (let bs = take (length out) (drop offset (take len data)) in (length bs, bs @ drop (length bs) out))"
proof -
  have "take (length out) (drop offset (take len data)) = slice offset (min (len - offset) (length out)) data"
    by (simp add: slice_def drop_take min.commute)
  moreover have "length (slice offset (min (len - offset) (length out)) data) = min (len - offset) (length out)"
    using assms by (auto simp: slice_def)
  ultimately show ?thesis by (simp add: copy_out_def splice_def Let_def)
qed

text \<open>\<^verbatim>\<open>path.rfind('/')\<close>.\<close>

definition rfind :: "'a \<Rightarrow> 'a list \<Rightarrow> nat option" where
  "rfind c xs = map_option (\<lambda>i. length xs - 1 - i) (position (\<lambda>x. x = c) (rev xs))"

text \<open>The loop of \<^verbatim>\<open>resolve_path\<close>, for a lookup of a child's inode.\<close>

fun resolve_components :: "(u64 \<Rightarrow> bytes \<Rightarrow> u64 option) \<Rightarrow> u64 \<Rightarrow> bytes list \<Rightarrow> u64 option" where
  "resolve_components child parent [] = Some parent"
| "resolve_components child parent (c # cs) =
     (if c = [] then None
      else case child parent c of None \<Rightarrow> None | Some i \<Rightarrow> resolve_components child i cs)"

text \<open>
  The loop of \<^verbatim>\<open>is_descendant\<close>.  It follows the parents for as long as there are any, so it may run
  for ever on a cyclic structure: that it does not return is the value \<^term>\<open>None\<close>.
\<close>

partial_function (option) climb ::
    "(u64 \<Rightarrow> u64 option) \<Rightarrow> u64 \<Rightarrow> u64 \<Rightarrow> u64 \<Rightarrow> bool option"
where
  "climb parent_of root candidate ancestor =
     (if candidate = root then Some False
      else if candidate = ancestor then Some True
      else case parent_of candidate of
             None \<Rightarrow> Some False
           | Some p \<Rightarrow> climb parent_of root p ancestor)"

section \<open>Paths as component lists\<close>

definition join :: "bytes list \<Rightarrow> bytes" where
  "join cs = concat (map ((#) SLASH) cs)"

definition slash_free :: "bytes list \<Rightarrow> bool" where
  "slash_free cs \<longleftrightarrow> (\<forall>c\<in>set cs. SLASH \<notin> set c)"

lemma join_simps [simp]: "join [] = []" "join (c # cs) = SLASH # c @ join cs" "join (cs @ ds) = join cs @ join ds"
  by (simp_all add: join_def)

lemma strip_prefix_iff [simp]: "strip_prefix p xs = Some ys \<longleftrightarrow> xs = p @ ys"
  by (induction p xs rule: strip_prefix.induct) auto

lemma strip_prefix_append [simp]: "strip_prefix p (p @ ys) = Some ys"
  by simp

lemma split_join: "SLASH \<notin> set c \<Longrightarrow> slash_free cs \<Longrightarrow> split_on SLASH (c @ join cs) = c # cs"
proof (induction cs arbitrary: c)
  case (Cons d ds)
  then show ?case by (simp add: split_on_append_sep split_on_absent slash_free_def)
qed (simp add: split_on_absent)

lemma join_split: "SLASH # xs = join (split_on SLASH xs)"
proof (induction xs)
  case (Cons x xs)
  obtain q qs where "split_on SLASH xs = q # qs" using split_on_ne[of SLASH xs] by (cases "split_on SLASH xs") auto
  then show ?case using Cons by auto
qed simp

lemma slash_free_split [simp]: "slash_free (split_on SLASH xs)"
  by (auto simp: slash_free_def dest: split_on_no_sep)

lemma rfind_last [simp]:
  assumes "c \<notin> set ys"
  shows "rfind c (xs @ c # ys) = Some (length xs)"
proof -
  have "position (\<lambda>x. x = c) (us @ c # vs) = Some (length us)" if "c \<notin> set us" for us vs
    using that by (induction us) auto
  from this[of "rev ys" "rev xs"] assms show ?thesis by (simp add: rfind_def)
qed

lemma rfind_SomeD:
  assumes "rfind c xs = Some i"
  shows "xs = take i xs @ c # drop (i + 1) xs" "c \<notin> set (drop (i + 1) xs)"
proof -
  have "c \<in> set xs" using assms position_None_iff[of "\<lambda>x. x = c" "rev xs"] by (auto simp: rfind_def)
  then obtain us vs where x: "xs = us @ c # vs" "c \<notin> set vs" by (meson split_list_last)
  with assms rfind_last[of c vs us] have "i = length us" by simp
  with x show "xs = take i xs @ c # drop (i + 1) xs" "c \<notin> set (drop (i + 1) xs)" by simp_all
qed

lemma find_map: "find P (map f xs) = map_option f (find (\<lambda>x. P (f x)) xs)"
  by (induction xs) auto

section \<open>Trees\<close>

record tnode =
  tn_inode :: u64
  tn_parent :: u64
  tn_name :: bytes
  tn_type :: file_type

definition tree_child :: "tnode list \<Rightarrow> u64 \<Rightarrow> bytes \<Rightarrow> u64 option" where
  "tree_child ns p c = map_option tn_inode (find (\<lambda>x. tn_parent x = p \<and> tn_name x = c) ns)"

definition tree_parent :: "tnode list \<Rightarrow> u64 \<Rightarrow> u64 option" where
  "tree_parent ns i = map_option tn_parent (find (\<lambda>x. tn_inode x = i) ns)"

abbreviation tree_walk :: "tnode list \<Rightarrow> u64 \<Rightarrow> bytes list \<Rightarrow> u64 option" where
  "tree_walk ns \<equiv> resolve_components (tree_child ns)"

text \<open>The inodes from which the root is reached by following the parents.\<close>

inductive rooted :: "tnode list \<Rightarrow> u64 \<Rightarrow> u64 \<Rightarrow> bool" for ns root where
  rooted_root: "rooted ns root root"
| rooted_node: "x \<in> set ns \<Longrightarrow> rooted ns root (tn_parent x) \<Longrightarrow> rooted ns root (tn_inode x)"

inductive_cases rooted_cases: "rooted ns root i"

definition tree_ok :: "u64 \<Rightarrow> tnode list \<Rightarrow> bool" where
  "tree_ok root ns \<longleftrightarrow>
     distinct (map tn_inode ns) \<and> root \<notin> tn_inode ` set ns \<and>
     distinct (map (\<lambda>x. (tn_parent x, tn_name x)) ns) \<and>
     (\<forall>x\<in>set ns. tn_name x \<noteq> []) \<and>
     (\<forall>x\<in>set ns. tn_parent x = root \<or> (\<exists>y\<in>set ns. tn_inode y = tn_parent x \<and> tn_type y = Directory)) \<and>
     (\<forall>x\<in>set ns. rooted ns root (tn_inode x))"

lemma tree_okD:
  assumes "tree_ok root ns"
  shows "distinct (map tn_inode ns)" "root \<notin> tn_inode ` set ns"
    "distinct (map (\<lambda>x. (tn_parent x, tn_name x)) ns)" "x \<in> set ns \<Longrightarrow> tn_name x \<noteq> []"
    "x \<in> set ns \<Longrightarrow> tn_parent x = root \<or> (\<exists>y\<in>set ns. tn_inode y = tn_parent x \<and> tn_type y = Directory)"
    "x \<in> set ns \<Longrightarrow> rooted ns root (tn_inode x)"
  using assms unfolding tree_ok_def by blast+

lemma tree_inode_unique:
  "tree_ok root ns \<Longrightarrow> x \<in> set ns \<Longrightarrow> y \<in> set ns \<Longrightarrow> tn_inode x = tn_inode y \<Longrightarrow> x = y"
  using tree_okD(1) by (metis distinct_map inj_onD)

lemma tree_child_iff:
  assumes "tree_ok root ns"
  shows "tree_child ns p c = Some i \<longleftrightarrow> (\<exists>x\<in>set ns. tn_parent x = p \<and> tn_name x = c \<and> tn_inode x = i)"
proof -
  have e: "find (\<lambda>x. tn_parent x = p \<and> tn_name x = c) ns = find (\<lambda>x. (tn_parent x, tn_name x) = (p, c)) ns"
    by simp
  have "find (\<lambda>x. (tn_parent x, tn_name x) = (p, c)) ns = Some x \<longleftrightarrow> x \<in> set ns \<and> (tn_parent x, tn_name x) = (p, c)" for x
    by (rule find_key_eq[OF tree_okD(3)[OF assms]])
  then show ?thesis unfolding tree_child_def e by auto
qed

lemma tree_parent_iff:
  assumes "tree_ok root ns"
  shows "tree_parent ns i = Some p \<longleftrightarrow> (\<exists>x\<in>set ns. tn_inode x = i \<and> tn_parent x = p)"
  unfolding tree_parent_def using find_key_eq[OF tree_okD(1)[OF assms]] by auto

lemma walk_append:
  "resolve_components f p (cs @ ds) =
   (case resolve_components f p cs of None \<Rightarrow> None | Some q \<Rightarrow> resolve_components f q ds)"
  by (induction cs arbitrary: p) (auto split: option.split)

lemma walk_snoc:
  assumes "tree_ok root ns"
  shows "tree_walk ns root (cs @ [c]) = Some i \<longleftrightarrow>
    (\<exists>x\<in>set ns. tree_walk ns root cs = Some (tn_parent x) \<and> tn_name x = c \<and> tn_inode x = i)"
proof (cases "tree_walk ns root cs")
  case (Some q)
  have "tree_walk ns root (cs @ [c]) = Some i \<longleftrightarrow> c \<noteq> [] \<and> tree_child ns q c = Some i"
    by (simp add: walk_append Some split: option.split)
  then show ?thesis using Some tree_child_iff[OF assms] tree_okD(4)[OF assms] by auto
qed (simp add: walk_append)

text \<open>Every inode has at most one path, and a resolved inode is the root or a node.\<close>

lemma walk_unique:
  assumes "tree_ok root ns"
  shows "tree_walk ns root cs = Some i \<Longrightarrow> tree_walk ns root ds = Some i \<Longrightarrow> cs = ds"
proof (induction cs arbitrary: ds i rule: rev_induct)
  case Nil
  show ?case
  proof (cases ds rule: rev_cases)
    case (snoc es e)
    with Nil.prems walk_snoc[OF assms] tree_okD(2)[OF assms] show ?thesis by (auto simp: image_iff)
  qed simp
next
  case (snoc c cs)
  note IH = snoc.IH and prems = snoc.prems
  from prems(1) walk_snoc[OF assms] obtain x where
    x: "x \<in> set ns" "tree_walk ns root cs = Some (tn_parent x)" "tn_name x = c" "tn_inode x = i" by blast
  show ?case
  proof (cases ds rule: rev_cases)
    case Nil
    with prems(2) x tree_okD(2)[OF assms] show ?thesis by auto
  next
    case (snoc es e)
    with prems(2) walk_snoc[OF assms] obtain y where
      y: "y \<in> set ns" "tree_walk ns root es = Some (tn_parent y)" "tn_name y = e" "tn_inode y = i" by blast
    with x tree_inode_unique[OF assms] have "x = y" by metis
    with IH x y \<open>ds = es @ [e]\<close> show ?thesis by blast
  qed
qed

lemma walk_node:
  assumes "tree_ok root ns" and "tree_walk ns root cs = Some i" and "i \<noteq> root"
  obtains es c x where "cs = es @ [c]" "x \<in> set ns" "tree_walk ns root es = Some (tn_parent x)"
    "tn_name x = c" "tn_inode x = i"
proof (cases cs rule: rev_cases)
  case Nil
  with assms show ?thesis by simp
next
  case (snoc es c)
  with assms(2) walk_snoc[OF assms(1)] that show ?thesis by blast
qed

section \<open>Climbing to the root\<close>

lemma rooted_mono: "rooted ns r i \<Longrightarrow> set ns \<subseteq> set ns' \<Longrightarrow> rooted ns' r i"
  by (induction rule: rooted.induct) (auto intro: rooted.intros)

lemma not_rooted_root: "tree_ok root ns \<Longrightarrow> a \<noteq> root \<Longrightarrow> \<not> rooted ns a root"
  using tree_okD(2) by (metis image_eqI rooted_cases)

lemma rooted_parent:
  assumes "tree_ok root ns" and "x \<in> set ns" and "tn_inode x \<noteq> a"
  shows "rooted ns a (tn_inode x) \<longleftrightarrow> rooted ns a (tn_parent x)"
proof
  assume "rooted ns a (tn_inode x)"
  then show "rooted ns a (tn_parent x)"
  proof (rule rooted_cases)
    fix y assume "tn_inode x = tn_inode y" "y \<in> set ns" "rooted ns a (tn_parent y)"
    then show ?thesis using tree_inode_unique[OF assms(1,2)] by metis
  qed (use assms(3) in simp)
qed (use assms(2) rooted_node in blast)

text \<open>On a tree the loop returns, and tells whether the ancestor is on the way to the root.\<close>

lemma climb_rooted:
  assumes ok: "tree_ok root ns" and i: "rooted ns root i" and a: "a \<noteq> root"
  shows "climb (tree_parent ns) root i a = Some (rooted ns a i)"
  using i
proof (induction rule: rooted.induct)
  case rooted_root
  then show ?case using not_rooted_root[OF ok a] by (subst climb.simps) simp
next
  case (rooted_node x)
  have r: "tn_inode x \<noteq> root" using tree_okD(2)[OF ok] rooted_node.hyps(1) by auto
  have p: "tree_parent ns (tn_inode x) = Some (tn_parent x)"
    using tree_parent_iff[OF ok] rooted_node.hyps(1) by blast
  show ?case
  proof (cases "tn_inode x = a")
    case True
    then show ?thesis using r rooted.rooted_root by (subst climb.simps) auto
  next
    case False
    then show ?thesis
      using r p rooted_node.IH rooted_parent[OF ok rooted_node.hyps(1) False] by (subst climb.simps) simp
  qed
qed

lemma walk_rooted:
  assumes "tree_ok root ns" and "tree_walk ns root cs = Some a"
  shows "tree_walk ns root (cs @ es) = Some i \<Longrightarrow> rooted ns a i"
proof (induction es arbitrary: i rule: rev_induct)
  case Nil
  then show ?case using assms(2) rooted.rooted_root by simp
next
  case (snoc e es)
  then obtain x where "x \<in> set ns" "tree_walk ns root (cs @ es) = Some (tn_parent x)" "tn_inode x = i"
    using walk_snoc[OF assms(1), of "cs @ es" e i] by auto
  with snoc.IH rooted.rooted_node show ?case by blast
qed

lemma rooted_walk:
  assumes "tree_ok root ns" and "tree_walk ns root cs = Some a"
  shows "rooted ns a i \<Longrightarrow> \<exists>es. tree_walk ns root (cs @ es) = Some i"
proof (induction rule: rooted.induct)
  case rooted_root
  then show ?case using assms(2) by (intro exI[of _ "[]"]) simp
next
  case (rooted_node x)
  then obtain es where "tree_walk ns root (cs @ es) = Some (tn_parent x)" by blast
  with walk_snoc[OF assms(1), of "cs @ es" "tn_name x" "tn_inode x"] rooted_node.hyps(1)
  have "tree_walk ns root (cs @ (es @ [tn_name x])) = Some (tn_inode x)" by auto
  then show ?case by blast
qed

lemma rooted_iff_prefix:
  assumes "tree_ok root ns" and "tree_walk ns root cs = Some a" and "tree_walk ns root ds = Some i"
  shows "rooted ns a i \<longleftrightarrow> (\<exists>es. ds = cs @ es)"
proof
  assume "rooted ns a i"
  from rooted_walk[OF assms(1,2) this] obtain es where "tree_walk ns root (cs @ es) = Some i" ..
  with walk_unique[OF assms(1,3)] show "\<exists>es. ds = cs @ es" by blast
next
  assume "\<exists>es. ds = cs @ es"
  with walk_rooted[OF assms(1,2)] assms(3) show "rooted ns a i" by blast
qed

lemma walk_root_rooted: "tree_ok root ns \<Longrightarrow> tree_walk ns root ds = Some i \<Longrightarrow> rooted ns root i"
  using walk_rooted[of root ns "[]" root ds i] by simp

section \<open>Order does not matter\<close>

lemma rooted_cong: "set ns = set ns' \<Longrightarrow> rooted ns r i = rooted ns' r i"
  using rooted_mono[of ns r i ns'] rooted_mono[of ns' r i ns] by auto

lemma tree_ok_perm:
  assumes "tree_ok root ns" and "mset ns = mset ns'"
  shows "tree_ok root ns'"
proof -
  have s: "set ns' = set ns" using assms(2) by (metis set_mset_mset)
  have d: "distinct (map f ns') = distinct (map f ns)" for f :: "tnode \<Rightarrow> 'b"
    using assms(2) by (intro mset_eq_imp_distinct_iff) simp
  show ?thesis using assms(1) rooted_cong[OF s] unfolding tree_ok_def s d by simp
qed

lemma walk_perm:
  assumes "tree_ok root ns" and "mset ns = mset ns'"
  shows "tree_walk ns' = tree_walk ns"
proof -
  have s: "set ns' = set ns" using assms(2) by (metis set_mset_mset)
  have "tree_child ns' p c = Some i \<longleftrightarrow> tree_child ns p c = Some i" for p c i
    unfolding tree_child_iff[OF assms(1)] tree_child_iff[OF tree_ok_perm[OF assms]] s ..
  then have "tree_child ns' = tree_child ns" by (intro ext option.expand) (metis not_Some_eq, metis not_Some_eq)
  then show ?thesis by simp
qed

section \<open>Insertion and removal\<close>

definition tree_dir :: "u64 \<Rightarrow> tnode list \<Rightarrow> u64 \<Rightarrow> bool" where
  "tree_dir root ns p \<longleftrightarrow> p = root \<or> (\<exists>y\<in>set ns. tn_inode y = p \<and> tn_type y = Directory)"

lemma tree_dir_rooted: "tree_ok root ns \<Longrightarrow> tree_dir root ns p \<Longrightarrow> rooted ns root p"
  unfolding tree_dir_def using tree_okD(6) rooted.rooted_root by blast

lemma tree_ok_insert:
  assumes ok: "tree_ok root ns" and new: "tn_inode x \<notin> tn_inode ` set ns" "tn_inode x \<noteq> root"
    and dir: "tree_dir root ns (tn_parent x)" and free: "tree_child ns (tn_parent x) (tn_name x) = None"
    and name: "tn_name x \<noteq> []"
  shows "tree_ok root (x # ns)"
proof -
  have f: "(tn_parent x, tn_name x) \<notin> (\<lambda>x. (tn_parent x, tn_name x)) ` set ns"
    using free tree_child_iff[OF ok, of "tn_parent x" "tn_name x"] by fastforce
  have r: "rooted (x # ns) root i" if "rooted ns root i" for i
    using rooted_mono[OF that, of "x # ns"] by auto
  have "rooted (x # ns) root (tn_inode x)"
    using r[OF tree_dir_rooted[OF ok dir]] by (intro rooted_node) auto
  then show ?thesis
    using ok new dir f name r unfolding tree_ok_def tree_dir_def by auto
qed

lemma no_orphans:
  "tree_ok root ns \<Longrightarrow> i \<notin> tn_inode ` set ns \<Longrightarrow> i \<noteq> root \<Longrightarrow> x \<in> set ns \<Longrightarrow> tn_parent x \<noteq> i"
  using tree_okD(5) by (metis image_eqI)

lemma walk_range: "tree_ok root ns \<Longrightarrow> tree_walk ns root cs = Some i \<Longrightarrow> i = root \<or> i \<in> tn_inode ` set ns"
  by (metis image_eqI walk_node)

lemma option_eqI: "(\<And>i. u = Some i \<longleftrightarrow> v = Some i) \<Longrightarrow> u = v"
  by (metis not_Some_eq)

lemma walk_insert:
  assumes ok: "tree_ok root ns" and ok': "tree_ok root (x # ns)" and p: "tree_walk ns root cs = Some (tn_parent x)"
  shows "tree_walk (x # ns) root = (tree_walk ns root)(cs @ [tn_name x] \<mapsto> tn_inode x)"
proof (rule ext)
  let ?W = "tree_walk ns root" and ?W' = "tree_walk (x # ns) root" and ?N = "cs @ [tn_name x]"
  have x: "tn_inode x \<notin> tn_inode ` set ns" "tn_inode x \<noteq> root" using tree_okD(1,2)[OF ok'] by auto
  have px: "tn_parent x \<noteq> tn_inode x" using walk_range[OF ok p] x by metis
  have free: "?W ?N = None"
  proof (rule ccontr)
    assume "?W ?N \<noteq> None"
    then obtain y where d: "y \<in> set ns" "tn_parent y = tn_parent x" "tn_name y = tn_name x"
      using walk_snoc[OF ok, of cs "tn_name x"] p by auto
    then have "(tn_parent x, tn_name x) \<in> (\<lambda>x. (tn_parent x, tn_name x)) ` set ns"
      by (intro image_eqI[of _ _ y]) simp_all
    then show False using tree_okD(3)[OF ok'] by simp
  qed
  fix ds
  show "?W' ds = (?W(?N \<mapsto> tn_inode x)) ds"
  proof (induction ds rule: rev_induct)
    case (snoc d ds)
    show ?case
    proof (cases "ds = ?N")
      case True
      then have "?W' ds = Some (tn_inode x)" using snoc by simp
      moreover have "\<forall>y\<in>set (x # ns). tn_parent y \<noteq> tn_inode x" using px no_orphans[OF ok x] by auto
      ultimately have "?W' (ds @ [d]) \<noteq> Some i" for i
        unfolding walk_snoc[OF ok'] by (metis option.inject)
      moreover have "?W (ds @ [d]) = None" using True free walk_append[of "tree_child ns" root ?N "[d]"] by simp
      ultimately show ?thesis using True by (metis append_self_conv fun_upd_apply not_Cons_self2 not_Some_eq)
    next
      case False
      then have e: "?W' ds = ?W ds" using snoc by simp
      have u: "?W ds = Some (tn_parent x) \<longleftrightarrow> ds = cs" using p walk_unique[OF ok p] by metis
      have "?W' (ds @ [d]) = Some i \<longleftrightarrow> (ds = cs \<and> tn_name x = d \<and> tn_inode x = i) \<or> ?W (ds @ [d]) = Some i" for i
        unfolding walk_snoc[OF ok'] walk_snoc[OF ok] e using u by auto
      with free show ?thesis by (intro option_eqI) auto
    qed
  qed simp
qed

lemma rooted_avoid:
  assumes "rooted (x # ns) root i" and "\<forall>y\<in>set (x # ns). tn_parent y \<noteq> tn_inode x" and "i \<noteq> tn_inode x"
  shows "rooted ns root i"
  using assms(1,3)
proof (induction rule: rooted.induct)
  case (rooted_node y)
  have "y \<in> set ns" using rooted_node by auto
  moreover have "rooted ns root (tn_parent y)" using rooted_node assms(2) by blast
  ultimately show ?case by (rule rooted.rooted_node)
qed (rule rooted.rooted_root)

lemma tree_ok_remove:
  assumes ok: "tree_ok root (x # ns)" and leaf: "\<forall>y\<in>set (x # ns). tn_parent y \<noteq> tn_inode x"
  shows "tree_ok root ns"
proof -
  have "rooted ns root (tn_inode y)" if "y \<in> set ns" for y
  proof (rule rooted_avoid[OF tree_okD(6)[OF ok] leaf])
    show "tn_inode y \<noteq> tn_inode x" using tree_okD(1)[OF ok] that by (metis distinct.simps(2) image_eqI list.simps(9) list.set_map)
  qed (use that in simp)
  moreover have "tn_parent y = root \<or> (\<exists>z\<in>set ns. tn_inode z = tn_parent y \<and> tn_type z = Directory)" if "y \<in> set ns" for y
    using tree_okD(5)[OF ok, of y] leaf that by auto
  ultimately show ?thesis using ok unfolding tree_ok_def by simp
qed

lemma walk_remove:
  assumes ok: "tree_ok root (x # ns)" and leaf: "\<forall>y\<in>set (x # ns). tn_parent y \<noteq> tn_inode x"
    and p: "tree_walk (x # ns) root cs = Some (tn_inode x)"
  shows "tree_walk ns root = (tree_walk (x # ns) root)(cs := None)"
proof -
  have ok1: "tree_ok root ns" by (rule tree_ok_remove[OF ok leaf])
  have x: "tn_inode x \<noteq> root" using tree_okD(2)[OF ok] by auto
  from walk_node[OF ok p x] obtain es y where
    es: "cs = es @ [tn_name y]" "y \<in> set (x # ns)" "tree_walk (x # ns) root es = Some (tn_parent y)"
      "tn_inode y = tn_inode x" by blast
  have y: "y = x" using tree_inode_unique[OF ok es(2) _ es(4)] by simp
  have "rooted (x # ns) root (tn_parent x)" using walk_root_rooted[OF ok es(3)] y by simp
  moreover have "tn_parent x \<noteq> tn_inode x" using leaf by simp
  ultimately have "rooted ns root (tn_parent x)" by (rule rooted_avoid[OF _ leaf])
  then have "\<exists>es. tree_walk ns root ([] @ es) = Some (tn_parent x)" by (rule rooted_walk[OF ok1, rotated]) simp
  then obtain fs where fs: "tree_walk ns root fs = Some (tn_parent x)" by auto
  note ins = walk_insert[OF ok1 ok fs]
  then have "tree_walk (x # ns) root (fs @ [tn_name x]) = Some (tn_inode x)" by simp
  then have c: "cs = fs @ [tn_name x]" using walk_unique[OF ok p] by blast
  have "tree_walk ns root cs = None"
  proof (rule ccontr)
    assume "tree_walk ns root cs \<noteq> None"
    then obtain z where d: "z \<in> set ns" "tn_parent z = tn_parent x" "tn_name z = tn_name x"
      using walk_snoc[OF ok1, of fs "tn_name x"] fs c by auto
    then have "(tn_parent x, tn_name x) \<in> (\<lambda>x. (tn_parent x, tn_name x)) ` set ns"
      by (intro image_eqI[of _ _ z]) simp_all
    then show False using tree_okD(3)[OF ok] by simp
  qed
  then show ?thesis unfolding ins c[symmetric] by (intro ext) simp
qed

section \<open>Moving a node\<close>

definition move :: "u64 \<Rightarrow> bytes \<Rightarrow> tnode \<Rightarrow> tnode" where
  "move q c x = x\<lparr>tn_parent := q, tn_name := c\<rparr>"

lemma move_simps [simp]:
  "tn_inode (move q c x) = tn_inode x" "tn_parent (move q c x) = q" "tn_name (move q c x) = c"
  "tn_type (move q c x) = tn_type x"
  by (simp_all add: move_def)

lemma rooted_outside:
  assumes "rooted (x # ns) root i" and "\<not> rooted (x # ns) (tn_inode x) i"
  shows "rooted ns root i"
  using assms
proof (induction rule: rooted.induct)
  case (rooted_node y)
  have "y \<noteq> x" using rooted_node.prems rooted.rooted_root by auto
  then have "y \<in> set ns" using rooted_node.hyps by simp
  moreover have "rooted ns root (tn_parent y)"
    using rooted_node.IH rooted_node.prems rooted_node.hyps(1) rooted.rooted_node by blast
  ultimately show ?case by (rule rooted.rooted_node)
qed (rule rooted.rooted_root)

definition movable :: "u64 \<Rightarrow> tnode \<Rightarrow> tnode list \<Rightarrow> u64 \<Rightarrow> bytes \<Rightarrow> bool" where
  "movable root x ns q c \<longleftrightarrow> tree_ok root (x # ns) \<and> tree_dir root (x # ns) q \<and>
     tree_child (x # ns) q c = None \<and> c \<noteq> [] \<and> \<not> rooted (x # ns) (tn_inode x) q"

lemma movableD:
  assumes "movable root x ns q c"
  shows "tree_ok root (x # ns)" "tree_dir root (x # ns) q" "tree_child (x # ns) q c = None" "c \<noteq> []"
    "\<not> rooted (x # ns) (tn_inode x) q"
  using assms unfolding movable_def by blast+

lemma tree_ok_move:
  assumes m: "movable root x ns q c"
  shows "tree_ok root (move q c x # ns)"
proof -
  note ok = movableD(1)[OF m]
  have qx: "q \<noteq> tn_inode x" using movableD(5)[OF m] rooted.rooted_root by auto
  have f: "(q, c) \<notin> (\<lambda>x. (tn_parent x, tn_name x)) ` set ns"
    using movableD(3)[OF m] tree_child_iff[OF ok, of q c] by fastforce
  have "rooted (x # ns) root q" by (rule tree_dir_rooted[OF ok movableD(2)[OF m]])
  then have "rooted ns root q" by (rule rooted_outside) (rule movableD(5)[OF m])
  then have "rooted (move q c x # ns) root q" by (rule rooted_mono) auto
  then have r: "rooted (move q c x # ns) root (tn_inode x)"
    using rooted_node[of "move q c x" "move q c x # ns" root] by simp
  have "rooted (move q c x # ns) root i" if "rooted (x # ns) root i" for i
    using that
  proof (induction rule: rooted.induct)
    case (rooted_node y)
    show ?case
    proof (cases "y = x")
      case False
      then have "y \<in> set (move q c x # ns)" using rooted_node.hyps by simp
      then show ?thesis using rooted_node.IH by (rule rooted.rooted_node)
    qed (use r in simp)
  qed (rule rooted.rooted_root)
  moreover have "rooted (x # ns) root (tn_inode y)" if "y \<in> set ns" for y
    using tree_okD(6)[OF ok] that by simp
  moreover have "tree_dir root (move q c x # ns) p" if "tree_dir root (x # ns) p" for p
    using that unfolding tree_dir_def by auto
  ultimately show ?thesis
    using ok r f movableD(2,4)[OF m] unfolding tree_ok_def tree_dir_def[symmetric] by simp
qed

lemma walk_move_step:
  assumes m: "movable root x ns q c"
    and old: "tree_walk (x # ns) root old = Some (tn_inode x)"
    and qs: "tree_walk (x # ns) root qs = Some q"
    and eq: "tree_walk (move q c x # ns) root ds = tree_walk (x # ns) root es"
  shows "tree_walk (move q c x # ns) root (ds @ [d]) =
    (if es @ [d] = qs @ [c] then Some (tn_inode x) else if es @ [d] = old then None
     else tree_walk (x # ns) root (es @ [d]))"
proof -
  let ?W = "tree_walk (x # ns) root" and ?W' = "tree_walk (move q c x # ns) root"
  note ok = movableD(1)[OF m] and ok' = tree_ok_move[OF m]
  have "tn_inode x \<noteq> root" using tree_okD(2)[OF ok] by auto
  from walk_node[OF ok old this] obtain zs y where
    y: "old = zs @ [tn_name y]" "y \<in> set (x # ns)" "?W zs = Some (tn_parent y)" "tn_inode y = tn_inode x" by blast
  have "y = x" using tree_inode_unique[OF ok y(2) _ y(4)] by simp
  with y have zs: "old = zs @ [tn_name x]" "?W zs = Some (tn_parent x)" by simp_all
  have uq: "?W es = Some q \<longleftrightarrow> es = qs" using qs walk_unique[OF ok qs] by metis
  have uz: "?W es = Some (tn_parent x) \<longleftrightarrow> es = zs" using zs(2) walk_unique[OF ok zs(2)] by metis
  have n: "tree_walk (x # ns) root (qs @ [c]) = None"
    using qs movableD(3)[OF m] by (simp add: walk_append)
  have dup: "(tn_parent y, tn_name y) \<noteq> (tn_parent x, tn_name x)" if "y \<in> set ns" for y
  proof -
    have "(tn_parent x, tn_name x) \<notin> (\<lambda>x. (tn_parent x, tn_name x)) ` set ns" using tree_okD(3)[OF ok] by simp
    then show ?thesis using imageI[OF that, of "\<lambda>x. (tn_parent x, tn_name x)"] by metis
  qed
  have "?W' (ds @ [d]) = Some i \<longleftrightarrow>
      (if es @ [d] = qs @ [c] then Some (tn_inode x) else if es @ [d] = old then None else ?W (es @ [d])) = Some i" for i
  proof -
    have w': "?W' (ds @ [d]) = Some i \<longleftrightarrow> (es = qs \<and> c = d \<and> tn_inode x = i) \<or>
        (\<exists>y\<in>set ns. ?W es = Some (tn_parent y) \<and> tn_name y = d \<and> tn_inode y = i)"
      unfolding walk_snoc[OF ok'] eq by (simp add: uq)
    have w: "?W (es @ [d]) = Some i \<longleftrightarrow> (es = zs \<and> tn_name x = d \<and> tn_inode x = i) \<or>
        (\<exists>y\<in>set ns. ?W es = Some (tn_parent y) \<and> tn_name y = d \<and> tn_inode y = i)"
      unfolding walk_snoc[OF ok] by (simp add: uz)
    consider "es @ [d] = qs @ [c]" | "es @ [d] \<noteq> qs @ [c]" "es @ [d] = old" | "es @ [d] \<noteq> qs @ [c]" "es @ [d] \<noteq> old" by blast
    then show ?thesis
    proof cases
      case 1
      then have "\<not> (\<exists>y\<in>set ns. ?W es = Some (tn_parent y) \<and> tn_name y = d \<and> tn_inode y = i)" using n w by auto
      with 1 w' show ?thesis by auto
    next
      case 2
      then have "\<not> (\<exists>y\<in>set ns. ?W es = Some (tn_parent y) \<and> tn_name y = d \<and> tn_inode y = i)"
        using zs dup by auto
      with 2 w' show ?thesis by auto
    next
      case 3
      then have "\<not> (es = qs \<and> c = d)" "\<not> (es = zs \<and> tn_name x = d)" using zs(1) by auto
      with w w' have "?W' (ds @ [d]) = Some i \<longleftrightarrow> ?W (es @ [d]) = Some i" by blast
      then show ?thesis unfolding if_not_P[OF 3(1)] if_not_P[OF 3(2)] .
    qed
  qed
  then show ?thesis by (rule option_eqI)
qed

text \<open>Moving a node moves the paths below it and nothing else.\<close>

lemma walk_move:
  assumes m: "movable root x ns q c"
    and old: "tree_walk (x # ns) root old = Some (tn_inode x)"
    and qs: "tree_walk (x # ns) root qs = Some q"
  shows "tree_walk (move q c x # ns) root ds =
    (if prefix (qs @ [c]) ds then tree_walk (x # ns) root (old @ drop (length (qs @ [c])) ds)
     else if prefix old ds then None else tree_walk (x # ns) root ds)"
proof (induction ds rule: rev_induct)
  case Nil
  have "tn_inode x \<noteq> root" using tree_okD(2)[OF movableD(1)[OF m]] by auto
  then have "old \<noteq> []" using old by auto
  then show ?case by simp
next
  case (snoc d ds)
  note step = walk_move_step[OF m old qs]
  have nq: "\<not> prefix old qs"
    using rooted_iff_prefix[OF movableD(1)[OF m] old qs] movableD(5)[OF m] by (auto simp: prefix_def)
  show ?case
  proof (cases "prefix (qs @ [c]) ds")
    case True
    then obtain r where r: "ds = (qs @ [c]) @ r" by (auto simp: prefix_def)
    then have e: "tree_walk (move q c x # ns) root ds = tree_walk (x # ns) root (old @ r)" using snoc by simp
    have "old @ r \<noteq> qs" using nq by (auto simp: prefix_def)
    with step[OF e, of d] r show ?thesis by simp
  next
    case False
    show ?thesis
    proof (cases "prefix old ds")
      case True
      then have "tree_walk (move q c x # ns) root ds = None" using snoc False by simp
      then have w: "tree_walk (move q c x # ns) root (ds @ [d]) = None" by (simp add: walk_append)
      have n: "\<not> prefix (qs @ [c]) (ds @ [d])" and o: "prefix old (ds @ [d])" using False True nq by auto
      show ?thesis unfolding w if_not_P[OF n] if_P[OF o] ..
    next
      case ndir: False
      then have e: "tree_walk (move q c x # ns) root ds = tree_walk (x # ns) root ds" using snoc False by simp
      show ?thesis using step[OF e, of d] False ndir old by auto
    qed
  qed
qed

section \<open>The contract of a store\<close>

locale tree_store =
  fixes root :: u64
    and ok :: "'s \<Rightarrow> bool"
    and tree :: "'s \<Rightarrow> tnode list"
    and lookup :: "'s \<Rightarrow> bytes list \<Rightarrow> u64 option"
    and parent_of :: "'s \<Rightarrow> u64 \<Rightarrow> u64 option"
  assumes tree: "ok s \<Longrightarrow> tree_ok root (tree s)"
    and lookup: "ok s \<Longrightarrow> lookup s cs = tree_walk (tree s) root cs"
    and parent_of: "ok s \<Longrightarrow> parent_of s i = tree_parent (tree s) i"
begin

lemma lookup_unique: "ok s \<Longrightarrow> lookup s cs = Some i \<Longrightarrow> lookup s ds = Some i \<Longrightarrow> cs = ds"
  using walk_unique[OF tree] by (simp add: lookup)

lemma climb_returns:
  assumes "ok s" and "lookup s cs = Some i" and "a \<noteq> root"
  shows "climb (parent_of s) root i a = Some (rooted (tree s) a i)"
proof -
  have "parent_of s = tree_parent (tree s)" using parent_of[OF assms(1)] by auto
  moreover have "rooted (tree s) root i"
    using walk_root_rooted[OF tree[OF assms(1)]] assms(2) lookup[OF assms(1)] by simp
  ultimately show ?thesis using climb_rooted[OF tree[OF assms(1)] _ assms(3)] by simp
qed

lemma lookup_insert:
  assumes ok: "ok s" "ok s'" and t: "mset (tree s') = add_mset x (mset (tree s))"
    and p: "lookup s cs = Some (tn_parent x)"
  shows "lookup s' = (lookup s)(cs @ [tn_name x] \<mapsto> tn_inode x)"
proof -
  have m: "mset (tree s') = mset (x # tree s)" using t by simp
  have ok': "tree_ok root (x # tree s)" by (rule tree_ok_perm[OF tree[OF ok(2)] m])
  have "tree_walk (tree s') = tree_walk (x # tree s)" by (rule walk_perm[OF ok' m[symmetric]])
  moreover have "lookup s = tree_walk (tree s) root" "lookup s' = tree_walk (tree s') root"
    using lookup ok by auto
  ultimately show ?thesis using walk_insert[OF tree[OF ok(1)] ok', of cs] p by simp
qed

lemma lookup_remove:
  assumes ok: "ok s" "ok s'" and t: "mset (tree s) = add_mset x (mset (tree s'))"
    and leaf: "\<forall>y\<in>set (tree s). tn_parent y \<noteq> tn_inode x" and p: "lookup s cs = Some (tn_inode x)"
  shows "lookup s' = (lookup s)(cs := None)"
proof -
  have m: "mset (tree s) = mset (x # tree s')" using t by simp
  have e: "set (tree s) = set (x # tree s')" using m by (metis set_mset_mset)
  have ok': "tree_ok root (x # tree s')" by (rule tree_ok_perm[OF tree[OF ok(1)] m])
  have "tree_walk (tree s) = tree_walk (x # tree s')" by (rule walk_perm[OF ok' m[symmetric]])
  moreover have "lookup s = tree_walk (tree s) root" "lookup s' = tree_walk (tree s') root"
    using lookup ok by auto
  ultimately show ?thesis using walk_remove[OF ok' leaf[unfolded e], of cs] p by simp
qed

lemma lookup_move:
  assumes ok: "ok s" "ok s'" and t: "mset (tree s) = mset (x # ns)" "mset (tree s') = mset (move q c x # ns)"
    and m: "movable root x ns q c" and old: "lookup s old = Some (tn_inode x)" and qs: "lookup s qs = Some q"
  shows "lookup s' ds = (if prefix (qs @ [c]) ds then lookup s (old @ drop (length (qs @ [c])) ds)
     else if prefix old ds then None else lookup s ds)"
proof -
  have "tree_walk (tree s) = tree_walk (x # ns)" by (rule walk_perm[OF movableD(1)[OF m] t(1)[symmetric]])
  moreover have "tree_walk (tree s') = tree_walk (move q c x # ns)"
    by (rule walk_perm[OF tree_ok_move[OF m] t(2)[symmetric]])
  moreover have "lookup s = tree_walk (tree s) root" "lookup s' = tree_walk (tree s') root"
    using lookup ok by auto
  ultimately show ?thesis using walk_move[OF m, of old qs ds] old qs by simp
qed

end

end
