(* ===== verification/Vfs.thy ===== *)
theory Vfs
  imports Fs_Tree
begin

text \<open>
  The virtual filesystem (\<^verbatim>\<open>kernel/src/fs.rs\<close>): mount resolution and the operations the system calls
  use.  A backend is the table of functions of the trait \<^verbatim>\<open>FilesystemBackend\<close>; the functions act on one
  state that holds the state of all backends.  A \<^verbatim>\<open>rename\<close> that does not return is \<^term>\<open>None\<close>.
\<close>

section \<open>Backends and mounts\<close>

record 's backend =
  be_available :: "'s \<Rightarrow> bool"
  be_list :: "'s \<Rightarrow> bytes \<Rightarrow> bytes \<Rightarrow> (fs_error + nat) \<times> bytes"
  be_stat :: "'s \<Rightarrow> bytes \<Rightarrow> fs_error + backend_stat"
  be_read :: "'s \<Rightarrow> u64 \<Rightarrow> nat \<Rightarrow> bytes \<Rightarrow> (fs_error + nat) \<times> bytes"
  be_write :: "u64 \<Rightarrow> nat \<Rightarrow> bytes \<Rightarrow> 's \<Rightarrow> (fs_error + nat) \<times> 's"
  be_create :: "bytes \<Rightarrow> 's \<Rightarrow> (fs_error + backend_stat) \<times> 's"
  be_mkdir :: "bytes \<Rightarrow> 's \<Rightarrow> (fs_error + backend_stat) \<times> 's"
  be_unlink :: "bytes \<Rightarrow> 's \<Rightarrow> (fs_error + u64) \<times> 's"
  be_rmdir :: "bytes \<Rightarrow> 's \<Rightarrow> (fs_error + u64) \<times> 's"
  be_rename :: "bytes \<Rightarrow> bytes \<Rightarrow> 's \<Rightarrow> ((fs_error + u64) \<times> 's) option"

type_synonym mount_id = u16

record 's mount =
  mt_id :: mount_id
  mt_path :: bytes
  mt_backend :: "'s backend"

record vfs_node_id =
  vn_mount :: mount_id
  vn_inode :: u64

record file_stat =
  fst_path :: normalized_path
  fst_file_type :: file_type
  fst_size :: nat
  fst_readonly :: bool
  fst_node :: vfs_node_id

record open_target =
  ot_path :: normalized_path
  ot_file_type :: file_type
  ot_readonly :: bool
  ot_node :: vfs_node_id

section \<open>Resolution\<close>

text \<open>\<^verbatim>\<open>Iterator::max_by_key\<close>: the last of the elements with the greatest key.\<close>

fun max_by_key :: "('a \<Rightarrow> nat) \<Rightarrow> 'a list \<Rightarrow> 'a option" where
  "max_by_key key [] = None"
| "max_by_key key (x # xs) =
     (case max_by_key key xs of
        None \<Rightarrow> Some x
      | Some y \<Rightarrow> if key x > key y then Some x else Some y)"

definition vfs_resolve :: "'s mount list \<Rightarrow> 's \<Rightarrow> bytes \<Rightarrow> fs_error + ('s mount \<times> bytes)" where
  "vfs_resolve mounts s path =
     (case max_by_key (\<lambda>m. length (mt_path m))
             (filter (\<lambda>m. be_available (mt_backend m) s \<and> path_matches_mount path (mt_path m)) mounts) of
        None \<Rightarrow> Inl NotFound
      | Some m \<Rightarrow> Inr (m, strip_mount_path path (mt_path m)))"

definition vfs_mount :: "'s mount list \<Rightarrow> mount_id \<Rightarrow> fs_error + 's mount" where
  "vfs_mount mounts i = (case find (\<lambda>m. mt_id m = i) mounts of None \<Rightarrow> Inl StaleNode | Some m \<Rightarrow> Inr m)"

definition vfs_stat :: "'s mount list \<Rightarrow> 's \<Rightarrow> normalized_path \<Rightarrow> fs_error + file_stat" where
  "vfs_stat mounts s path =
     (case vfs_resolve mounts s (np_as_str path) of
        Inl e \<Rightarrow> Inl e
      | Inr (m, backend_path) \<Rightarrow>
          (case be_stat (mt_backend m) s backend_path of
             Inl e \<Rightarrow> Inl e
           | Inr st \<Rightarrow>
               Inr \<lparr>fst_path = path, fst_file_type = bs_file_type st, fst_size = bs_size st,
                    fst_readonly = bs_readonly st, fst_node = \<lparr>vn_mount = mt_id m, vn_inode = bs_inode st\<rparr>\<rparr>))"

section \<open>Operations\<close>

fun list_mounts :: "'s mount list \<Rightarrow> 's \<Rightarrow> bytes \<Rightarrow> bytes \<Rightarrow> nat \<Rightarrow> (fs_error + nat) \<times> bytes" where
  "list_mounts [] s directory out written = (Inr written, out)"
| "list_mounts (m # ms) s directory out written =
     (if \<not> be_available (mt_backend m) s then list_mounts ms s directory out written
      else case direct_mount_child directory (mt_path m) of
             None \<Rightarrow> list_mounts ms s directory out written
           | Some name \<Rightarrow>
               (case append_line out written name of
                  Inl e \<Rightarrow> (Inl e, out)
                | Inr (written, out) \<Rightarrow> list_mounts ms s directory out written))"

definition list_to_buffer :: "'s mount list \<Rightarrow> 's \<Rightarrow> bytes \<Rightarrow> bytes \<Rightarrow> bytes \<Rightarrow> (fs_error + nat) \<times> bytes" where
  "list_to_buffer mounts s cwd path out =
     (case normalize_path_from cwd path of
        Inl e \<Rightarrow> (Inl e, out)
      | Inr normalized \<Rightarrow>
     (case vfs_resolve mounts s (np_as_str normalized) of
        Inl e \<Rightarrow> (Inl e, out)
      | Inr (m, backend_path) \<Rightarrow>
          (case be_list (mt_backend m) s backend_path out of
             (Inl e, out) \<Rightarrow> (Inl e, out)
           | (Inr written, out) \<Rightarrow> list_mounts mounts s (np_as_str normalized) out written)))"

definition stat_from :: "'s mount list \<Rightarrow> 's \<Rightarrow> bytes \<Rightarrow> bytes \<Rightarrow> fs_error + file_stat" where
  "stat_from mounts s cwd path =
     (case normalize_path_from cwd path of Inl e \<Rightarrow> Inl e | Inr p \<Rightarrow> vfs_stat mounts s p)"

definition fs_stat :: "'s mount list \<Rightarrow> 's \<Rightarrow> bytes \<Rightarrow> fs_error + file_stat" where
  "fs_stat mounts s path = stat_from mounts s [SLASH] path"

definition open_from :: "'s mount list \<Rightarrow> 's \<Rightarrow> bytes \<Rightarrow> bytes \<Rightarrow> fs_error + open_target" where
  "open_from mounts s cwd path =
     (case stat_from mounts s cwd path of
        Inl e \<Rightarrow> Inl e
      | Inr st \<Rightarrow> Inr \<lparr>ot_path = fst_path st, ot_file_type = fst_file_type st,
                       ot_readonly = fst_readonly st, ot_node = fst_node st\<rparr>)"

definition read_node ::
    "'s mount list \<Rightarrow> 's \<Rightarrow> vfs_node_id \<Rightarrow> nat \<Rightarrow> bytes \<Rightarrow> (fs_error + nat) \<times> bytes"
where
  "read_node mounts s node offset out =
     (case vfs_mount mounts (vn_mount node) of
        Inl e \<Rightarrow> (Inl e, out)
      | Inr m \<Rightarrow> be_read (mt_backend m) s (vn_inode node) offset out)"

definition read_to_buffer :: "'s mount list \<Rightarrow> 's \<Rightarrow> bytes \<Rightarrow> bytes \<Rightarrow> bytes \<Rightarrow> (fs_error + nat) \<times> bytes" where
  "read_to_buffer mounts s cwd path out =
     (case open_from mounts s cwd path of
        Inl e \<Rightarrow> (Inl e, out)
      | Inr target \<Rightarrow>
          if ot_file_type target \<noteq> File then (Inl IsDirectory, out)
          else read_node mounts s (ot_node target) 0 out)"

definition write_node ::
    "'s mount list \<Rightarrow> vfs_node_id \<Rightarrow> nat \<Rightarrow> bytes \<Rightarrow> 's \<Rightarrow> (fs_error + nat) \<times> 's"
where
  "write_node mounts node offset source s =
     (case vfs_mount mounts (vn_mount node) of
        Inl e \<Rightarrow> (Inl e, s)
      | Inr m \<Rightarrow> be_write (mt_backend m) (vn_inode node) offset source s)"

text \<open>\<^verbatim>\<open>create_from\<close> and \<^verbatim>\<open>mkdir_from\<close> differ in the backend operation.\<close>

definition make_from ::
    "('s backend \<Rightarrow> bytes \<Rightarrow> 's \<Rightarrow> (fs_error + backend_stat) \<times> 's) \<Rightarrow> 's mount list \<Rightarrow> bytes \<Rightarrow> bytes \<Rightarrow> 's \<Rightarrow>
     (fs_error + open_target) \<times> 's"
where
  "make_from oper mounts cwd path s =
     (case normalize_path_from cwd path of
        Inl e \<Rightarrow> (Inl e, s)
      | Inr normalized \<Rightarrow>
     (case vfs_resolve mounts s (np_as_str normalized) of
        Inl e \<Rightarrow> (Inl e, s)
      | Inr (m, backend_path) \<Rightarrow>
          (case oper (mt_backend m) backend_path s of
             (Inl e, s) \<Rightarrow> (Inl e, s)
           | (Inr st, s) \<Rightarrow>
               (Inr \<lparr>ot_path = normalized, ot_file_type = bs_file_type st, ot_readonly = bs_readonly st,
                     ot_node = \<lparr>vn_mount = mt_id m, vn_inode = bs_inode st\<rparr>\<rparr>, s))))"

definition create_from :: "'s mount list \<Rightarrow> bytes \<Rightarrow> bytes \<Rightarrow> 's \<Rightarrow> (fs_error + open_target) \<times> 's" where
  "create_from = make_from be_create"

definition mkdir_from :: "'s mount list \<Rightarrow> bytes \<Rightarrow> bytes \<Rightarrow> 's \<Rightarrow> (fs_error + open_target) \<times> 's" where
  "mkdir_from = make_from be_mkdir"

definition drop_from ::
    "('s backend \<Rightarrow> bytes \<Rightarrow> 's \<Rightarrow> (fs_error + u64) \<times> 's) \<Rightarrow> 's mount list \<Rightarrow> bytes \<Rightarrow> bytes \<Rightarrow> 's \<Rightarrow>
     (fs_error + u64) \<times> 's"
where
  "drop_from oper mounts cwd path s =
     (case normalize_path_from cwd path of
        Inl e \<Rightarrow> (Inl e, s)
      | Inr normalized \<Rightarrow>
     (case vfs_resolve mounts s (np_as_str normalized) of
        Inl e \<Rightarrow> (Inl e, s)
      | Inr (m, backend_path) \<Rightarrow> oper (mt_backend m) backend_path s))"

definition unlink_from :: "'s mount list \<Rightarrow> bytes \<Rightarrow> bytes \<Rightarrow> 's \<Rightarrow> (fs_error + u64) \<times> 's" where
  "unlink_from = drop_from be_unlink"

definition rmdir_from :: "'s mount list \<Rightarrow> bytes \<Rightarrow> bytes \<Rightarrow> 's \<Rightarrow> (fs_error + u64) \<times> 's" where
  "rmdir_from = drop_from be_rmdir"

definition rename_from ::
    "'s mount list \<Rightarrow> bytes \<Rightarrow> bytes \<Rightarrow> bytes \<Rightarrow> 's \<Rightarrow> ((fs_error + u64) \<times> 's) option"
where
  "rename_from mounts cwd old_path new_path s =
     (case normalize_path_from cwd old_path of
        Inl e \<Rightarrow> Some (Inl e, s)
      | Inr old_path \<Rightarrow>
     (case normalize_path_from cwd new_path of
        Inl e \<Rightarrow> Some (Inl e, s)
      | Inr new_path \<Rightarrow>
     (case vfs_resolve mounts s (np_as_str old_path) of
        Inl e \<Rightarrow> Some (Inl e, s)
      | Inr (old_mount, old_backend_path) \<Rightarrow>
     (case vfs_resolve mounts s (np_as_str new_path) of
        Inl e \<Rightarrow> Some (Inl e, s)
      | Inr (new_mount, new_backend_path) \<Rightarrow>
          if mt_id old_mount \<noteq> mt_id new_mount then Some (Inl CrossDevice, s)
          else be_rename (mt_backend old_mount) old_backend_path new_backend_path s))))"

end
