(* ===== verification/Process_Threads.thy ===== *)
theory Process_Threads
  imports Process_Types
begin

text \<open>
  Creation of processes and threads, process groups and sessions, and the blocking operations on
  threads: exit, join, block and wake (\<^verbatim>\<open>ProcessTable\<close> of \<^verbatim>\<open>kernel/src/user/process.rs\<close>, from
  \<^verbatim>\<open>create_process\<close> to \<^verbatim>\<open>set_credentials\<close>).
\<close>

section \<open>Creating processes\<close>

definition insert_process ::
    "pid \<Rightarrow> pid option \<Rightarrow> bytes \<Rightarrow> bytes \<Rightarrow> user_program_arg \<Rightarrow> job_mode \<Rightarrow> address_space \<Rightarrow> kproc \<Rightarrow> kproc"
where
  "insert_process p parent_pid name program_path arg jm space k =
     (let kind = (if parent_pid = None \<and> name = str ''kernel'' \<and> program_path = str ''kernel''
                  then KernelTask else UserProcess);
          parent = (case parent_pid of None \<Rightarrow> None | Some pp \<Rightarrow> get_process k pp);
          cwd = (case parent of None \<Rightarrow> np_root | Some q \<Rightarrow> p_cwd q);
          creds = (case parent of None \<Rightarrow> credentials_root | Some q \<Rightarrow> p_credentials q);
          (pgid, sid) =
            (case parent of
               Some q \<Rightarrow> (if p_kind q = UserProcess then (p_process_group_id q, p_session_id q) else (p, p))
             | None \<Rightarrow> (p, p));
          tkind = (case kind of KernelTask \<Rightarrow> TKernel | UserProcess \<Rightarrow> TUser);
          (mtid, k) = reserve_tid k
      in store_insert p
           \<lparr>p_pid = p, p_parent_pid = parent_pid, p_process_group_id = pgid, p_session_id = sid,
            p_name = name, p_program_path = program_path, p_kind = kind,
            p_threads = threads_with_main
              (with_user_stack (l_stack_start (as_layout space)) (l_stack_top (as_layout space))
                (thread_new mtid p tkind)),
            p_credentials = creds, p_arg = arg, p_cwd = cwd, p_job_mode = jm, p_state = PCreated,
            p_address_space = space, p_file_handles = [], p_exit_status = None,
            p_waiting_for = None, p_sleeping_until_tick = None, p_pending_signals = 0,
            p_blocked_signals = 0, p_sigterm_disposition = SIG_DFL\<rparr> k)"

definition create_process_with_job_mode ::
    "pid option \<Rightarrow> bytes \<Rightarrow> bytes \<Rightarrow> user_program_arg \<Rightarrow> job_mode \<Rightarrow> address_space \<Rightarrow> kproc \<Rightarrow> pid \<times> kproc"
where
  "create_process_with_job_mode parent_pid name program_path arg jm space k =
     (let (p, k) = reserve_pid k
      in (p, insert_process p parent_pid name program_path arg jm space k))"

definition create_process ::
    "pid option \<Rightarrow> bytes \<Rightarrow> bytes \<Rightarrow> user_program_arg \<Rightarrow> address_space \<Rightarrow> kproc \<Rightarrow> pid \<times> kproc"
where
  "create_process parent_pid name program_path arg space k =
     create_process_with_job_mode parent_pid name program_path arg Foreground space k"

definition create_reserved_process_with_job_mode ::
    "pid \<Rightarrow> pid option \<Rightarrow> bytes \<Rightarrow> bytes \<Rightarrow> user_program_arg \<Rightarrow> job_mode \<Rightarrow> address_space \<Rightarrow> kproc \<Rightarrow> pid \<times> kproc"
where
  "create_reserved_process_with_job_mode p parent_pid name program_path arg jm space k =
     (let k = (if p \<ge> k_next_pid k then k\<lparr>k_next_pid := p + 1\<rparr> else k)
      in (p, insert_process p parent_pid name program_path arg jm space k))"

section \<open>Groups and sessions\<close>

datatype process_group_error =
  GroupErrMissing | NotChild | DifferentSession | SessionLeader | GroupMissing | GroupLeader

definition set_process_group ::
    "pid \<Rightarrow> pid \<Rightarrow> pid \<Rightarrow> kproc \<Rightarrow> (process_group_error + pid) \<times> kproc"
where
  "set_process_group caller_pid target_pid pgid k =
     (case get_process k caller_pid of
        None \<Rightarrow> (Inl GroupErrMissing, k)
      | Some caller \<Rightarrow>
     (case get_process k target_pid of
        None \<Rightarrow> (Inl GroupErrMissing, k)
      | Some target \<Rightarrow>
          if target_pid \<noteq> caller_pid \<and> p_parent_pid target \<noteq> Some caller_pid then (Inl NotChild, k)
          else if p_session_id target \<noteq> p_session_id caller then (Inl DifferentSession, k)
          else if p_session_id target = p_pid target then (Inl SessionLeader, k)
          else
            let pgid = (if pgid = 0 then target_pid else pgid)
            in if pgid \<noteq> target_pid \<and>
                  \<not> list_ex (\<lambda>q. p_session_id q = p_session_id caller \<and> p_process_group_id q = pgid)
                      (k_processes k)
               then (Inl GroupMissing, k)
               else (Inr pgid,
                     modify_process target_pid (\<lambda>q. q\<lparr>p_process_group_id := pgid\<rparr>) k)))"

definition create_session :: "pid \<Rightarrow> kproc \<Rightarrow> (process_group_error + pid) \<times> kproc" where
  "create_session p k =
     (case get_process k p of
        None \<Rightarrow> (Inl GroupErrMissing, k)
      | Some q \<Rightarrow>
          if p_process_group_id q = p then (Inl GroupLeader, k)
          else (Inr p, modify_process p (\<lambda>q. q\<lparr>p_session_id := p, p_process_group_id := p\<rparr>) k))"

section \<open>Creating threads\<close>

text \<open>
  The store of the process is replaced by the outcome of the insertion, which is the old store
  when the insertion is refused.
\<close>

definition create_thread :: "pid \<Rightarrow> kproc \<Rightarrow> tid option \<times> kproc" where
  "create_thread p k =
     (case get_process k p of
        None \<Rightarrow> (None, k)
      | Some q \<Rightarrow>
          let kind = (case p_kind q of KernelTask \<Rightarrow> TKernel | UserProcess \<Rightarrow> TUser);
              (tid, k) = reserve_tid k;
              (inserted, ts) = threads_insert (thread_new tid p kind) (p_threads q)
          in (if inserted then Some tid else None,
              modify_process p (\<lambda>q. q\<lparr>p_threads := ts\<rparr>) k))"

definition create_kernel_thread :: "kproc \<Rightarrow> tid option \<times> kproc" where
  "create_kernel_thread k =
     (case find (\<lambda>q. p_kind q = KernelTask) (k_processes k) of
        None \<Rightarrow> (None, k)
      | Some kp \<Rightarrow>
          let p = p_pid kp;
              (tid, k) = reserve_tid k
          in (case get_process k p of
                None \<Rightarrow> (None, k)
              | Some q \<Rightarrow>
                  let (inserted, ts) =
                        threads_insert ((thread_new tid p TKernel)\<lparr>t_state := TReady\<rparr>) (p_threads q)
                  in if \<not> inserted then (None, k)
                     else (Some tid,
                           modify_process p
                             (\<lambda>q. refresh_state_from_threads (q\<lparr>p_threads := ts\<rparr>)) k)))"

definition set_kernel_thread_state :: "u64 \<Rightarrow> tid \<Rightarrow> thread_state \<Rightarrow> kproc \<Rightarrow> bool \<times> kproc" where
  "set_kernel_thread_state now tid st k =
     (case get_by_tid k tid of
        None \<Rightarrow> (False, k)
      | Some p \<Rightarrow>
          if p_kind p \<noteq> KernelTask then (False, k)
          else
            (True, modify_by_tid tid (\<lambda>p. refresh_state_from_threads (modify_thread tid
               (\<lambda>t. let t = (if t_state t = TRunning \<and> st \<noteq> TRunning then stop_thread_run now t else t);
                        t = (if st = TRunning then start_thread_run now t else t)
                    in t\<lparr>t_state := st\<rparr>) p)) k))"

definition kernel_thread_state :: "kproc \<Rightarrow> tid \<Rightarrow> thread_state option" where
  "kernel_thread_state k tid =
     (case get_by_tid k tid of
        None \<Rightarrow> None
      | Some p \<Rightarrow>
          if p_kind p = KernelTask then map_option t_state (threads_get (p_threads p) tid) else None)"

definition kernel_thread_runtime_ticks :: "kproc \<Rightarrow> tid \<Rightarrow> u64 option" where
  "kernel_thread_runtime_ticks k tid =
     (case get_by_tid k tid of
        None \<Rightarrow> None
      | Some p \<Rightarrow>
          if p_kind p = KernelTask then map_option t_runtime_ticks (threads_get (p_threads p) tid)
          else None)"

definition entry_context :: "u64 \<Rightarrow> u64 \<Rightarrow> u64 \<Rightarrow> user_resume_context" where
  "entry_context entry initial_rsp arg =
     empty_context\<lparr>c_rip := entry, c_rsp := initial_rsp, c_rflags := 0x202, c_rdi := arg\<rparr>"

definition create_user_thread ::
    "pid \<Rightarrow> u64 \<Rightarrow> u64 \<Rightarrow> u64 \<Rightarrow> u64 \<Rightarrow> u64 \<Rightarrow> kproc \<Rightarrow> tid option \<times> kproc"
where
  "create_user_thread p entry stack_start stack_top initial_rsp arg k =
     (case get_process k p of
        None \<Rightarrow> (None, k)
      | Some q \<Rightarrow>
          if p_kind q \<noteq> UserProcess \<or> \<not> stack_range_available stack_start stack_top (p_threads q)
          then (None, k)
          else
            let (tid, k) = reserve_tid k;
                t = (with_user_stack stack_start stack_top (thread_new tid p TUser))
                      \<lparr>t_state := TReady,
                       t_resume_context := Some (entry_context entry initial_rsp arg)\<rparr>;
                (inserted, ts) = threads_insert t (p_threads q)
            in if \<not> inserted then (None, k)
               else (Some tid,
                     enqueue_ready tid
                       (modify_process p (\<lambda>q. refresh_state_from_threads (q\<lparr>p_threads := ts\<rparr>)) k)))"

definition create_managed_user_thread :: "pid \<Rightarrow> u64 \<Rightarrow> u64 \<Rightarrow> kproc \<Rightarrow> tid option \<times> kproc" where
  "create_managed_user_thread p entry arg k =
     (case get_process k p of
        None \<Rightarrow> (None, k)
      | Some q \<Rightarrow>
          if p_kind q \<noteq> UserProcess then (None, k)
          else
     (case as_p4_frame (p_address_space q) of
        None \<Rightarrow> (None, k)
      | Some p4_frame \<Rightarrow>
          let (rng, m) = reserve_private_thread_stack p4_frame
                           (l_stack_top (as_layout (p_address_space q))) (k_mm k);
              k = k\<lparr>k_mm := m\<rparr>
          in
     (case rng of
        None \<Rightarrow> (None, k)
      | Some (stack_start, stack_top) \<Rightarrow>
     (case checked_sub (stack_top AND NOT 0xF) 8 of
        None \<Rightarrow> (None, k)
      | Some initial_rsp \<Rightarrow>
          let (tid, k) = reserve_tid k;
              t = (with_kernel_managed_stack (with_user_stack stack_start stack_top (thread_new tid p TUser)))
                    \<lparr>t_state := TReady,
                     t_resume_context := Some (entry_context entry initial_rsp arg)\<rparr>;
              (inserted, ts) = threads_insert t (p_threads q)
          in if \<not> inserted then (None, release_stack_opt (Some (p4_frame, stack_top)) k)
             else (Some tid,
                   enqueue_ready tid
                     (modify_process p (\<lambda>q. refresh_state_from_threads (q\<lparr>p_threads := ts\<rparr>)) k))))))"

section \<open>Exit, join, block and wake\<close>

definition exit_thread :: "u64 \<Rightarrow> thread \<Rightarrow> thread" where
  "exit_thread now t =
     (stop_thread_run now t)\<lparr>t_state := TExited, t_resume_context := None, t_waiting_for := None\<rparr>"

definition waits_for :: "tid \<Rightarrow> thread \<Rightarrow> bool" where
  "waits_for tid t \<longleftrightarrow> t_state t = TBlocked \<and> t_waiting_for t = Some tid"

definition wake_joiner :: "tid \<Rightarrow> thread \<Rightarrow> thread" where
  "wake_joiner tid t =
     (if waits_for tid t then set_resume_rax 0 (t\<lparr>t_waiting_for := None, t_state := TReady\<rparr>) else t)"

definition mark_thread_exited :: "u64 \<Rightarrow> tid \<Rightarrow> kproc \<Rightarrow> pid option \<times> kproc" where
  "mark_thread_exited now tid k =
     (case get_by_tid k tid of
        None \<Rightarrow> (None, k)
      | Some p \<Rightarrow>
          if tid = main_tid p then (None, k)
          else
            let p1 = modify_thread tid (exit_thread now) p;
                woken = map t_tid (filter (waits_for tid) (ts_items (p_threads p1)));
                p2 = modify_all_threads (wake_joiner tid) p1;
                (reaped_stack, p3) =
                  (if woken \<noteq> []
                   then take_managed_stack_release tid (modify_thread tid (\<lambda>t. t\<lparr>t_state := TReaped\<rparr>) p2)
                   else (None, p2));
                k = modify_by_tid tid (\<lambda>_. refresh_state_from_threads p3) k;
                k = k\<lparr>k_ready_queue := filter (\<lambda>queued. queued \<noteq> tid) (k_ready_queue k)\<rparr>;
                k = fold enqueue_ready woken k
            in (Some (p_pid p3), release_stack_opt reaped_stack k))"

datatype thread_join_status =
  JoinMissing | JoinNotSibling | JoinSelf | JoinDeadlock | JoinAlreadyReaped | JoinCompleted | JoinBlocked

text \<open>
  The lookups that \<^verbatim>\<open>expect\<close> a result (of the target in its process, of the caller's process and
  of the caller in it) answer \<open>JoinMissing\<close> where the code would panic; a well-formed table has
  no such case.
\<close>

definition join_thread ::
    "u64 \<Rightarrow> tid \<Rightarrow> tid \<Rightarrow> user_resume_context \<Rightarrow> kproc \<Rightarrow> thread_join_status \<times> kproc"
where
  "join_thread now caller_tid target_tid ctx k =
     (if caller_tid = target_tid then (JoinSelf, k)
      else
     (case get_by_tid k caller_tid of
        None \<Rightarrow> (JoinMissing, k)
      | Some caller_process \<Rightarrow>
     (case get_by_tid k target_tid of
        None \<Rightarrow> (JoinMissing, k)
      | Some target_process \<Rightarrow>
          if p_pid target_process \<noteq> p_pid caller_process then (JoinNotSibling, k)
          else
     (case threads_get (p_threads target_process) target_tid of
        None \<Rightarrow> (JoinMissing, k)
      | Some target \<Rightarrow>
          if t_state target = TReaped then (JoinAlreadyReaped, k)
          else if t_waiting_for target = Some caller_tid then (JoinDeadlock, k)
          else
     (case get_process k (p_pid caller_process) of
        None \<Rightarrow> (JoinMissing, k)
      | Some process \<Rightarrow>
          if t_state target = TExited then
            let (r, p) = take_managed_stack_release target_tid
                  (modify_thread target_tid (\<lambda>t. t\<lparr>t_state := TReaped\<rparr>) process)
            in (JoinCompleted,
                release_stack_opt r (modify_process (p_pid caller_process) (\<lambda>_. p) k))
          else
     (case threads_get (p_threads process) caller_tid of
        None \<Rightarrow> (JoinMissing, k)
      | Some caller \<Rightarrow>
          if t_state caller \<noteq> TRunning then (JoinMissing, k)
          else
            (JoinBlocked,
             modify_process (p_pid caller_process)
               (\<lambda>p. refresh_state_from_threads (modify_thread caller_tid
                  (\<lambda>t. (stop_thread_run now t)
                         \<lparr>t_state := TBlocked, t_waiting_for := Some target_tid,
                          t_resume_context := Some ctx\<rparr>) p)) k)))))))"

definition block_thread :: "u64 \<Rightarrow> tid \<Rightarrow> user_resume_context \<Rightarrow> kproc \<Rightarrow> bool \<times> kproc" where
  "block_thread now tid ctx k =
     (case thread_of k tid of
        None \<Rightarrow> (False, k)
      | Some t \<Rightarrow>
          if t_state t \<noteq> TRunning then (False, k)
          else
            (True, modify_by_tid tid (\<lambda>p. refresh_state_from_threads (modify_thread tid
               (\<lambda>t. (stop_thread_run now t)
                      \<lparr>t_state := TBlocked, t_waiting_for := None, t_resume_context := Some ctx\<rparr>) p)) k))"

definition wake_thread :: "tid \<Rightarrow> u64 \<Rightarrow> kproc \<Rightarrow> bool \<times> kproc" where
  "wake_thread tid return_value k =
     (case thread_of k tid of
        None \<Rightarrow> (False, k)
      | Some t \<Rightarrow>
          if t_state t \<noteq> TBlocked then (False, k)
          else
     (case t_resume_context t of
        None \<Rightarrow> (False, k)
      | Some _ \<Rightarrow>
          (True, enqueue_ready tid
             (modify_by_tid tid (\<lambda>p. refresh_state_from_threads (modify_thread tid
                (\<lambda>t. (set_resume_rax return_value t)\<lparr>t_waiting_for := None, t_state := TReady\<rparr>) p)) k))))"

definition set_credentials :: "pid \<Rightarrow> credentials \<Rightarrow> kproc \<Rightarrow> bool \<times> kproc" where
  "set_credentials p creds k =
     (case get_process k p of
        None \<Rightarrow> (False, k)
      | Some _ \<Rightarrow> (True, modify_process p (\<lambda>q. q\<lparr>p_credentials := creds\<rparr>) k))"

section \<open>The invariant\<close>

lemma unat_less_max: "a \<noteq> - 1 \<Longrightarrow> unat (a :: 'a :: len word) + 1 < 2 ^ LENGTH('a)"
proof -
  assume a: "a \<noteq> - 1"
  have "unat (- 1 :: 'a word) = 2 ^ LENGTH('a) - 1"
    by (simp add: unsigned_minus_1_eq_mask mask_eq_exp_minus_1)
  with a have "unat a \<noteq> 2 ^ LENGTH('a) - 1" by (metis word_unat_eq_iff)
  moreover have "unat a < 2 ^ LENGTH('a)" by (rule unsigned_less)
  ultimately show ?thesis by linarith
qed

lemma saturating_Suc_gt: "a \<noteq> - 1 \<Longrightarrow> a < saturating_add a (1 :: 'a :: len word)"
  using unat_less_max[of a] by (simp add: word_less_nat_alt unat_saturating_add)

lemma word_Suc_gt: "a \<noteq> - 1 \<Longrightarrow> a < a + (1 :: 'a :: len word)"
  using unat_less_max[of a] unat_add_lem[of a 1] by (simp add: word_less_nat_alt)

lemma table_ok_store_insert:
  assumes ok: "table_ok k" and p: "p < k_next_pid k" and q: "p_pid q = p"
    "p_threads q = threads_with_main t" "t_tid t = k_next_tid k" "t_process_id t = p"
    and nt: "k_next_tid k < nt"
  shows "table_ok (store_insert p q (k\<lparr>k_next_tid := nt\<rparr>))"
proof -
  have th: "threads_ok p (p_threads q)" using threads_ok_with_main[of t] q by simp
  have tids: "tids_of (p_threads q) = [k_next_tid k]"
    using q by (simp add: threads_with_main_def tids_of_def)
  have g: "get_process (k\<lparr>k_next_tid := nt\<rparr>) p = get_process k p" by (simp add: get_process_def)
  have pid: "k\<lparr>k_next_pid := k_next_pid k, k_next_tid := nt\<rparr> = k\<lparr>k_next_tid := nt\<rparr>" by simp
  show ?thesis
  proof (cases "get_process k p")
    case None
    with table_ok_append[OF ok, of q "k_next_pid k" nt] p q(1) th tids nt less_imp_le[OF nt] g show ?thesis
      by (simp add: store_insert_def)
  next
    case (Some r)
    with table_ok_replace[OF ok Some, of "\<lambda>_. q" "k_next_pid k" nt] q(1) th tids nt less_imp_le[OF nt] g show ?thesis
      by (simp add: store_insert_def)
  qed
qed

text \<open>A table has PIDs and TIDs left as long as its counters have not reached their maximum.\<close>

definition ids_left :: "kproc \<Rightarrow> bool" where
  "ids_left k \<longleftrightarrow> k_next_pid k \<noteq> - 1 \<and> k_next_tid k \<noteq> - 1"

lemma table_ok_insert_process:
  assumes "table_ok k" "k_next_tid k \<noteq> - 1" "p < k_next_pid k"
  shows "table_ok (insert_process p pp nm path arg jm sp k)"
  unfolding insert_process_def reserve_tid_def Let_def case_prod_beta fst_conv snd_conv
  by (rule table_ok_store_insert[OF assms(1,3) _ _ _ _ saturating_Suc_gt[OF assms(2)]],
      simp, simp, simp_all add: with_user_stack_def thread_new_def)

lemma table_ok_next_pid:
  assumes "table_ok k" "k_next_pid k \<le> np"
  shows "table_ok (k\<lparr>k_next_pid := np\<rparr>)"
  using assms less_le_trans
  by (fastforce simp: table_ok_def idents_ok_def list_all_iff)

lemma table_ok_create_process:
  assumes "table_ok k" "ids_left k"
  shows "table_ok (snd (create_process_with_job_mode pp nm path arg jm sp k))"
proof -
  have "k_next_pid k < k_next_pid k + 1" using assms(2) by (simp add: ids_left_def word_Suc_gt)
  with assms show ?thesis
    by (simp add: create_process_with_job_mode_def reserve_pid_def ids_left_def
        table_ok_insert_process table_ok_next_pid)
qed

lemma table_ok_create_reserved:
  assumes "table_ok k" "ids_left k" "p \<noteq> - 1"
  shows "table_ok (snd (create_reserved_process_with_job_mode p pp nm path arg jm sp k))"
proof -
  have p: "p < p + 1" using assms(3) by (rule word_Suc_gt)
  show ?thesis
  proof (cases "k_next_pid k \<le> p")
    case True
    then have "k_next_pid k \<le> p + 1" using p by simp
    with True assms p show ?thesis
      by (simp add: create_reserved_process_with_job_mode_def ids_left_def
          table_ok_insert_process table_ok_next_pid)
  next
    case False
    with assms show ?thesis
      by (simp add: create_reserved_process_with_job_mode_def ids_left_def table_ok_insert_process)
  qed
qed

lemma table_ok_set_process_group [simp]: "table_ok (snd (set_process_group c t g k)) = table_ok k"
  by (simp add: set_process_group_def Let_def split: option.split)

lemma table_ok_create_session [simp]: "table_ok (snd (create_session p k)) = table_ok k"
  by (simp add: create_session_def split: option.split)

text \<open>
  The three ways a thread joins its process: the store of the process becomes the outcome of the
  insertion, with or without a refresh of the process state.
\<close>

lemma table_ok_insert_thread:
  assumes ok: "table_ok k" and q: "get_process k p = Some q" and left: "k_next_tid k \<noteq> - 1"
    and ins: "threads_insert t (p_threads q) = (b, ts)"
    and t: "t_tid t = k_next_tid k"
    and g: "\<And>r. process_ident (g r) = process_ident r"
  shows "table_ok (modify_process p (\<lambda>r. g (r\<lparr>p_threads := ts\<rparr>)) (snd (reserve_tid k)))"
proof -
  let ?nt = "saturating_add (k_next_tid k) 1" and ?f = "\<lambda>r. g (r\<lparr>p_threads := ts\<rparr>)"
  have gt: "k_next_tid k < ?nt" using left by (rule saturating_Suc_gt)
  have fq: "p_pid (?f q) = p" "p_threads (?f q) = ts \<longrightarrow> True"
    using g[of "q\<lparr>p_threads := ts\<rparr>"] get_process_SomeD[OF q] by (auto simp: process_ident_def)
  have th: "threads_ok p ts"
    using threads_insert_ok[OF table_ok_threads[OF ok]] get_process_SomeD[OF q] ins by blast
  have id: "process_ident (?f q) = process_ident (q\<lparr>p_threads := ts\<rparr>)" by (rule g)
  have tok: "threads_ok p (p_threads (?f q))"
    using th id ident_ok_iff[of "?f q"] ident_ok_iff[of "q\<lparr>p_threads := ts\<rparr>"] fq(1)
      get_process_SomeD[OF q] by simp
  have tids: "tids_of (p_threads (?f q)) = tids_of ts"
    using arg_cong[OF id, of ident_tids] by simp
  have new: "x < ?nt \<and> (x \<in> set (tids_of (p_threads q)) \<or> k_next_tid k \<le> x)" if "x \<in> set (tids_of ts)" for x
  proof (cases "x \<in> set (tids_of (p_threads q))")
    case True
    then have "x < k_next_tid k" using table_ok_tid_less[OF ok] get_process_SomeD[OF q] by blast
    with True gt show ?thesis by simp
  next
    case False
    with that have "b \<and> x = t_tid t"
      using ins threads_insert_refused[of t "p_threads q" ts] threads_insert_tids[of t "p_threads q" ts]
      by (cases b) auto
    with t gt show ?thesis by simp
  qed
  have "table_ok (modify_process p ?f (k\<lparr>k_next_pid := k_next_pid k, k_next_tid := ?nt\<rparr>))"
    by (rule table_ok_replace[where f = ?f, OF ok q fq(1) tok _ less_imp_le[OF gt]])
      (simp_all add: tids new)
  then show ?thesis by (simp add: reserve_tid_def)
qed

lemma table_ok_create_thread:
  assumes "table_ok k" "k_next_tid k \<noteq> - 1"
  shows "table_ok (snd (create_thread p k))"
proof (cases "get_process k p")
  case (Some q)
  let ?t = "thread_new (k_next_tid k) p (case p_kind q of KernelTask \<Rightarrow> TKernel | UserProcess \<Rightarrow> TUser)"
  obtain b ts where ins: "threads_insert ?t (p_threads q) = (b, ts)" by (cases "threads_insert ?t (p_threads q)")
  have "table_ok (modify_process p (\<lambda>r. r\<lparr>p_threads := ts\<rparr>) (snd (reserve_tid k)))"
    using table_ok_insert_thread[OF assms(1) Some assms(2) ins, of "\<lambda>r. r"] by (simp add: thread_new_def)
  with Some ins show ?thesis by (simp add: create_thread_def reserve_tid_def)
qed (use assms in \<open>simp add: create_thread_def\<close>)

lemma get_process_reserve_tid [simp]:
  "get_process (snd (reserve_tid k)) p = get_process k p" "fst (reserve_tid k) = k_next_tid k"
  by (simp_all add: reserve_tid_def get_process_def)

lemma table_ok_create_kernel_thread:
  assumes ok: "table_ok k" and left: "k_next_tid k \<noteq> - 1"
  shows "table_ok (snd (create_kernel_thread k))"
proof (cases "find (\<lambda>q. p_kind q = KernelTask) (k_processes k)")
  case (Some kp)
  have res: "table_ok (snd (reserve_tid k))" using ok by (rule table_ok_reserve_tid)
  show ?thesis
  proof (cases "get_process k (p_pid kp)")
    case None
    with Some res show ?thesis by (simp add: create_kernel_thread_def case_prod_beta Let_def)
  next
    case q: (Some q)
    let ?t = "(thread_new (k_next_tid k) (p_pid kp) TKernel)\<lparr>t_state := TReady\<rparr>"
    obtain b ts where ins: "threads_insert ?t (p_threads q) = (b, ts)"
      by (cases "threads_insert ?t (p_threads q)")
    have "table_ok (modify_process (p_pid kp) (\<lambda>r. refresh_state_from_threads (r\<lparr>p_threads := ts\<rparr>))
        (snd (reserve_tid k)))"
      by (rule table_ok_insert_thread[OF ok q left ins]) (simp_all add: thread_new_def)
    with Some q ins res show ?thesis by (simp add: create_kernel_thread_def case_prod_beta Let_def)
  qed
qed (use ok in \<open>simp add: create_kernel_thread_def\<close>)

lemma table_ok_set_kernel_thread_state [simp]:
  "table_ok (snd (set_kernel_thread_state now t s k)) = table_ok k"
  by (simp add: set_kernel_thread_state_def Let_def split: option.split)

lemma table_ok_create_user_thread:
  assumes ok: "table_ok k" and left: "k_next_tid k \<noteq> - 1"
  shows "table_ok (snd (create_user_thread p entry lo hi rsp arg k))"
proof (cases "get_process k p")
  case (Some q)
  let ?t = "(with_user_stack lo hi (thread_new (k_next_tid k) p TUser))
    \<lparr>t_state := TReady, t_resume_context := Some (entry_context entry rsp arg)\<rparr>"
  obtain b ts where ins: "threads_insert ?t (p_threads q) = (b, ts)" by (cases "threads_insert ?t (p_threads q)")
  have "table_ok (modify_process p (\<lambda>r. refresh_state_from_threads (r\<lparr>p_threads := ts\<rparr>)) (snd (reserve_tid k)))"
    by (rule table_ok_insert_thread[OF ok Some left ins]) (simp_all add: thread_new_def with_user_stack_def)
  with Some ins ok table_ok_reserve_tid[OF ok] show ?thesis
    by (simp add: create_user_thread_def case_prod_beta Let_def)
qed (use ok in \<open>simp add: create_user_thread_def\<close>)

lemma table_ok_create_managed_user_thread:
  assumes ok: "table_ok k" and left: "k_next_tid k \<noteq> - 1"
  shows "table_ok (snd (create_managed_user_thread p entry arg k))"
proof (cases "get_process k p")
  case (Some q)
  show ?thesis
  proof (cases "as_p4_frame (p_address_space q)")
    case None
    with Some ok show ?thesis by (simp add: create_managed_user_thread_def)
  next
    case f: (Some f)
    define r where "r = reserve_private_thread_stack f (l_stack_top (as_layout (p_address_space q))) (k_mm k)"
    define k1 where "k1 = k\<lparr>k_mm := snd r\<rparr>"
    have ok1: "table_ok k1" unfolding k1_def r_def using ok by (rule table_ok_reserve_stack)
    have g: "get_process k1 p = Some q" "k_next_tid k1 = k_next_tid k"
      using Some by (simp_all add: k1_def get_process_def)
    have ins: "table_ok (modify_process p
        (\<lambda>x. refresh_state_from_threads (x\<lparr>p_threads := snd (threads_insert t (p_threads q))\<rparr>))
        (snd (reserve_tid k1)))" if "t_tid t = k_next_tid k" for t
      by (rule table_ok_insert_thread[OF ok1 g(1)]) (use left g(2) that in \<open>simp_all add: prod_eq_iff\<close>)
    show ?thesis
      using Some f ok ok1 table_ok_reserve_tid[OF ok1] ins g(2)
      by (auto simp: create_managed_user_thread_def case_prod_beta Let_def r_def[symmetric] k1_def[symmetric]
          with_user_stack_def with_kernel_managed_stack_def thread_new_def split: option.split)
  qed
qed (use ok in \<open>simp add: create_managed_user_thread_def\<close>)

lemma table_ok_fold_enqueue [simp]: "table_ok (fold enqueue_ready ts k) = table_ok k"
  by (induction ts arbitrary: k) simp_all

lemma thread_ident_exit [simp]: "thread_ident (exit_thread now t) = thread_ident t"
  by (simp add: exit_thread_def)

lemma thread_ident_wake_joiner [simp]: "thread_ident (wake_joiner tid t) = thread_ident t"
  by (simp add: wake_joiner_def)

lemma table_ok_mark_thread_exited:
  assumes "table_ok k"
  shows "table_ok (snd (mark_thread_exited now tid k))"
  using assms
  by (auto simp: mark_thread_exited_def Let_def case_prod_beta table_ok_write_back table_ok_queue
      table_ok_distinct_queue split: option.split)

lemma table_ok_join_thread:
  assumes "table_ok k"
  shows "table_ok (snd (join_thread now c t ctx k))"
  using assms
  by (auto simp: join_thread_def Let_def case_prod_beta table_ok_write_back split: option.split)

lemma table_ok_block_thread [simp]: "table_ok (snd (block_thread now t ctx k)) = table_ok k"
  by (simp add: block_thread_def split: option.split)

lemma table_ok_wake_thread [simp]: "table_ok (snd (wake_thread t v k)) = table_ok k"
  by (simp add: wake_thread_def split: option.split)

lemma table_ok_set_credentials [simp]: "table_ok (snd (set_credentials p c k)) = table_ok k"
  by (simp add: set_credentials_def split: option.split)

section \<open>Blocking and waking\<close>

lemma thread_of_block:
  assumes "block_thread now t ctx k = (True, k1)"
  obtains x where "thread_of k t = Some x" "t_state x = TRunning" "k_ready_queue k1 = k_ready_queue k"
    "\<forall>u. thread_of k1 u = (if u = t then Some ((stop_thread_run now x)
        \<lparr>t_state := TBlocked, t_waiting_for := None, t_resume_context := Some ctx\<rparr>) else thread_of k u)"
proof -
  let ?h = "\<lambda>x. (stop_thread_run now x)\<lparr>t_state := TBlocked, t_waiting_for := None, t_resume_context := Some ctx\<rparr>"
  from assms obtain x where x: "thread_of k t = Some x" "t_state x = TRunning"
    and k1: "k1 = modify_by_tid t (\<lambda>p. refresh_state_from_threads (modify_thread t ?h p)) k"
    by (auto simp: block_thread_def split: option.splits if_splits)
  have "thread_of k1 u = (if u = t then Some (?h x) else thread_of k u)" for u
    unfolding k1 by (subst thread_of_modify_by_tid[where h = ?h])
      (simp_all add: modify_thread_def x stop_thread_run_def split: option.split)
  with x k1 show ?thesis by (intro that) simp_all
qed

lemma thread_of_wake:
  assumes "thread_of k t = Some x" "t_state x = TBlocked" "t_resume_context x = Some ctx"
  shows "\<exists>k'. wake_thread t v k = (True, k') \<and> t \<in> set (k_ready_queue k') \<and>
    (\<forall>u. thread_of k' u = (if u = t then Some (x\<lparr>t_resume_context := Some (ctx\<lparr>c_rax := v\<rparr>),
        t_waiting_for := None, t_state := TReady\<rparr>) else thread_of k u))"
proof -
  let ?h = "\<lambda>x. (set_resume_rax v x)\<lparr>t_waiting_for := None, t_state := TReady\<rparr>"
  let ?k1 = "modify_by_tid t (\<lambda>p. refresh_state_from_threads (modify_thread t ?h p)) k"
  have "thread_of ?k1 u = (if u = t then Some (?h x) else thread_of k u)" for u
    by (subst thread_of_modify_by_tid[where h = ?h])
      (simp_all add: modify_thread_def assms(1) set_resume_rax_def)
  moreover have "t \<in> set (k_ready_queue (enqueue_ready t ?k1))" by (simp add: enqueue_ready_def)
  ultimately show ?thesis using assms by (simp add: wake_thread_def set_resume_rax_def)
qed

text \<open>
  C8: a blocked thread resumes exactly where it stopped.  A thread that blocked with a saved
  context can be woken, is then ready and queued with that context and the waker's value in
  \<^verbatim>\<open>rax\<close>, and no other thread of the table changes.
\<close>

theorem block_then_wake:
  assumes "block_thread now t ctx k = (True, k1)"
  shows "\<exists>k2 x. wake_thread t v k1 = (True, k2) \<and> t \<in> set (k_ready_queue k2) \<and>
    thread_of k2 t = Some x \<and> t_state x = TReady \<and> t_waiting_for x = None \<and>
    t_resume_context x = Some (ctx\<lparr>c_rax := v\<rparr>) \<and> (\<forall>u. u \<noteq> t \<longrightarrow> thread_of k2 u = thread_of k u)"
proof -
  from assms obtain x where b: "\<forall>u. thread_of k1 u = (if u = t then Some ((stop_thread_run now x)
      \<lparr>t_state := TBlocked, t_waiting_for := None, t_resume_context := Some ctx\<rparr>) else thread_of k u)"
    by (rule thread_of_block)
  from thread_of_wake[of k1 t _ ctx v] b show ?thesis by auto
qed

section \<open>Exit and join\<close>

lemma join_blockedD:
  assumes ok: "table_ok k" and j: "join_thread now c t ctx k = (JoinBlocked, k1)"
  obtains p x where "get_by_tid k c = Some p" "t \<in> set (tids_of (p_threads p))" "c \<noteq> t"
    "threads_get (p_threads p) c = Some x"
    "k1 = modify_by_tid c (\<lambda>p. refresh_state_from_threads (modify_thread c
       (\<lambda>x. (stop_thread_run now x)\<lparr>t_state := TBlocked, t_waiting_for := Some t, t_resume_context := Some ctx\<rparr>) p)) k"
    "t_waiting_for (the (threads_get (p_threads p) t)) \<noteq> Some c"
proof -
  from j obtain p q y x where
    p: "get_by_tid k c = Some p" and q: "get_by_tid k t = Some q" "p_pid q = p_pid p"
    and y: "threads_get (p_threads q) t = Some y" "t_waiting_for y \<noteq> Some c"
    and x: "get_process k (p_pid p) \<noteq> None" "threads_get (p_threads (the (get_process k (p_pid p)))) c = Some x"
    and ct: "c \<noteq> t"
    and k1: "k1 = modify_process (p_pid p) (\<lambda>p. refresh_state_from_threads (modify_thread c
       (\<lambda>x. (stop_thread_run now x)\<lparr>t_state := TBlocked, t_waiting_for := Some t, t_resume_context := Some ctx\<rparr>) p)) k"
    by (auto simp: join_thread_def Let_def case_prod_beta split: option.splits if_splits)
  have g: "get_process k (p_pid p) = Some p" and gq: "get_process k (p_pid q) = Some q"
    using get_process_iff[OF ok] get_by_tid_SomeD[OF p] get_by_tid_SomeD[OF q(1)] by blast+
  with q(2) have "q = p" by simp
  then show ?thesis
    using that[of p x] p get_by_tid_SomeD[OF q(1)] ct x g k1 y modify_by_tid_process[OF ok p] by simp
qed

lemma thread_of_fold_enqueue [simp]: "thread_of (fold enqueue_ready ts k) t = thread_of k t"
  by (induction ts arbitrary: k) simp_all

lemma thread_of_release_stack [simp]: "thread_of (release_stack_opt r k) t = thread_of k t"
  by (simp add: release_stack_opt_def split: option.split prod.split)

lemma queue_release_stack [simp]: "k_ready_queue (release_stack_opt r k) = k_ready_queue k"
  by (simp add: release_stack_opt_def split: option.split prod.split)

lemma set_fold_enqueue: "set (k_ready_queue (fold enqueue_ready ts k)) = set (k_ready_queue k) \<union> set ts"
  by (induction ts arbitrary: k) (auto simp: enqueue_ready_def)

lemma threads_get_take_managed:
  "threads_get (p_threads (snd (take_managed_stack_release t p))) u =
   (if u = t \<and> fst (take_managed_stack_release t p) \<noteq> None
    then map_option (\<lambda>x. x\<lparr>t_user_stack_top := None, t_user_stack_start := None, t_kernel_managed_stack := False\<rparr>)
      (threads_get (p_threads p) t)
    else threads_get (p_threads p) u)"
  by (auto simp: take_managed_stack_release_def threads_get_modify_thread split: option.split bool.split)

lemma t_tid_exit [simp]: "t_tid (exit_thread now t) = t_tid t"
  using thread_ident_exit[of now t] by (simp add: thread_ident_def)

lemma t_tid_wake_joiner [simp]: "t_tid (wake_joiner u t) = t_tid t"
  using thread_ident_wake_joiner[of u t] by (simp add: thread_ident_def)

text \<open>An exiting thread never waits for itself.\<close>

lemma exit_not_woken:
  assumes "threads_ok q (p_threads p)"
  shows "t \<notin> set (map t_tid (filter (waits_for t) (ts_items (p_threads (modify_thread t (exit_thread now) p)))))"
proof
  let ?p = "modify_thread t (exit_thread now) p"
  have ok: "threads_ok q (p_threads ?p)"
    unfolding modify_thread_def
    using assms by (simp add: threads_ok_modify exit_thread_def stop_thread_run_def split: option.split)
  assume "t \<in> set (map t_tid (filter (waits_for t) (ts_items (p_threads ?p))))"
  then obtain z where z: "z \<in> set (ts_items (p_threads ?p))" "t_tid z = t" "waits_for t z" by auto
  then have "threads_get (p_threads ?p) t = Some z" using threads_get_iff[OF ok] by blast
  then have "map_option (exit_thread now) (threads_get (p_threads p) t) = Some z"
    using threads_get_modify_thread[of "exit_thread now" t p t] by simp
  then have "t_state z = TExited" by (auto simp: exit_thread_def)
  with z(3) show False by (simp add: waits_for_def)
qed

text \<open>What an exit that finds a joiner does to the joiner and to the exiting thread.\<close>

lemma mark_thread_exited_woken:
  assumes ok: "table_ok k" and p: "get_by_tid k t = Some p" and main: "t \<noteq> main_tid p"
    and c: "threads_get (p_threads p) c = Some x" "waits_for t x" "c \<noteq> t"
  shows "\<exists>k' y. mark_thread_exited now t k = (Some (p_pid p), k') \<and>
    thread_of k' c = Some (wake_joiner t x) \<and> c \<in> set (k_ready_queue k') \<and>
    thread_of k' t = Some y \<and> t_state y = TReaped \<and> t \<notin> set (k_ready_queue k')"
proof -
  define p1 where "p1 = modify_thread t (exit_thread now) p"
  define woken where "woken = map t_tid (filter (waits_for t) (ts_items (p_threads p1)))"
  define p2 where "p2 = modify_thread t (\<lambda>x. x\<lparr>t_state := TReaped\<rparr>) (modify_all_threads (wake_joiner t) p1)"
  define r where "r = take_managed_stack_release t p2"
  define k' where "k' = release_stack_opt (fst r) (fold enqueue_ready woken
    ((modify_by_tid t (\<lambda>_. refresh_state_from_threads (snd r)) k)
       \<lparr>k_ready_queue := filter (\<lambda>q. q \<noteq> t) (k_ready_queue k)\<rparr>))"
  have id: "process_ident (snd r) = process_ident p" by (simp add: r_def p2_def p1_def)
  have tp: "t \<in> set (tids_of (p_threads p))" using get_by_tid_SomeD[OF p] by simp
  have cp: "c \<in> set (tids_of (p_threads p))" using c(1) threads_get_None_iff[of "p_threads p" c] by simp
  have c1: "threads_get (p_threads p1) c = Some x"
    using c by (simp add: p1_def threads_get_modify_thread)
  from tp obtain y where y: "threads_get (p_threads p) t = Some y"
    using threads_get_None_iff[of "p_threads p" t] by (cases "threads_get (p_threads p) t") auto
  have t1: "threads_get (p_threads p1) t = Some (exit_thread now y)"
    using y by (simp add: p1_def threads_get_modify_thread)
  have cw: "c \<in> set woken" using threads_get_SomeD[OF c1] c(2) by (force simp: woken_def)
  have "threads_ok (p_pid p) (p_threads p)" using table_ok_threads[OF ok] get_by_tid_SomeD[OF p] by simp
  then have tw: "t \<notin> set woken" unfolding woken_def p1_def by (rule exit_not_woken)
  have "p_pid (snd r) = p_pid p" using id by (simp add: process_ident_def)
  moreover have "filter (waits_for t) (ts_items (p_threads p1)) \<noteq> []" using cw by (auto simp: woken_def filter_empty_conv)
  ultimately have ex: "mark_thread_exited now t k = (Some (p_pid p), k')"
    using main
    by (simp add: mark_thread_exited_def p Let_def case_prod_beta p1_def[symmetric] woken_def[symmetric]
        p2_def[symmetric] r_def[symmetric] k'_def)
  have th: "thread_of k' u = threads_get (p_threads (snd r)) u" if "u \<in> set (tids_of (p_threads p))" for u
    using thread_of_write_back[OF ok p, of "refresh_state_from_threads (snd r)" u] id that by (simp add: k'_def)
  have "thread_of k' c = Some (wake_joiner t x)"
    using c(3) c1
    by (simp add: th[OF cp] r_def threads_get_take_managed p2_def threads_get_modify_thread threads_get_modify_all)
  moreover have "\<exists>y. thread_of k' t = Some y \<and> t_state y = TReaped"
    using t1
    by (simp add: th[OF tp] r_def threads_get_take_managed p2_def threads_get_modify_thread threads_get_modify_all)
  moreover have "set (k_ready_queue k') = (set (k_ready_queue k) - {t}) \<union> set woken"
    by (auto simp: k'_def set_fold_enqueue)
  ultimately show ?thesis using ex cw tw by auto
qed

text \<open>
  C7: a join completes when its target exits.  After a thread blocked in a join, the exit of
  the target makes the joiner ready and queued, with its saved context and \<^verbatim>\<open>rax = 0\<close>, and reaps the
  target, which is no longer queued.
\<close>

theorem join_then_exit:
  assumes ok: "table_ok k" and join: "join_thread now c t ctx k = (JoinBlocked, k1)"
    and main: "\<forall>p. get_by_tid k t = Some p \<longrightarrow> main_tid p \<noteq> t"
  shows "\<exists>q k2 x y. mark_thread_exited now' t k1 = (Some q, k2) \<and>
    thread_of k2 c = Some x \<and> t_state x = TReady \<and> t_waiting_for x = None \<and>
    t_resume_context x = Some (ctx\<lparr>c_rax := 0\<rparr>) \<and> c \<in> set (k_ready_queue k2) \<and>
    thread_of k2 t = Some y \<and> t_state y = TReaped \<and> t \<notin> set (k_ready_queue k2)"
proof -
  let ?h = "\<lambda>x. (stop_thread_run now x)\<lparr>t_state := TBlocked, t_waiting_for := Some t, t_resume_context := Some ctx\<rparr>"
  let ?f = "\<lambda>p. refresh_state_from_threads (modify_thread c ?h p)"
  from join_blockedD[OF ok join] obtain p x where p: "get_by_tid k c = Some p"
    "t \<in> set (tids_of (p_threads p))" "c \<noteq> t" "threads_get (p_threads p) c = Some x"
    and k1: "k1 = modify_by_tid c ?f k" by metis
  have id: "process_ident (?f q) = process_ident q" for q by simp
  have ok1: "table_ok k1" using ok k1 by simp
  have tid: "t_tid (?h y) = t_tid y" for y by (simp add: stop_thread_run_def split: option.split)
  have gt: "get_by_tid k t = Some p" using get_by_tid_iff[OF ok] get_by_tid_SomeD[OF p(1)] p(2) by blast
  have q: "get_process k (p_pid p) = Some p" using get_process_iff[OF ok] get_by_tid_SomeD[OF p(1)] by blast
  define p' where "p' = ?f p"
  have idp: "process_ident p' = process_ident p" unfolding p'_def by (rule id)
  have "get_process k1 (p_pid p) = Some p'"
    unfolding k1 modify_by_tid_process[OF ok p(1)] p'_def using q id
    by (subst process_items.get_modify) (simp_all add: process_ident_def)
  then have p1: "p' \<in> set (k_processes k1)" using get_process_SomeD by blast
  have tp: "t \<in> set (tids_of (p_threads p'))" using p(2) idp by (metis ident_tids_process)
  have g1: "get_by_tid k1 t = Some p'" using get_by_tid_iff[OF ok1] p1 tp by simp
  have mt: "t \<noteq> main_tid p'" using main gt idp by (auto simp: process_ident_def)
  have xc: "threads_get (p_threads p') c = Some (?h x)"
    unfolding p'_def using p(4) tid by (simp add: threads_get_modify_thread)
  have "waits_for t (?h x)" by (simp add: waits_for_def)
  then show ?thesis
    using mark_thread_exited_woken[OF ok1 g1 mt xc _ p(3), of now']
    by (auto simp: wake_joiner_def set_resume_rax_def waits_for_def)
qed

section \<open>Fresh identities\<close>


section \<open>A concrete table\<close>

text \<open>One running process with a second, ready thread.\<close>

definition example_pool :: p4_pool where
  "example_pool = \<lparr>pool_slots = map (\<lambda>f. p4_slot_EMPTY\<lparr>s_p4_frame := f\<rparr>) [1, 2, 3, 4, 5, 6, 7, 8], pool_count = 2\<rparr>"

definition example_mem :: mm where
  "example_mem = \<lparr>mm_pool = example_pool, mm_kernel_p4 = Some 0x1000, mm_offset = Some 0x18000000000,
     mm_offset_value = 0, mm_mem = (\<lambda>a. 7)\<rparr>"

definition example_process :: "pid \<Rightarrow> pid option \<Rightarrow> process_state \<Rightarrow> tid \<Rightarrow> thread list \<Rightarrow> process" where
  "example_process p pp s m ts =
     \<lparr>p_pid = p, p_parent_pid = pp, p_process_group_id = p, p_session_id = p, p_name = str ''sh'',
      p_program_path = str ''/bin/sh'', p_kind = UserProcess,
      p_threads = \<lparr>ts_main_tid = m, ts_items = ts\<rparr>, p_credentials = credentials_root,
      p_arg = arg_empty, p_cwd = np_root, p_job_mode = Foreground, p_state = s,
      p_address_space = as_kernel_shared_user FIRST_USER_ENTRY (memory_layout_for_pid p),
      p_file_handles = [], p_exit_status = None, p_waiting_for = None, p_sleeping_until_tick = None,
      p_pending_signals = 0, p_blocked_signals = 0, p_sigterm_disposition = SIG_DFL\<rparr>"

definition example_table :: "process list \<Rightarrow> tid list \<Rightarrow> pid \<Rightarrow> tid \<Rightarrow> kproc" where
  "example_table ps queue np nt =
     (kproc_new example_mem)\<lparr>k_processes := ps, k_ready_queue := queue, k_next_pid := np, k_next_tid := nt\<rparr>"

definition running_thread :: "tid \<Rightarrow> pid \<Rightarrow> thread" where
  "running_thread t p = (thread_new t p TUser)\<lparr>t_state := TRunning, t_last_started_tick := Some 5\<rparr>"

definition ready_thread :: "tid \<Rightarrow> pid \<Rightarrow> u64 \<Rightarrow> thread" where
  "ready_thread t p rip = (thread_new t p TUser)
     \<lparr>t_state := TReady, t_resume_context := Some (empty_context\<lparr>c_rip := rip\<rparr>)\<rparr>"

definition example_two :: kproc where
  "example_two = example_table
     [example_process 1 None PRunning 1 [running_thread 1 1, ready_thread 2 1 0x2000]] [2] 2 3"

lemma example_pool_ok: "pool_ok example_pool"
  by code_simp

lemmas example_defs = example_process_def example_table_def running_thread_def ready_thread_def
  kproc_new_def example_mem_def thread_new_def

lemmas table_ok_eval = table_ok_def idents_ok_def table_ident_def process_ident_def thread_ident_def
  ident_ok_def ident_tids_def MAX_THREADS_PER_PROCESS_def example_pool_ok

lemmas lookup_eval = thread_of_def get_by_tid_def has_tid_def threads_get_def get_process_def

lemma example_two_ok: "table_ok example_two"
  by (simp add: example_two_def example_defs table_ok_eval)


theorem block_then_wake_witness:
  "\<exists>k1 k2 x. block_thread 9 1 (empty_context\<lparr>c_rip := 0x1234\<rparr>) example_two = (True, k1) \<and>
     wake_thread 1 42 k1 = (True, k2) \<and> thread_of k2 1 = Some x \<and>
     t_resume_context x = Some (empty_context\<lparr>c_rip := 0x1234, c_rax := 42\<rparr>)"
proof -
  let ?r = "block_thread 9 1 (empty_context\<lparr>c_rip := 0x1234\<rparr>) example_two"
  have "fst ?r" by (simp add: block_thread_def lookup_eval example_two_def example_defs)
  then have r: "?r = (True, snd ?r)" by (simp add: prod_eq_iff)
  from block_then_wake[OF r, of 42] r show ?thesis by metis
qed

theorem join_then_exit_witness:
  "\<exists>k1 q k2 x. join_thread 9 1 2 (empty_context\<lparr>c_rip := 0x1234\<rparr>) example_two = (JoinBlocked, k1) \<and>
     mark_thread_exited 11 2 k1 = (Some q, k2) \<and> thread_of k2 1 = Some x \<and> t_state x = TReady \<and>
     t_resume_context x = Some (empty_context\<lparr>c_rip := 0x1234, c_rax := 0\<rparr>)"
proof -
  let ?r = "join_thread 9 1 2 (empty_context\<lparr>c_rip := 0x1234\<rparr>) example_two"
  have "fst ?r = JoinBlocked" by (simp add: join_thread_def lookup_eval example_two_def example_defs)
  then have r: "?r = (JoinBlocked, snd ?r)" by (simp add: prod_eq_iff)
  have "\<forall>p. get_by_tid example_two 2 = Some p \<longrightarrow> main_tid p \<noteq> 2"
    by (simp add: lookup_eval example_two_def example_defs)
  from join_then_exit[OF example_two_ok r this, of 11] r show ?thesis by metis
qed

end
