(* ===== verification/Process_Lifecycle.thy ===== *)
theory Process_Lifecycle
  imports Process_Threads
begin

text \<open>
  The life cycle of a process (\<^verbatim>\<open>ProcessTable\<close> of \<^verbatim>\<open>kernel/src/user/process.rs\<close>): becoming ready,
  running, exited and reaped, waiting for a child, sleeping, the reapers and the compaction of the
  reaped history.
\<close>

section \<open>State changes\<close>

definition mark_ready :: "pid \<Rightarrow> kproc \<Rightarrow> kproc" where
  "mark_ready p k =
     (case get_process k p of
        None \<Rightarrow> k
      | Some q \<Rightarrow> enqueue_ready (main_tid q) (modify_process p (set_state PReady) k))"

definition mark_running :: "u64 \<Rightarrow> pid \<Rightarrow> kproc \<Rightarrow> kproc" where
  "mark_running now p k = start_process_run now p (remove_from_ready_queue p k)"

definition mark_running_fresh :: "u64 \<Rightarrow> pid \<Rightarrow> kproc \<Rightarrow> kproc" where
  "mark_running_fresh now p k = start_process_run now p k"

definition mark_exited :: "u64 \<Rightarrow> pid \<Rightarrow> u64 \<Rightarrow> kproc \<Rightarrow> kproc" where
  "mark_exited now p status k =
     (let k = remove_from_ready_queue p k
      in case get_process k p of
           None \<Rightarrow> k
         | Some q \<Rightarrow>
             modify_process p
               (\<lambda>q. set_state (if p_parent_pid q \<noteq> None then PZombie else PExited)
                      (q\<lparr>p_exit_status := Some status, p_sleeping_until_tick := None\<rparr>))
               (stop_process_run now p k))"

definition mark_reaped :: "u64 \<Rightarrow> pid \<Rightarrow> kproc \<Rightarrow> bool \<times> kproc" where
  "mark_reaped now p k =
     (let k = remove_from_ready_queue p k
      in case get_process k p of
           None \<Rightarrow> (False, k)
         | Some _ \<Rightarrow>
             (True, modify_process p
               (\<lambda>q. let q = set_state PReaped q;
                        q = q\<lparr>p_exit_status := (case p_exit_status q of None \<Rightarrow> Some 0 | s \<Rightarrow> s),
                              p_waiting_for := None, p_sleeping_until_tick := None\<rparr>
                    in modify_main (\<lambda>t. t\<lparr>t_resume_context := None\<rparr>) q)
               (stop_process_run now p k)))"

definition mark_waiting :: "u64 \<Rightarrow> pid \<Rightarrow> pid \<Rightarrow> user_resume_context \<Rightarrow> kproc \<Rightarrow> bool \<times> kproc" where
  "mark_waiting now p child_pid ctx k =
     (let k = remove_from_ready_queue p k
      in case get_process k p of
           None \<Rightarrow> (False, k)
         | Some _ \<Rightarrow>
             (True, modify_process p
               (\<lambda>q. set_state PBlocked
                      (modify_main (\<lambda>t. t\<lparr>t_resume_context := Some ctx\<rparr>)
                        (q\<lparr>p_waiting_for := Some child_pid, p_sleeping_until_tick := None\<rparr>)))
               (stop_process_run now p k)))"

definition mark_sleeping :: "u64 \<Rightarrow> pid \<Rightarrow> u64 \<Rightarrow> user_resume_context \<Rightarrow> kproc \<Rightarrow> bool \<times> kproc" where
  "mark_sleeping now p wake_tick ctx k =
     (let k = remove_from_ready_queue p k
      in case get_process k p of
           None \<Rightarrow> (False, k)
         | Some q \<Rightarrow>
             if p_state q \<noteq> PRunning then (False, k)
             else
               (True, modify_process p
                 (\<lambda>q. set_state PBlocked
                        (modify_main (\<lambda>t. t\<lparr>t_resume_context := Some ctx\<rparr>)
                          (q\<lparr>p_waiting_for := None, p_sleeping_until_tick := Some wake_tick\<rparr>)))
                 (stop_process_run now p k)))"

definition mark_thread_yielded :: "u64 \<Rightarrow> tid \<Rightarrow> user_resume_context \<Rightarrow> kproc \<Rightarrow> bool \<times> kproc" where
  "mark_thread_yielded now tid ctx k =
     (case thread_of k tid of
        None \<Rightarrow> (False, k)
      | Some t \<Rightarrow>
          if t_state t \<noteq> TRunning then (False, k)
          else
            (True, enqueue_ready tid
               (modify_by_tid tid (\<lambda>p. refresh_state_from_threads
                  ((modify_thread tid (\<lambda>t. (stop_thread_run now t)
                       \<lparr>t_resume_context := Some ctx, t_state := TReady\<rparr>) p)
                     \<lparr>p_sleeping_until_tick := None\<rparr>)) k)))"

definition mark_yielded :: "u64 \<Rightarrow> pid \<Rightarrow> user_resume_context \<Rightarrow> kproc \<Rightarrow> bool \<times> kproc" where
  "mark_yielded now p ctx k =
     (case get_process k p of
        None \<Rightarrow> (False, k)
      | Some q \<Rightarrow> mark_thread_yielded now (main_tid q) ctx k)"

section \<open>Waiting for children\<close>

definition reap_child :: "pid \<Rightarrow> pid \<Rightarrow> kproc \<Rightarrow> (pid \<times> bytes \<times> u64) option \<times> kproc" where
  "reap_child parent_pid child_pid k =
     (case get_process k child_pid of
        None \<Rightarrow> (None, k)
      | Some q \<Rightarrow>
          if p_parent_pid q \<noteq> Some parent_pid then (None, k)
          else if \<not> (p_state q = PExited \<or> p_state q = PZombie) then (None, k)
          else
            let k = modify_process child_pid (set_state PReaped) k;
                result = (p_pid q, p_name q, (case p_exit_status q of None \<Rightarrow> 0 | Some s \<Rightarrow> s));
                k = (case get_process k parent_pid of
                       None \<Rightarrow> k
                     | Some parent \<Rightarrow>
                         if p_waiting_for parent = Some child_pid
                         then modify_process parent_pid
                                (\<lambda>r. modify_main (\<lambda>t. t\<lparr>t_resume_context := None\<rparr>)
                                       (r\<lparr>p_waiting_for := None\<rparr>)) k
                         else k)
            in (Some result, k))"

datatype wait_target_status =
  WaitMissing | WaitNotChild "pid option" | WaitNotExited process_state | WaitReapable

definition wait_target_status :: "kproc \<Rightarrow> pid \<Rightarrow> pid \<Rightarrow> wait_target_status" where
  "wait_target_status k parent_pid child_pid =
     (case get_process k child_pid of
        None \<Rightarrow> WaitMissing
      | Some q \<Rightarrow>
          if p_parent_pid q \<noteq> Some parent_pid then WaitNotChild (p_parent_pid q)
          else if \<not> (p_state q = PExited \<or> p_state q = PZombie) then WaitNotExited (p_state q)
          else WaitReapable)"

definition cwd_for :: "kproc \<Rightarrow> pid \<Rightarrow> normalized_path option" where
  "cwd_for k p = map_option p_cwd (get_process k p)"

definition set_cwd :: "pid \<Rightarrow> normalized_path \<Rightarrow> kproc \<Rightarrow> bool \<times> kproc" where
  "set_cwd p cwd k =
     (case get_process k p of
        None \<Rightarrow> (False, k)
      | Some _ \<Rightarrow> (True, modify_process p (\<lambda>q. q\<lparr>p_cwd := cwd\<rparr>) k))"

record wait_resume =
  wr_parent_pid :: pid
  wr_child_pid :: pid
  wr_child_name :: bytes
  wr_status :: u64
  wr_resume_context :: user_resume_context
  wr_p4_frame :: "u64 option"

definition resume_waiting_parent :: "u64 \<Rightarrow> pid \<Rightarrow> pid \<Rightarrow> kproc \<Rightarrow> wait_resume option \<times> kproc" where
  "resume_waiting_parent now parent_pid child_pid k =
     (case get_process k child_pid of
        None \<Rightarrow> (None, k)
      | Some child \<Rightarrow>
          if p_parent_pid child \<noteq> Some parent_pid then (None, k)
          else if \<not> (p_state child = PExited \<or> p_state child = PZombie) then (None, k)
          else
     (case get_process k parent_pid of
        None \<Rightarrow> (None, k)
      | Some parent \<Rightarrow>
          if p_state parent \<noteq> PBlocked \<or> p_waiting_for parent \<noteq> Some child_pid then (None, k)
          else
     (case threads_main (p_threads parent) of
        None \<Rightarrow> (None, k)
      | Some m \<Rightarrow>
     (case t_resume_context m of
        None \<Rightarrow> (None, k)
      | Some ctx \<Rightarrow>
          let k = modify_process child_pid (set_state PReaped) k;
              k = modify_process parent_pid
                    (\<lambda>r. modify_main (\<lambda>t. t\<lparr>t_resume_context := None\<rparr>)
                           (r\<lparr>p_waiting_for := None, p_sleeping_until_tick := None\<rparr>)) k;
              k = start_process_run now parent_pid k
          in (Some \<lparr>wr_parent_pid = parent_pid, wr_child_pid = child_pid,
                    wr_child_name = p_name child,
                    wr_status = (case p_exit_status child of None \<Rightarrow> 0 | Some s \<Rightarrow> s),
                    wr_resume_context = ctx, wr_p4_frame = as_p4_frame (p_address_space parent)\<rparr>, k)))))"

section \<open>Reapers and sleepers\<close>

definition should_init_reap :: "kproc \<Rightarrow> pid option \<Rightarrow> bool" where
  "should_init_reap k parent_pid =
     (case parent_pid of
        None \<Rightarrow> False
      | Some pp \<Rightarrow>
          (case get_process k pp of None \<Rightarrow> True | Some parent \<Rightarrow> terminal (p_state parent)))"

text \<open>The loop over the collected PIDs: each process found is reaped and counted.\<close>

fun reap_pids :: "pid list \<Rightarrow> kproc \<Rightarrow> nat \<times> kproc" where
  "reap_pids [] k = (0, k)"
| "reap_pids (p # ps) k =
     (case get_process k p of
        None \<Rightarrow> reap_pids ps k
      | Some _ \<Rightarrow>
          (case reap_pids ps (modify_process p (set_state PReaped) k) of (n, k) \<Rightarrow> (n + 1, k)))"

definition reap_orphan_zombies :: "kproc \<Rightarrow> nat \<times> kproc" where
  "reap_orphan_zombies k =
     reap_pids (map p_pid (filter (\<lambda>q. p_state q = PZombie \<and> should_init_reap k (p_parent_pid q))
                             (k_processes k))) k"

definition reap_unwaited_zombies :: "kproc \<Rightarrow> nat \<times> kproc" where
  "reap_unwaited_zombies k =
     reap_pids (map p_pid (filter (\<lambda>q. p_state q = PZombie \<and> p_job_mode q = Background)
                             (k_processes k))) k"

definition sleep_over :: "u64 \<Rightarrow> process \<Rightarrow> bool" where
  "sleep_over now_tick q \<longleftrightarrow>
     p_state q = PBlocked \<and>
     (case p_sleeping_until_tick q of None \<Rightarrow> False | Some wake_tick \<Rightarrow> now_tick \<ge> wake_tick)"

fun wake_pids :: "pid list \<Rightarrow> kproc \<Rightarrow> nat \<times> kproc" where
  "wake_pids [] k = (0, k)"
| "wake_pids (p # ps) k =
     (case get_process k p of
        None \<Rightarrow> wake_pids ps k
      | Some q \<Rightarrow>
          (case wake_pids ps
                  (enqueue_ready (main_tid q)
                    (modify_process p (\<lambda>q. set_state PReady (q\<lparr>p_sleeping_until_tick := None\<rparr>)) k)) of
             (n, k) \<Rightarrow> (n + 1, k)))"

definition wake_sleeping_processes :: "u64 \<Rightarrow> kproc \<Rightarrow> nat \<times> kproc" where
  "wake_sleeping_processes now_tick k =
     wake_pids (map p_pid (filter (sleep_over now_tick) (k_processes k))) k"

definition compact_reaped_history :: "nat \<Rightarrow> kproc \<Rightarrow> nat \<times> kproc" where
  "compact_reaped_history keep k =
     (let reaped_pids = map p_pid (filter (\<lambda>q. p_state q = PReaped) (k_processes k));
          remove_count = length reaped_pids - keep
      in (remove_count,
          fold (\<lambda>p k. store_remove p (remove_from_ready_queue p k)) (take remove_count reaped_pids) k))"

definition contains_pid :: "kproc \<Rightarrow> pid \<Rightarrow> bool" where
  "contains_pid k p \<longleftrightarrow> get_process k p \<noteq> None"

definition has_active_user_session :: "kproc \<Rightarrow> bool" where
  "has_active_user_session k \<longleftrightarrow>
     list_ex (\<lambda>q. p_kind q = UserProcess \<and> \<not> terminal (p_state q)) (k_processes k)"

definition mark_isolated :: "pid \<Rightarrow> kproc \<Rightarrow> kproc" where
  "mark_isolated p k =
     modify_process p (\<lambda>q. q\<lparr>p_address_space := promoted_isolated_user (p_address_space q)\<rparr>) k"

definition p4_frame_for :: "kproc \<Rightarrow> pid \<Rightarrow> u64 option" where
  "p4_frame_for k p =
     (case get_process k p of None \<Rightarrow> None | Some q \<Rightarrow> as_p4_frame (p_address_space q))"

definition find_by_entry :: "kproc \<Rightarrow> u64 \<Rightarrow> pid option" where
  "find_by_entry k entry_point =
     map_option p_pid (find (\<lambda>q. as_entry_point (p_address_space q) = entry_point) (k_processes k))"

section \<open>The invariant\<close>

lemma process_ident_reap [simp]:
  "process_ident (let q = set_state PReaped q; q = q\<lparr>p_exit_status := s q, p_waiting_for := None,
     p_sleeping_until_tick := None\<rparr> in modify_main (\<lambda>t. t\<lparr>t_resume_context := None\<rparr>) q) = process_ident q"
  by (simp add: Let_def)

lemma table_ok_lifecycle [simp]:
  "table_ok (mark_ready p k) = table_ok k"
  "table_ok (mark_running_fresh now p k) = table_ok k"
  "table_ok (snd (mark_thread_yielded now t c k)) = table_ok k"
  "table_ok (snd (mark_yielded now p c k)) = table_ok k"
  "table_ok (snd (set_cwd p d k)) = table_ok k"
  "table_ok (snd (resume_waiting_parent now p q k)) = table_ok k"
  "table_ok (mark_isolated p k) = table_ok k"
  by (simp_all add: mark_ready_def mark_running_fresh_def mark_thread_yielded_def mark_yielded_def
      set_cwd_def resume_waiting_parent_def mark_isolated_def Let_def split: option.split)

lemma table_ok_reap_child [simp]: "table_ok (snd (reap_child p q k)) = table_ok k"
  by (simp add: reap_child_def Let_def split: option.split)

lemma table_ok_lifecycle_dequeued:
  assumes "table_ok k"
  shows "table_ok (mark_running now p k)" "table_ok (mark_exited now p s k)"
    "table_ok (snd (mark_reaped now p k))" "table_ok (snd (mark_waiting now p c ctx k))"
    "table_ok (snd (mark_sleeping now p w ctx k))"
  using assms
  by (simp_all add: mark_running_def mark_exited_def mark_reaped_def mark_waiting_def mark_sleeping_def
      Let_def split: option.split)

lemma table_ok_reap_pids [simp]: "table_ok (snd (reap_pids ps k)) = table_ok k"
  by (induction ps k rule: reap_pids.induct) (simp_all add: case_prod_beta split: option.split)

lemma table_ok_wake_pids [simp]: "table_ok (snd (wake_pids ps k)) = table_ok k"
  by (induction ps k rule: wake_pids.induct) (simp_all add: case_prod_beta split: option.split)

lemma table_ok_reapers [simp]:
  "table_ok (snd (reap_orphan_zombies k)) = table_ok k"
  "table_ok (snd (reap_unwaited_zombies k)) = table_ok k"
  "table_ok (snd (wake_sleeping_processes now k)) = table_ok k"
  by (simp_all add: reap_orphan_zombies_def reap_unwaited_zombies_def wake_sleeping_processes_def)

lemma table_ok_compact:
  assumes "table_ok k"
  shows "table_ok (snd (compact_reaped_history n k))"
proof -
  have "table_ok (fold (\<lambda>p k. store_remove p (remove_from_ready_queue p k)) ps k)" if "table_ok k" for ps k
    using that by (induction ps arbitrary: k) simp_all
  with assms show ?thesis by (simp add: compact_reaped_history_def Let_def)
qed

section \<open>Waiting\<close>

lemma get_process_mark_waiting:
  assumes "mark_waiting now p c ctx k = (True, k1)"
  obtains q where "get_process k p = Some q"
    "\<forall>r. get_process k1 r = (if r = p then Some (set_state PBlocked
        (modify_main (\<lambda>t. t\<lparr>t_resume_context := Some ctx\<rparr>)
          ((modify_main (stop_thread_run now) q)\<lparr>p_waiting_for := Some c, p_sleeping_until_tick := None\<rparr>)))
      else get_process k r)"
  using assms by (auto simp: mark_waiting_def Let_def get_modify split: option.splits)

lemma get_process_mark_exited:
  "get_process (mark_exited now p s k) r =
   (if r = p then map_option (\<lambda>q. set_state (if p_parent_pid q \<noteq> None then PZombie else PExited)
       ((modify_main (stop_thread_run now) q)\<lparr>p_exit_status := Some s, p_sleeping_until_tick := None\<rparr>))
       (get_process k p)
    else get_process k r)"
  by (auto simp: mark_exited_def Let_def get_modify split: option.split)

text \<open>
  C6: waiting for a child ends with the child's status.  A parent that blocked waiting for one of
  its children resumes, after the child exited with some status, with its own saved context and
  that status; the child is then reaped and the parent runs.
\<close>

theorem wait_then_exit_resumes:
  assumes ok: "table_ok k" and wait: "mark_waiting now p c ctx k = (True, k1)"
    and child: "get_process k c = Some ch" "p_parent_pid ch = Some p" "c \<noteq> p"
  shows "\<exists>r k3 ch' q'. resume_waiting_parent later p c (mark_exited now' c status k1) = (Some r, k3) \<and>
    wr_status r = status \<and> wr_resume_context r = ctx \<and> wr_child_name r = p_name ch \<and>
    get_process k3 c = Some ch' \<and> p_state ch' = PReaped \<and>
    get_process k3 p = Some q' \<and> p_state q' = PRunning \<and> p_waiting_for q' = None"
proof -
  obtain q where q: "get_process k p = Some q" and w: "\<forall>r. get_process k1 r = (if r = p then Some (set_state PBlocked
        (modify_main (\<lambda>t. t\<lparr>t_resume_context := Some ctx\<rparr>)
          ((modify_main (stop_thread_run now) q)\<lparr>p_waiting_for := Some c, p_sleeping_until_tick := None\<rparr>)))
      else get_process k r)"
    using wait by (rule get_process_mark_waiting)
  obtain m where m: "threads_main (p_threads q) = Some m"
    using threads_ok_main[OF table_ok_threads[OF ok]] get_process_SomeD[OF q] by blast
  show ?thesis
    using w child m
    by (simp add: resume_waiting_parent_def get_process_mark_exited Let_def threads_main_set_state
        terminal_def get_modify)
qed


section \<open>Sleeping\<close>

abbreviation woken_process :: "process \<Rightarrow> process" where
  "woken_process q \<equiv> set_state PReady (q\<lparr>p_sleeping_until_tick := None\<rparr>)"

lemma wake_pids_effect:
  assumes "distinct ps" "\<forall>p\<in>set ps. get_process k p \<noteq> None"
  shows "fst (wake_pids ps k) = length ps \<and>
    (\<forall>r. get_process (snd (wake_pids ps k)) r =
      (if r \<in> set ps then map_option woken_process (get_process k r) else get_process k r)) \<and>
    set (k_ready_queue (snd (wake_pids ps k))) =
      set (k_ready_queue k) \<union> main_tid ` {q. \<exists>p\<in>set ps. get_process k p = Some q}"
  using assms
proof (induction ps arbitrary: k)
  case (Cons p ps)
  from Cons.prems obtain q where q: "get_process k p = Some q" by auto
  define k1 where "k1 = enqueue_ready (main_tid q) (modify_process p woken_process k)"
  have g: "get_process k1 r = (if r = p then map_option woken_process (get_process k r) else get_process k r)" for r
    by (simp add: k1_def get_modify)
  have "set (k_ready_queue k1) = insert (main_tid q) (set (k_ready_queue k))"
    by (auto simp: k1_def enqueue_ready_def)
  moreover have "get_process k1 r = get_process k r" if "r \<in> set ps" for r
    using Cons.prems(1) g that by auto
  then have "{q. \<exists>p\<in>set ps. get_process k1 p = Some q} = {q. \<exists>p\<in>set ps. get_process k p = Some q}"
    by simp
  moreover have "fst (wake_pids ps k1) = length ps \<and>
    (\<forall>r. get_process (snd (wake_pids ps k1)) r =
      (if r \<in> set ps then map_option woken_process (get_process k1 r) else get_process k1 r)) \<and>
    set (k_ready_queue (snd (wake_pids ps k1))) =
      set (k_ready_queue k1) \<union> main_tid ` {q. \<exists>p\<in>set ps. get_process k1 p = Some q}"
    using Cons.IH[of k1] Cons.prems g by simp
  ultimately show ?case
    using q g Cons.prems(1) by (auto simp: k1_def[symmetric] case_prod_beta)
qed simp


section \<open>Compaction\<close>

lemma remove_first_filter:
  "distinct (map g xs) \<Longrightarrow> remove_first (\<lambda>x. g x = y) xs = filter (\<lambda>x. g x \<noteq> y) xs"
proof (induction xs)
  case (Cons x xs)
  then show ?case by (auto intro!: filter_True[symmetric] simp: image_iff)
qed simp

lemma filter_drop_prefix:
  assumes "distinct (map g xs)"
  shows "filter (\<lambda>x. g x \<notin> set (take n (map g xs))) xs = drop n xs"
proof -
  have "distinct (map g (take n xs) @ map g (drop n xs))"
    using assms by (metis append_take_drop_id map_append)
  then have d: "g ` set (take n xs) \<inter> g ` set (drop n xs) = {}" by simp
  let ?P = "\<lambda>x. g x \<notin> set (take n (map g xs))"
  have "filter ?P (take n xs) = []" by (auto simp: take_map filter_empty_conv)
  moreover have "filter ?P (drop n xs) = drop n xs" using d by (auto simp: take_map filter_id_conv)
  ultimately show ?thesis by (metis append_Nil append_take_drop_id filter_append)
qed

lemma fold_remove_processes:
  "distinct (map p_pid (k_processes k)) \<Longrightarrow>
   k_processes (fold (\<lambda>p k. store_remove p (remove_from_ready_queue p k)) ps k) =
   filter (\<lambda>q. p_pid q \<notin> set ps) (k_processes k)"
proof (induction ps arbitrary: k)
  case (Cons p ps)
  let ?k = "store_remove p (remove_from_ready_queue p k)"
  have "k_processes ?k = filter (\<lambda>q. p_pid q \<noteq> p) (k_processes k)"
    using Cons.prems by (simp add: store_remove_def remove_from_ready_queue_def Let_def remove_first_filter)
  with Cons.IH[of ?k] Cons.prems show ?case by (simp add: distinct_map_filter conj_commute)
qed simp

text \<open>
  C18: compaction drops the oldest reaped processes and nothing else.  Afterwards at most \<open>n\<close> reaped
  processes remain, they are the most recent ones, and every process that is not reaped is kept
  in place.
\<close>

theorem compact_keeps_recent:
  assumes ok: "table_ok k" and c: "compact_reaped_history n k = (m, k')"
  shows "filter (\<lambda>q. p_state q \<noteq> PReaped) (k_processes k') = filter (\<lambda>q. p_state q \<noteq> PReaped) (k_processes k) \<and>
    filter (\<lambda>q. p_state q = PReaped) (k_processes k') = drop m (filter (\<lambda>q. p_state q = PReaped) (k_processes k)) \<and>
    length (filter (\<lambda>q. p_state q = PReaped) (k_processes k')) =
      min n (length (filter (\<lambda>q. p_state q = PReaped) (k_processes k))) \<and> table_ok k'"
proof -
  let ?R = "filter (\<lambda>q. p_state q = PReaped) (k_processes k)"
  let ?ps = "take m (map p_pid ?R)"
  have d: "distinct (map p_pid (k_processes k))" using ok by (rule table_ok_pids)
  then have dR: "distinct (map p_pid ?R)" by (rule distinct_map_filter)
  from c have m: "m = length ?R - n"
    and k': "k' = fold (\<lambda>p k. store_remove p (remove_from_ready_queue p k)) ?ps k"
    by (auto simp: compact_reaped_history_def Let_def)
  have ps: "k_processes k' = filter (\<lambda>q. p_pid q \<notin> set ?ps) (k_processes k)"
    unfolding k' by (rule fold_remove_processes[OF d])
  have "p_pid q \<notin> set ?ps" if "q \<in> set (k_processes k)" "p_state q \<noteq> PReaped" for q
  proof
    assume "p_pid q \<in> set ?ps"
    then have "p_pid q \<in> set (map p_pid ?R)" by (rule in_set_takeD)
    then obtain r where "r \<in> set ?R" "p_pid r = p_pid q" by auto
    then show False using distinct_key_same[OF d, of r q] that by auto
  qed
  then have "filter (\<lambda>q. p_state q \<noteq> PReaped) (k_processes k') = filter (\<lambda>q. p_state q \<noteq> PReaped) (k_processes k)"
    unfolding ps filter_filter by (intro filter_cong) auto
  moreover have "filter (\<lambda>q. p_state q = PReaped) (k_processes k') = drop m ?R"
    using filter_drop_prefix[OF dR, of m] unfolding ps by (simp add: conj_commute)
  ultimately show ?thesis using m table_ok_compact[OF ok, of n] c by simp
qed

section \<open>Concrete runs\<close>

definition example_family :: kproc where
  "example_family = example_table
     [example_process 1 None PRunning 1 [running_thread 1 1],
      example_process 2 (Some 1) PReady 2 [ready_thread 2 2 0x2000],
      (example_process 3 (Some 1) PZombie 3 [(ready_thread 3 3 0x3000)\<lparr>t_state := TZombie\<rparr>])\<lparr>p_exit_status := Some 7\<rparr>,
      (example_process 4 (Some 1) PBlocked 4 [(ready_thread 4 4 0x4000)\<lparr>t_state := TBlocked\<rparr>])\<lparr>p_sleeping_until_tick := Some 50\<rparr>,
      example_process 5 (Some 1) PReaped 5 [(ready_thread 5 5 0x5000)\<lparr>t_state := TReaped\<rparr>]]
     [2] 6 6"

lemma example_family_ok: "table_ok example_family"
  by (simp add: example_family_def example_defs table_ok_eval)

theorem wait_then_exit_resumes_witness:
  "\<exists>k1 r k3. mark_waiting 9 1 2 (empty_context\<lparr>c_rip := 0x1234\<rparr>) example_family = (True, k1) \<and>
     resume_waiting_parent 30 1 2 (mark_exited 20 2 42 k1) = (Some r, k3) \<and> wr_status r = 42 \<and>
     wr_resume_context r = empty_context\<lparr>c_rip := 0x1234\<rparr>"
proof -
  let ?r = "mark_waiting 9 1 2 (empty_context\<lparr>c_rip := 0x1234\<rparr>) example_family"
  have g: "get_process example_family 2 = Some (example_process 2 (Some 1) PReady 2 [ready_thread 2 2 0x2000])"
    by (simp add: example_family_def get_process_def example_table_def example_process_def)
  have "fst ?r" by (simp add: mark_waiting_def Let_def)
      (simp add: example_family_def get_process_def example_table_def example_process_def)
  then have r: "?r = (True, snd ?r)" by (simp add: prod_eq_iff)
  have "p_parent_pid (example_process 2 (Some 1) PReady 2 [ready_thread 2 2 0x2000]) = Some 1"
    by (simp add: example_process_def)
  from wait_then_exit_resumes[OF example_family_ok r g this, of 30 20 42] r show ?thesis by fastforce
qed



theorem compact_keeps_recent_witness:
  "\<exists>k'. compact_reaped_history 0 example_family = (1, k') \<and>
     filter (\<lambda>q. p_state q = PReaped) (k_processes k') = []"
proof -
  let ?r = "compact_reaped_history 0 example_family"
  have "fst ?r = 1"
    by (simp add: compact_reaped_history_def Let_def example_family_def example_table_def example_process_def)
  then have r: "?r = (1, snd ?r)" by (simp add: prod_eq_iff)
  from compact_keeps_recent[OF example_family_ok r]
  have "length (filter (\<lambda>q. p_state q = PReaped) (k_processes (snd ?r))) = min 0 (length
      (filter (\<lambda>q. p_state q = PReaped) (k_processes example_family)))" by blast
  then have "filter (\<lambda>q. p_state q = PReaped) (k_processes (snd ?r)) = []" by simp
  with r show ?thesis by blast
qed

end
