(* ===== verification/Process_Signals.thy ===== *)
theory Process_Signals
  imports Process_Lifecycle
begin

text \<open>
  Job control and signals (\<^verbatim>\<open>ProcessTable\<close> of \<^verbatim>\<open>kernel/src/user/process.rs\<close>): stopping, continuing
  and terminating a process, sending a signal, signal handlers and masks.
\<close>

section \<open>Stop, continue, terminate\<close>

record terminal_signal_report =
  tsr_pid :: pid
  tsr_name :: bytes
  tsr_signal :: u64
  tsr_status :: u64
  tsr_stopped :: bool
  tsr_parent_woken :: bool

text \<open>The parent is made ready with a status in the \<^verbatim>\<open>rax\<close> of its saved context.\<close>

definition waits_for_child :: "pid \<Rightarrow> process \<Rightarrow> bool" where
  "waits_for_child child parent \<longleftrightarrow> p_state parent = PBlocked \<and> p_waiting_for parent = Some child"

definition stop_user_process :: "u64 \<Rightarrow> pid \<Rightarrow> u64 \<Rightarrow> kproc \<Rightarrow> terminal_signal_report option \<times> kproc" where
  "stop_user_process now p signal k =
     (let k = remove_from_ready_queue p k
      in case get_process k p of
           None \<Rightarrow> (None, k)
         | Some q \<Rightarrow>
             if p_kind q \<noteq> UserProcess \<or> terminal (p_state q) \<or> p_state q = PStopped then (None, k)
             else
               let k = modify_process p (\<lambda>q. set_state PStopped (q\<lparr>p_sleeping_until_tick := None\<rparr>))
                         (stop_process_run now p k);
                   status = 128 + signal;
                   (parent_woken, k) =
                     (case p_parent_pid q of
                        None \<Rightarrow> (False, k)
                      | Some parent_pid \<Rightarrow>
                          (case get_process k parent_pid of
                             None \<Rightarrow> (False, k)
                           | Some parent \<Rightarrow>
                               if waits_for_child p parent
                               then (True, enqueue_ready (main_tid parent)
                                      (modify_process parent_pid
                                        (\<lambda>r. set_state PReady
                                               (modify_main (set_resume_rax status)
                                                 (r\<lparr>p_waiting_for := None\<rparr>))) k))
                               else (False, k)))
               in (Some \<lparr>tsr_pid = p, tsr_name = p_name q, tsr_signal = signal, tsr_status = status,
                         tsr_stopped = True, tsr_parent_woken = parent_woken\<rparr>, k))"

definition may_signal :: "credentials \<Rightarrow> process \<Rightarrow> bool" where
  "may_signal caller target \<longleftrightarrow> cr_uid caller = 0 \<or> cr_uid caller = cr_uid (p_credentials target)"

definition continue_user_process :: "pid \<Rightarrow> pid \<Rightarrow> kproc \<Rightarrow> bool \<times> kproc" where
  "continue_user_process caller_pid p k =
     (case get_process k caller_pid of
        None \<Rightarrow> (False, k)
      | Some caller \<Rightarrow>
     (case get_process k p of
        None \<Rightarrow> (False, k)
      | Some q \<Rightarrow>
          if \<not> may_signal (p_credentials caller) q then (False, k)
          else if p_state q \<noteq> PStopped then (False, k)
          else (True, enqueue_ready (main_tid q) (modify_process p (set_state PReady) k))))"

datatype signal_error = SigMissing | SigPermissionDenied | SigKernelTask | SigAlreadyExited | SigSelfTarget

record signal_termination_report =
  str_pid :: pid
  str_name :: bytes
  str_parent_pid :: "pid option"
  str_job_mode :: job_mode
  str_status :: u64
  str_parent_woken :: bool
  str_p4_frame :: "u64 option"

text \<open>The checks both \<^verbatim>\<open>terminate_user_process\<close> and \<^verbatim>\<open>send_signal\<close> start with, in their order.\<close>

definition signal_target :: "pid \<Rightarrow> pid \<Rightarrow> kproc \<Rightarrow> signal_error + process" where
  "signal_target caller_pid target_pid k =
     (if caller_pid = target_pid then Inl SigSelfTarget
      else
     (case get_process k caller_pid of
        None \<Rightarrow> Inl SigMissing
      | Some caller \<Rightarrow>
     (case get_process k target_pid of
        None \<Rightarrow> Inl SigMissing
      | Some target \<Rightarrow>
          if p_kind target \<noteq> UserProcess then Inl SigKernelTask
          else if terminal (p_state target) then Inl SigAlreadyExited
          else if \<not> may_signal (p_credentials caller) target then Inl SigPermissionDenied
          else Inr target)))"

definition terminate_user_process ::
    "u64 \<Rightarrow> pid \<Rightarrow> pid \<Rightarrow> u64 \<Rightarrow> kproc \<Rightarrow> (signal_error + signal_termination_report) \<times> kproc"
where
  "terminate_user_process now caller_pid target_pid status k =
     (case signal_target caller_pid target_pid k of
        Inl e \<Rightarrow> (Inl e, k)
      | Inr target \<Rightarrow>
          let k = mark_exited now target_pid status k;
              (parent_woken, k) =
                (case p_parent_pid target of
                   None \<Rightarrow> (False, k)
                 | Some parent_pid \<Rightarrow>
                     (case get_process k parent_pid of
                        None \<Rightarrow> (False, k)
                      | Some parent \<Rightarrow>
                          if waits_for_child target_pid parent
                          then
                            let k = modify_process target_pid (set_state PReaped) k;
                                parent_tid = map_option main_tid (get_process k parent_pid);
                                k = modify_process parent_pid
                                      (\<lambda>r. set_state PReady
                                             (modify_main (set_resume_rax status)
                                               (r\<lparr>p_waiting_for := None, p_sleeping_until_tick := None\<rparr>))) k;
                                k = (case parent_tid of None \<Rightarrow> k | Some t \<Rightarrow> enqueue_ready t k)
                            in (True, k)
                          else (False, k)))
          in (Inr \<lparr>str_pid = target_pid, str_name = p_name target, str_parent_pid = p_parent_pid target,
                   str_job_mode = p_job_mode target, str_status = status,
                   str_parent_woken = parent_woken,
                   str_p4_frame = as_p4_frame (p_address_space target)\<rparr>, k))"

section \<open>Handlers\<close>

definition handler_context :: "u64 \<Rightarrow> u64 \<Rightarrow> user_resume_context \<Rightarrow> user_resume_context" where
  "handler_context handler signal original =
     original\<lparr>c_rip := handler, c_rdi := signal, c_rax := 0\<rparr>"

definition activate_signal_handler :: "pid \<Rightarrow> u64 \<Rightarrow> u64 \<Rightarrow> kproc \<Rightarrow> bool \<times> kproc" where
  "activate_signal_handler p signal handler k =
     (case get_process k p of
        None \<Rightarrow> (False, k)
      | Some q \<Rightarrow>
     (case threads_get (p_threads q) (main_tid q) of
        None \<Rightarrow> (False, k)
      | Some t \<Rightarrow>
          if t_signal_return_context t \<noteq> None then (False, k)
          else
     (case t_resume_context t of
        None \<Rightarrow> (False, k)
      | Some original \<Rightarrow>
          (True, enqueue_ready (main_tid q)
             (modify_process p
                (\<lambda>q. refresh_state_from_threads
                       ((modify_thread (main_tid q)
                           (\<lambda>t. t\<lparr>t_signal_return_context := Some original,
                                  t_resume_context := Some (handler_context handler signal original),
                                  t_waiting_for := None, t_state := TReady\<rparr>) q)
                         \<lparr>p_waiting_for := None, p_sleeping_until_tick := None\<rparr>)) k)))))"

datatype signal_delivery =
  Pending pid bytes u64 u64
| Handled pid bytes u64 u64
| Ignored pid bytes u64
| Terminated signal_termination_report

definition send_signal ::
    "u64 \<Rightarrow> pid \<Rightarrow> pid \<Rightarrow> u64 \<Rightarrow> kproc \<Rightarrow> (signal_error + signal_delivery) \<times> kproc"
where
  "send_signal now caller_pid target_pid signal k =
     (case signal_target caller_pid target_pid k of
        Inl e \<Rightarrow> (Inl e, k)
      | Inr target \<Rightarrow>
     (case signal_bit signal of
        None \<Rightarrow> (Inl SigMissing, k)
      | Some signal_mask \<Rightarrow>
          let pend = (\<lambda>k. modify_process target_pid
                            (\<lambda>q. q\<lparr>p_pending_signals := p_pending_signals q OR signal_mask\<rparr>) k)
          in if p_blocked_signals target AND signal_mask \<noteq> 0
             then (Inr (Pending (p_pid target) (p_name target) signal
                          (p_pending_signals target OR signal_mask)), pend k)
             else if p_sigterm_disposition target = SIG_IGN
             then (Inr (Ignored (p_pid target) (p_name target) signal), k)
             else if p_sigterm_disposition target \<noteq> SIG_DFL
             then (case activate_signal_handler target_pid signal (p_sigterm_disposition target) k of
                     (True, k) \<Rightarrow>
                       (Inr (Handled (p_pid target) (p_name target) signal
                               (p_sigterm_disposition target)), k)
                   | (False, k) \<Rightarrow>
                       (Inr (Pending (p_pid target) (p_name target) signal
                               (p_pending_signals target OR signal_mask)), pend k))
             else (case terminate_user_process now caller_pid target_pid (128 + signal) k of
                     (r, k) \<Rightarrow> (map_sum id Terminated r, k))))"

definition signal_disposition :: "kproc \<Rightarrow> pid \<Rightarrow> u64 \<Rightarrow> u64 option" where
  "signal_disposition k p signal =
     (case get_process k p of
        None \<Rightarrow> None
      | Some q \<Rightarrow> if signal = SIGTERM then Some (p_sigterm_disposition q) else None)"

definition set_signal_disposition :: "pid \<Rightarrow> u64 \<Rightarrow> u64 \<Rightarrow> kproc \<Rightarrow> u64 option \<times> kproc" where
  "set_signal_disposition p signal disposition k =
     (if signal \<noteq> SIGTERM then (None, k)
      else
        case get_process k p of
          None \<Rightarrow> (None, k)
        | Some q \<Rightarrow>
            (Some (p_sigterm_disposition q),
             modify_process p (\<lambda>q. q\<lparr>p_sigterm_disposition := disposition\<rparr>) k))"

definition activate_running_signal_handler ::
    "u64 \<Rightarrow> pid \<Rightarrow> tid \<Rightarrow> u64 \<Rightarrow> u64 \<Rightarrow> user_resume_context \<Rightarrow> kproc \<Rightarrow> bool \<times> kproc"
where
  "activate_running_signal_handler now p tid signal handler original k =
     (case get_process k p of
        None \<Rightarrow> (False, k)
      | Some q \<Rightarrow>
     (case threads_get (p_threads q) tid of
        None \<Rightarrow> (False, k)
      | Some t \<Rightarrow>
          if t_state t \<noteq> TRunning \<or> t_signal_return_context t \<noteq> None then (False, k)
          else
            (True, enqueue_ready tid
               (modify_process p
                  (\<lambda>q. refresh_state_from_threads
                         (modify_thread tid
                            (\<lambda>t. (stop_thread_run now t)
                               \<lparr>t_signal_return_context := Some original,
                                t_resume_context := Some (handler_context handler signal original),
                                t_state := TReady\<rparr>) q)) k))))"

definition restore_signal_context :: "u64 \<Rightarrow> pid \<Rightarrow> tid \<Rightarrow> kproc \<Rightarrow> bool \<times> kproc" where
  "restore_signal_context now p tid k =
     (case get_process k p of
        None \<Rightarrow> (False, k)
      | Some q \<Rightarrow>
     (case threads_get (p_threads q) tid of
        None \<Rightarrow> (False, k)
      | Some t \<Rightarrow>
          if t_state t \<noteq> TRunning then (False, k)
          else
     (case t_signal_return_context t of
        None \<Rightarrow> (False, k)
      | Some original \<Rightarrow>
          (True, enqueue_ready tid
             (modify_process p
                (\<lambda>q. refresh_state_from_threads
                       (modify_thread tid
                          (\<lambda>t. (stop_thread_run now (t\<lparr>t_signal_return_context := None\<rparr>))
                             \<lparr>t_resume_context := Some original, t_state := TReady\<rparr>) q)) k)))))"

section \<open>Masks\<close>

datatype signal_mask_how = Block | Unblock | SetMask

record signal_mask_update =
  smu_old_mask :: u64
  smu_new_mask :: u64
  smu_delivered_signal :: "u64 option"

definition new_signal_mask :: "signal_mask_how \<Rightarrow> u64 \<Rightarrow> u64 \<Rightarrow> u64" where
  "new_signal_mask how old m =
     (case how of Block \<Rightarrow> old OR m | Unblock \<Rightarrow> old AND NOT m | SetMask \<Rightarrow> m)"

definition update_signal_mask ::
    "pid \<Rightarrow> signal_mask_how \<Rightarrow> u64 \<Rightarrow> kproc \<Rightarrow> signal_mask_update option \<times> kproc"
where
  "update_signal_mask p how m k =
     (case get_process k p of
        None \<Rightarrow> (None, k)
      | Some q \<Rightarrow>
          if p_kind q \<noteq> UserProcess \<or> terminal (p_state q) then (None, k)
          else
            let old_mask = p_blocked_signals q;
                new_mask = new_signal_mask how old_mask m;
                delivered = lowest_signal (p_pending_signals q AND NOT new_mask);
                pending = (case delivered of
                             None \<Rightarrow> p_pending_signals q
                           | Some signal \<Rightarrow>
                               p_pending_signals q AND
                                 NOT (case signal_bit signal of None \<Rightarrow> 0 | Some b \<Rightarrow> b))
            in (Some \<lparr>smu_old_mask = old_mask, smu_new_mask = new_mask, smu_delivered_signal = delivered\<rparr>,
                modify_process p
                  (\<lambda>q. q\<lparr>p_blocked_signals := new_mask, p_pending_signals := pending\<rparr>) k))"

definition pending_signals :: "kproc \<Rightarrow> pid \<Rightarrow> u64 option" where
  "pending_signals k p = map_option p_pending_signals (get_process k p)"

section \<open>The invariant\<close>

lemma table_ok_stop_user [simp]: "table_ok k \<Longrightarrow> table_ok (snd (stop_user_process now p s k))"
  by (simp add: stop_user_process_def Let_def case_prod_beta split: option.split)

lemma table_ok_signals [simp]:
  "table_ok (snd (continue_user_process c p k)) = table_ok k"
  "table_ok (snd (activate_signal_handler p s h k)) = table_ok k"
  "table_ok (snd (set_signal_disposition p s d k)) = table_ok k"
  "table_ok (snd (activate_running_signal_handler now p t s h ctx k)) = table_ok k"
  "table_ok (snd (restore_signal_context now p t k)) = table_ok k"
  "table_ok (snd (update_signal_mask p how m k)) = table_ok k"
  by (simp_all add: continue_user_process_def activate_signal_handler_def set_signal_disposition_def
      activate_running_signal_handler_def restore_signal_context_def update_signal_mask_def Let_def
      split: option.split)

lemma table_ok_terminate [simp]:
  "table_ok k \<Longrightarrow> table_ok (snd (terminate_user_process now c t s k))"
  by (simp add: terminate_user_process_def Let_def case_prod_beta table_ok_lifecycle_dequeued
      split: sum.split option.split)

lemma table_ok_send_signal [simp]: "table_ok k \<Longrightarrow> table_ok (snd (send_signal now c t s k))"
  by (simp add: send_signal_def Let_def case_prod_beta split: sum.split option.split bool.split)

section \<open>Masks and pending signals\<close>

lemma bit_signal_bit:
  "signal_bit s = Some m \<Longrightarrow> bit m i \<longleftrightarrow> i = unat (s - 1) \<and> i < 64"
  by (auto simp: signal_bit_def bit_push_bit_iff bit_exp_iff split: if_splits)

lemma trailing_zeros_spec:
  assumes "(m :: u64) \<noteq> 0"
  shows "bit m (trailing_zeros m) \<and> trailing_zeros m < 64 \<and> (\<forall>i<trailing_zeros m. \<not> bit m i)"
proof -
  obtain n where n: "bit m n" using assms by (metis bit_eqI bit_0_eq bot_apply bot_bool_def)
  then have n64: "n < 64" using bit_imp_le_length[OF n] by simp
  let ?t = "takeWhile (\<lambda>i. \<not> bit m i) [0..<64]"
  have le: "length ?t < 64"
  proof (rule ccontr)
    assume "\<not> length ?t < 64"
    then have "length ?t = length [0..<64]" using length_takeWhile_le[of "\<lambda>i. \<not> bit m i" "[0..<64]"] by simp
    then have "?t = [0..<64]" by (metis takeWhile_eq_take take_all order_refl)
    then have "\<not> bit m n" using n64 by (metis atLeastLessThan_iff set_upt set_takeWhileD zero_le)
    with n show False by simp
  qed
  have "\<not> \<not> bit m ([0..<64] ! length ?t)" by (rule nth_length_takeWhile) (use le in simp)
  moreover have "\<not> bit m i" if "i < length ?t" for i
  proof -
    have "?t ! i = i" using that le by (simp add: takeWhile_nth)
    then show ?thesis using nth_mem[OF that] set_takeWhileD by metis
  qed
  ultimately show ?thesis using le by (simp add: trailing_zeros_def)
qed

lemma lowest_signal_spec:
  "case lowest_signal m of
     None \<Rightarrow> m = 0
   | Some s \<Rightarrow> \<exists>i<64. s = of_nat i + 1 \<and> signal_bit s = Some (push_bit i 1) \<and> bit m i \<and> (\<forall>j<i. \<not> bit m j)"
proof (cases "m = 0")
  case False
  let ?i = "trailing_zeros m"
  from trailing_zeros_spec[OF False] have i: "bit m ?i" "?i < 64" "\<forall>j<?i. \<not> bit m j" by blast+
  have "unat (of_nat ?i + 1 :: u64) = ?i + 1" using i(2) by (simp add: unat_word_ariths unat_of_nat)
  then have "signal_bit (of_nat ?i + 1) = Some (push_bit ?i 1)"
    using i(2) by (auto simp: signal_bit_def word_less_nat_alt unat_of_nat)
  with i False show ?thesis by (auto simp: lowest_signal_def)
qed (simp add: lowest_signal_def)

text \<open>
  C13: changing the signal mask delivers the lowest pending signal that is not blocked any more,
  and only that one.  It stops being pending, every other pending bit stays, the new mask is the
  requested one, and nothing is delivered exactly when every pending signal is blocked.
\<close>

theorem update_signal_mask_delivers_lowest:
  assumes "update_signal_mask p how m k = (Some u, k')"
  shows "\<exists>q q'. get_process k p = Some q \<and> get_process k' p = Some q' \<and>
    p_blocked_signals q' = new_signal_mask how (p_blocked_signals q) m \<and>
    smu_old_mask u = p_blocked_signals q \<and> smu_new_mask u = p_blocked_signals q' \<and>
    (case smu_delivered_signal u of
       None \<Rightarrow> p_pending_signals q' = p_pending_signals q \<and>
         (\<forall>i. bit (p_pending_signals q) i \<longrightarrow> bit (p_blocked_signals q') i)
     | Some s \<Rightarrow> \<exists>i<64. s = of_nat i + 1 \<and> bit (p_pending_signals q) i \<and> \<not> bit (p_blocked_signals q') i \<and>
         (\<forall>j<i. bit (p_pending_signals q) j \<longrightarrow> bit (p_blocked_signals q') j) \<and>
         (\<forall>j. bit (p_pending_signals q') j \<longleftrightarrow> bit (p_pending_signals q) j \<and> j \<noteq> i))"
proof -
  from assms obtain q where q: "get_process k p = Some q"
    by (auto simp: update_signal_mask_def split: option.splits)
  define nm where "nm = new_signal_mask how (p_blocked_signals q) m"
  define d where "d = lowest_signal (p_pending_signals q AND NOT nm)"
  define pend where "pend = (case d of None \<Rightarrow> p_pending_signals q
    | Some s \<Rightarrow> p_pending_signals q AND NOT (case signal_bit s of None \<Rightarrow> 0 | Some b \<Rightarrow> b))"
  from assms q have u: "u = \<lparr>smu_old_mask = p_blocked_signals q, smu_new_mask = nm, smu_delivered_signal = d\<rparr>"
    and k': "k' = modify_process p (\<lambda>q. q\<lparr>p_blocked_signals := nm, p_pending_signals := pend\<rparr>) k"
    by (auto simp: update_signal_mask_def Let_def nm_def d_def pend_def split: if_splits)
  have q': "get_process k' p = Some (q\<lparr>p_blocked_signals := nm, p_pending_signals := pend\<rparr>)"
    using q by (simp add: k' get_modify)
  have len: "i < 64" if "bit (w :: u64) i" for w i using bit_imp_le_length[OF that] by simp
  have "case d of
       None \<Rightarrow> pend = p_pending_signals q \<and> (\<forall>i. bit (p_pending_signals q) i \<longrightarrow> bit nm i)
     | Some s \<Rightarrow> \<exists>i<64. s = of_nat i + 1 \<and> bit (p_pending_signals q) i \<and> \<not> bit nm i \<and>
         (\<forall>j<i. bit (p_pending_signals q) j \<longrightarrow> bit nm j) \<and>
         (\<forall>j. bit pend j \<longleftrightarrow> bit (p_pending_signals q) j \<and> j \<noteq> i)"
  proof (cases d)
    case None
    then have "p_pending_signals q AND NOT nm = 0"
      using lowest_signal_spec[of "p_pending_signals q AND NOT nm"] by (simp add: d_def)
    then have "\<not> bit (p_pending_signals q AND NOT nm) i" for i by simp
    with None show ?thesis using len by (auto simp: pend_def bit_and_iff bit_not_iff)
  next
    case (Some s)
    then obtain i where i: "i < 64" "s = of_nat i + 1" "signal_bit s = Some (push_bit i 1)"
      "bit (p_pending_signals q AND NOT nm) i" "\<forall>j<i. \<not> bit (p_pending_signals q AND NOT nm) j"
      using lowest_signal_spec[of "p_pending_signals q AND NOT nm"] by (auto simp: d_def)
    have "bit pend j \<longleftrightarrow> bit (p_pending_signals q) j \<and> j \<noteq> i" for j
      using Some i(1,3) len by (auto simp: pend_def bit_and_iff bit_not_iff bit_push_bit_iff bit_exp_iff)
    with Some i show ?thesis using len by (auto simp: bit_and_iff bit_not_iff)
  qed
  with q q' u show ?thesis by (cases d) (simp_all add: nm_def[symmetric])
qed

text \<open>
  C14: a refused signal changes nothing.  Whenever \<^verbatim>\<open>send_signal\<close> reports an error the table is
  exactly as before, and a caller that is not root can never affect a live user process of another
  user: it gets \<^verbatim>\<open>PermissionDenied\<close>.
\<close>

theorem send_signal_refused:
  "(\<forall>e. fst (send_signal now c t s k) = Inl e \<longrightarrow> snd (send_signal now c t s k) = k) \<and>
   (\<forall>caller target. c \<noteq> t \<longrightarrow> get_process k c = Some caller \<longrightarrow> get_process k t = Some target \<longrightarrow>
      p_kind target = UserProcess \<longrightarrow> \<not> terminal (p_state target) \<longrightarrow>
      cr_uid (p_credentials caller) \<noteq> 0 \<longrightarrow> cr_uid (p_credentials caller) \<noteq> cr_uid (p_credentials target) \<longrightarrow>
      send_signal now c t s k = (Inl SigPermissionDenied, k))"
proof (intro conjI allI impI)
  show "snd (send_signal now c t s k) = k" if "fst (send_signal now c t s k) = Inl e" for e
    using that unfolding send_signal_def
    by (simp add: terminate_user_process_def Let_def case_prod_beta
        split: option.splits sum.splits if_split_asm bool.splits)
qed (simp add: send_signal_def signal_target_def may_signal_def Let_def)

section \<open>Termination\<close>

lemma queue_mark_exited:
  "get_process k p = Some q \<Longrightarrow>
   k_ready_queue (mark_exited now p s k) = filter (\<lambda>t. t \<notin> set (tids_of (p_threads q))) (k_ready_queue k)"
  by (simp add: mark_exited_def Let_def stop_process_run_def remove_from_ready_queue_def)

lemma tids_of_set_state [simp]: "tids_of (p_threads (set_state s p)) = tids_of (p_threads p)"
  by (metis ident_tids_process process_ident_set_state)

lemma tids_of_modify_main [simp]:
  "(\<And>t. thread_ident (f t) = thread_ident t) \<Longrightarrow> tids_of (p_threads (modify_main f p)) = tids_of (p_threads p)"
  by (metis ident_tids_process process_ident_modify_main)

lemma signal_target_InrD:
  "signal_target c t k = Inr q \<Longrightarrow> get_process k t = Some q \<and> c \<noteq> t \<and> p_kind q = UserProcess \<and> \<not> terminal (p_state q)"
  by (auto simp: signal_target_def split: option.splits if_splits)

text \<open>The dead process and, when it was waited for, its parent after a termination.\<close>

lemma terminate_cases:
  assumes "terminate_user_process now c t s k = (Inr rep, k')"
  obtains q where "get_process k t = Some q"
    "\<forall>pp par. p_parent_pid q = Some pp \<longrightarrow> pp \<noteq> t \<longrightarrow> get_process k pp = Some par \<longrightarrow> waits_for_child t par \<longrightarrow>
       str_parent_woken rep \<and>
       k' = enqueue_ready (main_tid par) (modify_process pp
         (\<lambda>r. set_state PReady (modify_main (set_resume_rax s)
            (r\<lparr>p_waiting_for := None, p_sleeping_until_tick := None\<rparr>)))
         (modify_process t (set_state PReaped) (mark_exited now t s k)))"
    "(\<exists>pp par. p_parent_pid q = Some pp \<and> pp \<noteq> t \<and> get_process k pp = Some par \<and> waits_for_child t par) \<or>
       k' = mark_exited now t s k"
proof -
  from assms obtain q where st: "signal_target c t k = Inr q"
    by (auto simp: terminate_user_process_def split: sum.splits)
  then have q: "get_process k t = Some q" "\<not> terminal (p_state q)" using signal_target_InrD by blast+
  have self: "\<not> waits_for_child t r" if "get_process (mark_exited now t s k) t = Some r" for r
    using that q(1) by (auto simp: get_process_mark_exited waits_for_child_def split: if_splits)
  have other: "get_process (mark_exited now t s k) pp = get_process k pp" if "pp \<noteq> t" for pp
    using that by (simp add: get_process_mark_exited)
  let ?e = "mark_exited now t s k"
  have look: "case p_parent_pid q of None \<Rightarrow> k' = ?e
    | Some pp \<Rightarrow> (case get_process ?e pp of None \<Rightarrow> k' = ?e
      | Some par \<Rightarrow> if waits_for_child t par then str_parent_woken rep \<and> (\<forall>g. get_process
            (modify_process t (set_state PReaped) ?e) pp = Some g \<longrightarrow>
          k' = enqueue_ready (main_tid g) (modify_process pp
         (\<lambda>r. set_state PReady (modify_main (set_resume_rax s)
            (r\<lparr>p_waiting_for := None, p_sleeping_until_tick := None\<rparr>)))
         (modify_process t (set_state PReaped) ?e))) else k' = ?e)"
    using assms st
    by (auto simp: terminate_user_process_def Let_def split: option.splits if_splits)
  show ?thesis
  proof (rule that[OF q(1)], intro allI impI)
    fix pp par
    assume pp: "p_parent_pid q = Some pp" "pp \<noteq> t" "get_process k pp = Some par" "waits_for_child t par"
    then have "get_process (modify_process t (set_state PReaped) ?e) pp = Some par"
      using other[of pp] by (simp add: get_modify)
    with look pp other[of pp] show "str_parent_woken rep \<and> k' = enqueue_ready (main_tid par) (modify_process pp
         (\<lambda>r. set_state PReady (modify_main (set_resume_rax s)
            (r\<lparr>p_waiting_for := None, p_sleeping_until_tick := None\<rparr>)))
         (modify_process t (set_state PReaped) ?e))" by simp
  next
    show "(\<exists>pp par. p_parent_pid q = Some pp \<and> pp \<noteq> t \<and> get_process k pp = Some par \<and> waits_for_child t par) \<or>
       k' = ?e"
    proof (cases "p_parent_pid q")
      case (Some pp)
      show ?thesis
      proof (cases "get_process ?e pp")
        case par: (Some par)
        show ?thesis
        proof (cases "waits_for_child t par")
          case True
          then have "pp \<noteq> t" using self par by blast
          with Some par True other[of pp] show ?thesis by auto
        qed (use look Some par in simp)
      qed (use look Some in simp)
    qed (use look in simp)
  qed
qed

lemma terminal_mark_exited:
  assumes "get_process k t = Some q"
  obtains q' where "get_process (mark_exited now t s k) t = Some q'" "terminal (p_state q')"
    "p_exit_status q' = Some s" "tids_of (p_threads q') = tids_of (p_threads q)"
proof -
  let ?q = "set_state (if p_parent_pid q \<noteq> None then PZombie else PExited)
    ((modify_main (stop_thread_run now) q)\<lparr>p_exit_status := Some s, p_sleeping_until_tick := None\<rparr>)"
  have "tids_of (p_threads ?q) = tids_of (p_threads q)" by simp
  with assms show ?thesis
    by (intro that[of ?q]) (simp_all add: get_process_mark_exited terminal_def)
qed

text \<open>
  C15: termination by a signal takes effect at once.  The target records the status, is in a
  terminal state and none of its threads is left in the ready queue; and if its parent was blocked
  waiting for it, the target is reaped and the parent is ready and queued with the status in the
  \<^verbatim>\<open>rax\<close> of its saved context.
\<close>

theorem terminate_effect:
  assumes ok: "table_ok k" and t: "terminate_user_process now c t s k = (Inr rep, k')"
  shows "\<exists>q q'. get_process k t = Some q \<and> get_process k' t = Some q' \<and> p_exit_status q' = Some s \<and>
    terminal (p_state q') \<and> set (tids_of (p_threads q)) \<inter> set (k_ready_queue k') = {} \<and>
    (\<forall>pp par. p_parent_pid q = Some pp \<longrightarrow> pp \<noteq> t \<longrightarrow> get_process k pp = Some par \<longrightarrow> waits_for_child t par \<longrightarrow>
      p_state q' = PReaped \<and> main_tid par \<in> set (k_ready_queue k') \<and>
      (\<exists>par'. get_process k' pp = Some par' \<and> p_state par' = PReady \<and> p_waiting_for par' = None \<and>
        map_option t_resume_context (threads_main (p_threads par')) =
        map_option (\<lambda>m. map_option (\<lambda>x. x\<lparr>c_rax := s\<rparr>) (t_resume_context m)) (threads_main (p_threads par))))"
proof -
  from t obtain q where q: "get_process k t = Some q"
    and woken: "\<forall>pp par. p_parent_pid q = Some pp \<longrightarrow> pp \<noteq> t \<longrightarrow> get_process k pp = Some par \<longrightarrow> waits_for_child t par \<longrightarrow>
       str_parent_woken rep \<and> k' = enqueue_ready (main_tid par) (modify_process pp
         (\<lambda>r. set_state PReady (modify_main (set_resume_rax s) (r\<lparr>p_waiting_for := None, p_sleeping_until_tick := None\<rparr>)))
         (modify_process t (set_state PReaped) (mark_exited now t s k)))"
    and rest: "(\<exists>pp par. p_parent_pid q = Some pp \<and> pp \<noteq> t \<and> get_process k pp = Some par \<and> waits_for_child t par) \<or>
       k' = mark_exited now t s k"
    by (rule terminate_cases)
  obtain d where d: "get_process (mark_exited now t s k) t = Some d" "terminal (p_state d)" "p_exit_status d = Some s"
    using terminal_mark_exited[OF q] by metis
  have qd: "set (tids_of (p_threads q)) \<inter> set (k_ready_queue (mark_exited now t s k)) = {}"
    using queue_mark_exited[OF q] by auto
  show ?thesis
  proof (cases "\<exists>pp par. p_parent_pid q = Some pp \<and> pp \<noteq> t \<and> get_process k pp = Some par \<and> waits_for_child t par")
    case False
    with rest d q qd show ?thesis by blast
  next
    case True
    then obtain pp par where p: "p_parent_pid q = Some pp" "pp \<noteq> t" "get_process k pp = Some par" "waits_for_child t par"
      by blast
    let ?f = "\<lambda>r. set_state PReady (modify_main (set_resume_rax s) (r\<lparr>p_waiting_for := None, p_sleeping_until_tick := None\<rparr>))"
    have k': "k' = enqueue_ready (main_tid par) (modify_process pp ?f
         (modify_process t (set_state PReaped) (mark_exited now t s k)))" using woken p by blast
    have "par \<noteq> q" using p(2) get_process_SomeD[OF p(3)] get_process_SomeD[OF q] by auto
    then have m: "main_tid par \<notin> set (tids_of (p_threads q))"
      using table_ok_owner_unique[OF ok] get_process_SomeD[OF p(3)] get_process_SomeD[OF q]
        table_ok_threads[OF ok] by (metis threads_ok_def)
    have gt: "get_process k' t = Some (set_state PReaped d)"
      using p(2) d(1) by (simp add: k' get_modify)
    have gp: "get_process k' pp = Some (?f par)"
      using p(2,3) by (simp add: k' get_modify get_process_mark_exited)
    have qs: "set (k_ready_queue k') = insert (main_tid par) (set (k_ready_queue (mark_exited now t s k)))"
      by (auto simp: k' enqueue_ready_def)
    have "map_option t_resume_context (threads_main (p_threads (?f par))) =
        map_option (\<lambda>m. map_option (\<lambda>x. x\<lparr>c_rax := s\<rparr>) (t_resume_context m)) (threads_main (p_threads par))"
      by (cases "threads_main (p_threads par)") (simp_all add: threads_main_set_state terminal_def)
    with gt gp qs qd m q d p show ?thesis
      by (intro exI[of _ q] exI[of _ "set_state PReaped d"]) (auto simp: terminal_def)
  qed
qed

section \<open>Concrete runs\<close>

definition example_signals :: kproc where
  "example_signals = example_table
     [(example_process 1 None PBlocked 1 [(ready_thread 1 1 0x1000)\<lparr>t_state := TBlocked\<rparr>])\<lparr>p_waiting_for := Some 2\<rparr>,
      (example_process 2 (Some 1) PReady 2 [ready_thread 2 2 0x2000])
        \<lparr>p_pending_signals := 0x4002, p_blocked_signals := 0x4002\<rparr>,
      (example_process 3 (Some 1) PReady 3 [ready_thread 3 3 0x3000])
        \<lparr>p_credentials := credentials_from_username (str ''guest'')\<rparr>]
     [2, 3] 4 4"

lemma example_signals_ok: "table_ok example_signals"
  by (simp add: example_signals_def example_defs table_ok_eval)

lemmas example_signals_eval =
  example_signals_def example_table_def example_process_def get_process_def

theorem update_signal_mask_delivers_lowest_witness:
  "\<exists>u k' q'. update_signal_mask 2 Unblock 0x4000 example_signals = (Some u, k') \<and>
     smu_delivered_signal u = Some 15 \<and> get_process k' 2 = Some q' \<and> p_blocked_signals q' = 2"
proof -
  let ?r = "update_signal_mask 2 Unblock 0x4000 example_signals"
  have l: "lowest_signal 0x4000 = Some 15" by code_simp
  have f: "fst ?r = Some \<lparr>smu_old_mask = 0x4002, smu_new_mask = 2, smu_delivered_signal = Some 15\<rparr>"
    by (simp add: update_signal_mask_def example_signals_eval terminal_def new_signal_mask_def l Let_def)
  then have r: "?r = (Some \<lparr>smu_old_mask = 0x4002, smu_new_mask = 2, smu_delivered_signal = Some 15\<rparr>, snd ?r)"
    by (simp add: prod_eq_iff)
  from update_signal_mask_delivers_lowest[OF r] obtain q' where
    "get_process (snd ?r) 2 = Some q'" "2 = p_blocked_signals q'" by auto
  with r show ?thesis by fastforce
qed

theorem send_signal_refused_witness:
  "send_signal 9 3 2 15 example_signals = (Inl SigPermissionDenied, example_signals)"
proof -
  have u: "cr_uid (credentials_from_username (str ''guest'')) = 1000"
    "cr_uid credentials_root = 0" by code_simp+
  have g: "get_process example_signals 3 = Some ((example_process 3 (Some 1) PReady 3 [ready_thread 3 3 0x3000])
        \<lparr>p_credentials := credentials_from_username (str ''guest'')\<rparr>)"
    "get_process example_signals 2 = Some ((example_process 2 (Some 1) PReady 2 [ready_thread 2 2 0x2000])
        \<lparr>p_pending_signals := 0x4002, p_blocked_signals := 0x4002\<rparr>)"
    by (simp_all add: example_signals_eval)
  show ?thesis
    using send_signal_refused[of 9 3 2 15 example_signals] g
    by (simp add: example_process_def u terminal_def)
qed

theorem terminate_effect_witness:
  "\<exists>rep k'. terminate_user_process 9 1 2 143 example_signals = (Inr rep, k') \<and>
     1 \<in> set (k_ready_queue k') \<and> 2 \<notin> set (k_ready_queue k')"
proof -
  let ?r = "terminate_user_process 9 1 2 143 example_signals"
  have u: "cr_uid credentials_root = 0" by code_simp
  have g: "get_process example_signals 1 = Some ((example_process 1 None PBlocked 1
        [(ready_thread 1 1 0x1000)\<lparr>t_state := TBlocked\<rparr>])\<lparr>p_waiting_for := Some 2\<rparr>)"
    "get_process example_signals 2 = Some ((example_process 2 (Some 1) PReady 2 [ready_thread 2 2 0x2000])
        \<lparr>p_pending_signals := 0x4002, p_blocked_signals := 0x4002\<rparr>)"
    by (simp_all add: example_signals_eval)
  have "\<exists>rep. fst ?r = Inr rep"
    by (simp add: terminate_user_process_def signal_target_def g may_signal_def terminal_def Let_def
        case_prod_beta) (simp add: example_process_def u)
  then obtain rep where "fst ?r = Inr rep" by blast
  then have r: "?r = (Inr rep, snd ?r)" by (simp add: prod_eq_iff)
  from terminate_effect[OF example_signals_ok r] g
  have "main_tid ((example_process 1 None PBlocked 1 [(ready_thread 1 1 0x1000)\<lparr>t_state := TBlocked\<rparr>])
      \<lparr>p_waiting_for := Some 2\<rparr>) \<in> set (k_ready_queue (snd ?r))"
    "2 \<notin> set (k_ready_queue (snd ?r))"
    by (auto simp: example_process_def waits_for_child_def tids_of_def ready_thread_def thread_new_def)
  then show ?thesis using r by (auto simp: example_process_def)
qed

end
