(* ===== verification/Process_Scheduler.thy ===== *)
theory Process_Scheduler
  imports Process_Signals
begin

text \<open>
  The ready queue and the user scheduler (\<^verbatim>\<open>ProcessTable\<close> of \<^verbatim>\<open>kernel/src/user/process.rs\<close>): taking
  the next thread, preemption, yield accounting and the statistics.  The \<^verbatim>\<open>while\<close> loops that pop
  the queue are recursive functions whose measure is its length.
\<close>

section \<open>Taking the next thread\<close>

definition skip_queued :: "kproc \<Rightarrow> kproc" where
  "skip_queued k = k\<lparr>k_ready_queue_skips := saturating_add (k_ready_queue_skips k) 1\<rparr>"

definition run_thread :: "u64 \<Rightarrow> tid \<Rightarrow> kproc \<Rightarrow> kproc" where
  "run_thread now tid k =
     (modify_by_tid tid (\<lambda>p. refresh_state_from_threads
        (modify_thread tid (\<lambda>t. start_thread_run now (t\<lparr>t_state := TRunning\<rparr>)) p)) k)
       \<lparr>k_user_context_switches := k_user_context_switches k + 1\<rparr>"

function dequeue_ready :: "u64 \<Rightarrow> kproc \<Rightarrow> pid option \<times> kproc" where
  "dequeue_ready now k =
     (case k_ready_queue k of
        [] \<Rightarrow> (None, k)
      | tid # rest \<Rightarrow>
          let k = k\<lparr>k_ready_queue := rest\<rparr>
          in (case get_by_tid k tid of
                None \<Rightarrow> dequeue_ready now (skip_queued k)
              | Some p \<Rightarrow>
                  (case threads_get (p_threads p) tid of
                     None \<Rightarrow> dequeue_ready now (skip_queued k)
                   | Some t \<Rightarrow>
                       if t_state t \<noteq> TReady then dequeue_ready now (skip_queued k)
                       else (Some (p_pid p), run_thread now tid k))))"
  by pat_completeness auto
termination by (relation "measure (\<lambda>(_, k). length (k_ready_queue k))") (auto simp: skip_queued_def)

record scheduled_user_resume =
  sur_pid :: pid
  sur_tid :: tid
  sur_name :: bytes
  sur_resume_context :: user_resume_context
  sur_p4_frame :: "u64 option"

function schedule_next_ready_user :: "u64 \<Rightarrow> kproc \<Rightarrow> scheduled_user_resume option \<times> kproc" where
  "schedule_next_ready_user now k =
     (case k_ready_queue k of
        [] \<Rightarrow> (None, k)
      | tid # rest \<Rightarrow>
          let k = k\<lparr>k_ready_queue := rest\<rparr>
          in (case get_by_tid k tid of
                None \<Rightarrow> schedule_next_ready_user now (skip_queued k)
              | Some p \<Rightarrow>
                  (case threads_get (p_threads p) tid of
                     None \<Rightarrow> schedule_next_ready_user now (skip_queued k)
                   | Some t \<Rightarrow>
                       if t_state t \<noteq> TReady then schedule_next_ready_user now (skip_queued k)
                       else (case t_resume_context t of
                               None \<Rightarrow> schedule_next_ready_user now (skip_queued k)
                             | Some ctx \<Rightarrow>
                                 (Some \<lparr>sur_pid = p_pid p, sur_tid = tid, sur_name = p_name p,
                                        sur_resume_context = ctx,
                                        sur_p4_frame = as_p4_frame (p_address_space p)\<rparr>,
                                  run_thread now tid
                                    (modify_by_tid tid
                                      (modify_thread tid (\<lambda>t. t\<lparr>t_resume_context := None\<rparr>)) k))))))"
  by pat_completeness auto
termination by (relation "measure (\<lambda>(_, k). length (k_ready_queue k))") (auto simp: skip_queued_def)

declare dequeue_ready.simps [simp del] schedule_next_ready_user.simps [simp del]

section \<open>Preemption and yields\<close>

definition has_ready_thread_except :: "kproc \<Rightarrow> tid \<Rightarrow> bool" where
  "has_ready_thread_except k current_tid \<longleftrightarrow>
     list_ex (\<lambda>queued. queued \<noteq> current_tid \<and>
       (case thread_of k queued of None \<Rightarrow> False | Some t \<Rightarrow> t_state t = TReady)) (k_ready_queue k)"

definition has_ready_process_except :: "kproc \<Rightarrow> pid \<Rightarrow> bool" where
  "has_ready_process_except k p =
     has_ready_thread_except k (case get_process k p of None \<Rightarrow> p | Some q \<Rightarrow> main_tid q)"

definition preempt_running_thread ::
    "u64 \<Rightarrow> tid \<Rightarrow> user_resume_context \<Rightarrow> kproc \<Rightarrow> scheduled_user_resume option \<times> kproc"
where
  "preempt_running_thread now tid ctx k =
     (if \<not> has_ready_thread_except k tid then (None, k)
      else case mark_thread_yielded now tid ctx k of
             (False, k) \<Rightarrow> (None, k)
           | (True, k) \<Rightarrow> schedule_next_ready_user now k)"

definition preempt_running_user ::
    "u64 \<Rightarrow> pid \<Rightarrow> user_resume_context \<Rightarrow> kproc \<Rightarrow> scheduled_user_resume option \<times> kproc"
where
  "preempt_running_user now p ctx k =
     (case get_process k p of
        None \<Rightarrow> (None, k)
      | Some q \<Rightarrow> preempt_running_thread now (main_tid q) ctx k)"

definition record_thread_yield :: "tid \<Rightarrow> kproc \<Rightarrow> bool \<times> kproc" where
  "record_thread_yield tid k =
     (case thread_of k tid of
        None \<Rightarrow> (False, k)
      | Some t \<Rightarrow>
          if t_state t \<noteq> TRunning then (False, k)
          else (True, k\<lparr>k_user_context_switches := k_user_context_switches k + 1\<rparr>))"

definition record_user_yield :: "pid \<Rightarrow> kproc \<Rightarrow> bool \<times> kproc" where
  "record_user_yield p k =
     (case get_process k p of
        None \<Rightarrow> (False, k)
      | Some q \<Rightarrow> record_thread_yield (main_tid q) k)"

definition ready_queue_position :: "kproc \<Rightarrow> pid \<Rightarrow> nat option" where
  "ready_queue_position k p =
     (case get_process k p of
        None \<Rightarrow> None
      | Some q \<Rightarrow> map_option (\<lambda>i. i + 1) (position (\<lambda>queued. queued = main_tid q) (k_ready_queue k)))"

section \<open>Statistics\<close>

record process_stats =
  ps_process_count :: nat
  ps_kernel_task_count :: nat
  ps_user_process_count :: nat
  ps_ready_user_count :: nat
  ps_running_user_count :: nat
  ps_blocked_user_count :: nat
  ps_foreground_user_count :: nat
  ps_background_user_count :: nat
  ps_ready_count :: nat
  ps_ready_queue_count :: nat
  ps_running_count :: nat
  ps_exited_count :: nat
  ps_next_pid :: pid
  ps_user_context_switches :: u64
  ps_ready_queue_skips :: u64
  ps_timer_preempt_checks :: u64
  ps_timer_preempt_requests :: u64
  ps_timer_preempt_yields :: u64
  ps_timer_preempt_pending :: bool
  ps_thread_count :: nat

definition count_processes :: "(process \<Rightarrow> bool) \<Rightarrow> kproc \<Rightarrow> nat" where
  "count_processes P k = length (filter P (k_processes k))"

definition stats :: "kproc \<Rightarrow> process_stats" where
  "stats k =
     \<lparr>ps_process_count = length (k_processes k),
      ps_kernel_task_count = count_processes (\<lambda>q. p_kind q = KernelTask) k,
      ps_user_process_count = count_processes (\<lambda>q. p_kind q = UserProcess) k,
      ps_ready_user_count = count_processes (\<lambda>q. p_kind q = UserProcess \<and> p_state q = PReady) k,
      ps_running_user_count = count_processes (\<lambda>q. p_kind q = UserProcess \<and> p_state q = PRunning) k,
      ps_blocked_user_count = count_processes (\<lambda>q. p_kind q = UserProcess \<and> p_state q = PBlocked) k,
      ps_foreground_user_count = count_processes (\<lambda>q. p_kind q = UserProcess \<and> p_job_mode q = Foreground) k,
      ps_background_user_count = count_processes (\<lambda>q. p_kind q = UserProcess \<and> p_job_mode q = Background) k,
      ps_ready_count = count_processes (\<lambda>q. p_state q = PReady) k,
      ps_ready_queue_count = length (k_ready_queue k),
      ps_running_count = count_processes (\<lambda>q. p_state q = PRunning) k,
      ps_exited_count = count_processes (\<lambda>q. terminal (p_state q)) k,
      ps_next_pid = k_next_pid k,
      ps_user_context_switches = k_user_context_switches k,
      ps_ready_queue_skips = k_ready_queue_skips k,
      ps_timer_preempt_checks = k_preempt_checks k,
      ps_timer_preempt_requests = k_preempt_requests k,
      ps_timer_preempt_yields = k_preempt_yields k,
      ps_timer_preempt_pending = k_preempt_pending k,
      ps_thread_count = sum_list (map (\<lambda>q. threads_len (p_threads q)) (k_processes k))\<rparr>"

section \<open>The scheduler picks the first runnable thread\<close>

definition runnable :: "kproc \<Rightarrow> tid \<Rightarrow> bool" where
  "runnable k tid \<longleftrightarrow>
     (case thread_of k tid of None \<Rightarrow> False | Some t \<Rightarrow> t_state t = TReady \<and> t_resume_context t \<noteq> None)"

lemma thread_of_skip [simp]: "thread_of (skip_queued k) t = thread_of k t"
  by (simp add: skip_queued_def)

lemma table_ok_skip [simp]: "table_ok (skip_queued k) = table_ok k"
  by (simp add: skip_queued_def)

lemma queue_skip [simp]: "k_ready_queue (skip_queued k) = k_ready_queue k"
  by (simp add: skip_queued_def)

lemma runnable_updates [simp]:
  "runnable (skip_queued k) t = runnable k t" "runnable (k\<lparr>k_ready_queue := q\<rparr>) t = runnable k t"
  by (simp_all add: runnable_def)

lemma table_ok_run_thread [simp]: "table_ok (run_thread now t k) = table_ok k"
  by (simp add: run_thread_def)

lemma queue_run_thread [simp]: "k_ready_queue (run_thread now t k) = k_ready_queue k"
  by (simp add: run_thread_def)

lemma thread_of_run:
  "thread_of (run_thread now t k) u =
   (if u = t then map_option (\<lambda>x. start_thread_run now (x\<lparr>t_state := TRunning\<rparr>)) (thread_of k t)
    else thread_of k u)"
proof -
  let ?h = "\<lambda>x. start_thread_run now (x\<lparr>t_state := TRunning\<rparr>)"
  have "thread_of (modify_by_tid t (\<lambda>p. refresh_state_from_threads (modify_thread t ?h p)) k) u =
      (if u = t then map_option ?h (thread_of k t) else thread_of k u)"
    by (rule thread_of_modify_by_tid) (simp_all add: modify_thread_def)
  then show ?thesis by (simp add: run_thread_def)
qed

text \<open>One turn of the loop, in terms of the thread lookup.\<close>

lemma schedule_step:
  "schedule_next_ready_user now k =
   (case k_ready_queue k of
      [] \<Rightarrow> (None, k)
    | tid # rest \<Rightarrow>
        if runnable k tid
        then (let p = the (get_by_tid k tid); k = k\<lparr>k_ready_queue := rest\<rparr>
              in (Some \<lparr>sur_pid = p_pid p, sur_tid = tid, sur_name = p_name p,
                        sur_resume_context = the (t_resume_context (the (thread_of k tid))),
                        sur_p4_frame = as_p4_frame (p_address_space p)\<rparr>,
                  run_thread now tid (modify_by_tid tid (modify_thread tid (\<lambda>t. t\<lparr>t_resume_context := None\<rparr>)) k)))
        else schedule_next_ready_user now (skip_queued (k\<lparr>k_ready_queue := rest\<rparr>)))"
proof (cases "k_ready_queue k")
  case (Cons tid rest)
  have g: "get_by_tid (k\<lparr>k_ready_queue := rest\<rparr>) tid = get_by_tid k tid" by (simp add: get_by_tid_def)
  show ?thesis
    by (subst schedule_next_ready_user.simps)
      (auto simp: Cons g runnable_def thread_of_def Let_def split: option.splits)
qed (subst schedule_next_ready_user.simps, simp)

lemma schedule_loop:
  assumes "k_ready_queue k = pre @ rest" and "\<forall>t\<in>set pre. \<not> runnable k t"
  shows "\<exists>n. schedule_next_ready_user now k =
    schedule_next_ready_user now (k\<lparr>k_ready_queue := rest, k_ready_queue_skips := n\<rparr>)"
  using assms
proof (induction pre arbitrary: k)
  case Nil
  then have "k\<lparr>k_ready_queue := rest, k_ready_queue_skips := k_ready_queue_skips k\<rparr> = k" by simp
  then show ?case by metis
next
  case (Cons t pre)
  let ?k = "skip_queued (k\<lparr>k_ready_queue := pre @ rest\<rparr>)"
  have "schedule_next_ready_user now k = schedule_next_ready_user now ?k"
    using Cons.prems by (subst schedule_step) simp
  moreover have "\<exists>n. schedule_next_ready_user now ?k =
      schedule_next_ready_user now (?k\<lparr>k_ready_queue := rest, k_ready_queue_skips := n\<rparr>)"
    using Cons.prems(2) by (intro Cons.IH) simp_all
  ultimately show ?case by (auto simp: skip_queued_def)
qed

lemma thread_of_schedule_run:
  assumes "thread_of k t = Some x"
  shows "thread_of (run_thread now t (modify_by_tid t (modify_thread t (\<lambda>t. t\<lparr>t_resume_context := None\<rparr>)) k)) u =
    (if u = t then Some (start_thread_run now (x\<lparr>t_resume_context := None, t_state := TRunning\<rparr>)) else thread_of k u)"
proof -
  have "thread_of (modify_by_tid t (modify_thread t (\<lambda>t. t\<lparr>t_resume_context := None\<rparr>)) k) v =
      (if v = t then map_option (\<lambda>x. x\<lparr>t_resume_context := None\<rparr>) (thread_of k t) else thread_of k v)" for v
    by (rule thread_of_modify_by_tid) (simp_all add: modify_thread_def)
  then show ?thesis using assms by (simp add: thread_of_run)
qed

lemma schedule_result:
  "case schedule_next_ready_user now k of
     (None, k') \<Rightarrow> (\<forall>t\<in>set (k_ready_queue k). \<not> runnable k t) \<and> k_ready_queue k' = [] \<and>
       (\<forall>t. thread_of k' t = thread_of k t)
   | (Some r, k') \<Rightarrow> \<exists>pre x. k_ready_queue k = pre @ sur_tid r # k_ready_queue k' \<and>
       (\<forall>t\<in>set pre. \<not> runnable k t) \<and> thread_of k (sur_tid r) = Some x \<and> t_state x = TReady \<and>
       t_resume_context x = Some (sur_resume_context r) \<and>
       (\<forall>t. thread_of k' t = (if t = sur_tid r
          then Some (start_thread_run now (x\<lparr>t_resume_context := None, t_state := TRunning\<rparr>))
          else thread_of k t))"
proof (cases "\<forall>t\<in>set (k_ready_queue k). \<not> runnable k t")
  case True
  then obtain n where "schedule_next_ready_user now k =
      schedule_next_ready_user now (k\<lparr>k_ready_queue := [], k_ready_queue_skips := n\<rparr>)"
    using schedule_loop[of k "k_ready_queue k" "[]"] by auto
  also have "\<dots> = (None, k\<lparr>k_ready_queue := [], k_ready_queue_skips := n\<rparr>)" by (subst schedule_step) simp
  finally show ?thesis using True by simp
next
  case False
  then obtain pre t post where q: "k_ready_queue k = pre @ t # post" "runnable k t" "\<forall>u\<in>set pre. \<not> runnable k u"
    by (metis split_list_first_prop)
  from q(2) obtain x c where x: "thread_of k t = Some x" "t_state x = TReady" "t_resume_context x = Some c"
    by (auto simp: runnable_def split: option.splits)
  obtain n where n: "schedule_next_ready_user now k =
      schedule_next_ready_user now (k\<lparr>k_ready_queue := t # post, k_ready_queue_skips := n\<rparr>)"
    using schedule_loop[OF q(1,3)] by blast
  let ?k = "k\<lparr>k_ready_queue_skips := n, k_ready_queue := post\<rparr>"
  have r: "runnable (k\<lparr>k_ready_queue := t # post, k_ready_queue_skips := n\<rparr>) t"
    using q(2) by (simp add: runnable_def)
  have "\<exists>s. schedule_next_ready_user now k = (Some s, run_thread now t
      (modify_by_tid t (modify_thread t (\<lambda>t. t\<lparr>t_resume_context := None\<rparr>)) ?k)) \<and>
      sur_tid s = t \<and> sur_resume_context s = c"
    unfolding n by (subst schedule_step) (simp add: r x Let_def)
  then obtain s where s: "schedule_next_ready_user now k = (Some s, run_thread now t
      (modify_by_tid t (modify_thread t (\<lambda>t. t\<lparr>t_resume_context := None\<rparr>)) ?k))"
    "sur_tid s = t" "sur_resume_context s = c" by blast
  have "thread_of ?k t = Some x" using x(1) by simp
  from thread_of_schedule_run[OF this, of now] show ?thesis
    using s x q by (auto simp: s(1))
qed

text \<open>
  C3: the scheduler is fair in queue order.  It resumes the first queued thread that is ready and
  has a saved context, with exactly that context; the threads before it in the queue were not
  runnable and are dropped, those behind it stay in order, and no other thread changes.  It
  resumes nothing exactly when no queued thread is runnable.
\<close>

theorem schedule_first_runnable:
  "case schedule_next_ready_user now k of
     (None, k') \<Rightarrow> (\<forall>t\<in>set (k_ready_queue k). \<not> runnable k t) \<and> k_ready_queue k' = [] \<and>
       (\<forall>t. thread_of k' t = thread_of k t)
   | (Some r, k') \<Rightarrow> \<exists>pre x. k_ready_queue k = pre @ sur_tid r # k_ready_queue k' \<and>
       (\<forall>t\<in>set pre. \<not> runnable k t) \<and> thread_of k (sur_tid r) = Some x \<and> t_state x = TReady \<and>
       t_resume_context x = Some (sur_resume_context r) \<and>
       (\<forall>t. thread_of k' t = (if t = sur_tid r
          then Some (start_thread_run now (x\<lparr>t_resume_context := None, t_state := TRunning\<rparr>))
          else thread_of k t))"
  by (rule schedule_result)

theorem schedule_first_runnable_witness:
  "\<exists>r k'. schedule_next_ready_user 7 example_two = (Some r, k') \<and> sur_tid r = 2 \<and>
     sur_resume_context r = empty_context\<lparr>c_rip := 0x2000\<rparr> \<and> k_ready_queue k' = []"
proof -
  have r: "runnable example_two 2" "k_ready_queue example_two = [2]"
    by (simp_all add: runnable_def lookup_eval example_two_def example_defs)
  have x: "map_option t_resume_context (thread_of example_two 2) = Some (Some (empty_context\<lparr>c_rip := 0x2000\<rparr>))"
    by (simp add: lookup_eval example_two_def example_defs)
  show ?thesis using schedule_first_runnable[where now = 7 and k = example_two] r x
    by (cases "schedule_next_ready_user 7 example_two" rule: prod.exhaust)
      (auto simp: append_eq_Cons_conv Cons_eq_append_conv split: option.splits)
qed

lemma table_ok_schedule:
  "table_ok k \<Longrightarrow> table_ok (snd (schedule_next_ready_user now k))"
proof (induction now k rule: schedule_next_ready_user.induct)
  case (1 now k)
  show ?case
  proof (cases "k_ready_queue k")
    case Nil
    with 1 show ?thesis by (subst schedule_next_ready_user.simps) simp
  next
    case (Cons t rest)
    have ok: "table_ok (k\<lparr>k_ready_queue := rest\<rparr>)"
      using 1 Cons table_ok_distinct_queue[of k] by (intro table_ok_queue) auto
    show ?thesis
      using 1 Cons ok
      by (subst schedule_next_ready_user.simps) (simp add: Let_def split: option.split)
  qed
qed

lemma table_ok_dequeue:
  "table_ok k \<Longrightarrow> table_ok (snd (dequeue_ready now k))"
proof (induction now k rule: dequeue_ready.induct)
  case (1 now k)
  show ?case
  proof (cases "k_ready_queue k")
    case Nil
    with 1 show ?thesis by (subst dequeue_ready.simps) simp
  next
    case (Cons t rest)
    have ok: "table_ok (k\<lparr>k_ready_queue := rest\<rparr>)"
      using 1 Cons table_ok_distinct_queue[of k] by (intro table_ok_queue) auto
    show ?thesis
      using 1 Cons ok
      by (subst dequeue_ready.simps) (simp add: Let_def split: option.split)
  qed
qed

lemma table_ok_preempt: "table_ok k \<Longrightarrow> table_ok (snd (preempt_running_thread now t c k))"
  using table_ok_lifecycle(3)[of now t c k] table_ok_schedule[of "snd (mark_thread_yielded now t c k)" now]
  by (simp add: preempt_running_thread_def case_prod_beta split: bool.split)

lemma table_ok_preempt_user: "table_ok k \<Longrightarrow> table_ok (snd (preempt_running_user now p c k))"
  by (simp add: preempt_running_user_def table_ok_preempt split: option.split)

lemma table_ok_yields [simp]:
  "table_ok (snd (record_thread_yield t k)) = table_ok k"
  "table_ok (snd (record_user_yield p k)) = table_ok k"
  by (simp_all add: record_user_yield_def record_thread_yield_def split: option.split)

section \<open>Preemption loses no thread\<close>

lemma thread_of_yield:
  assumes "mark_thread_yielded now t ctx k = (True, k1)"
  obtains x where "thread_of k t = Some x" "t_state x = TRunning"
    "\<forall>u. thread_of k1 u = (if u = t then Some ((stop_thread_run now x)
        \<lparr>t_resume_context := Some ctx, t_state := TReady\<rparr>) else thread_of k u)"
    "k_ready_queue k1 = (if t \<in> set (k_ready_queue k) then k_ready_queue k else k_ready_queue k @ [t])"
proof -
  let ?h = "\<lambda>x. (stop_thread_run now x)\<lparr>t_resume_context := Some ctx, t_state := TReady\<rparr>"
  let ?f = "\<lambda>p. refresh_state_from_threads ((modify_thread t ?h p)\<lparr>p_sleeping_until_tick := None\<rparr>)"
  from assms obtain x where x: "thread_of k t = Some x" "t_state x = TRunning"
    and k1: "k1 = enqueue_ready t (modify_by_tid t ?f k)"
    by (auto simp: mark_thread_yielded_def split: option.splits if_splits)
  have "thread_of (modify_by_tid t ?f k) u = (if u = t then map_option ?h (thread_of k t) else thread_of k u)" for u
    by (rule thread_of_modify_by_tid) (simp_all add: modify_thread_def)
  with x k1 show ?thesis by (intro that) (simp_all add: enqueue_ready_def)
qed

text \<open>
  C4: preemption never strands a thread.  When it finds nothing to switch to it leaves the whole
  table untouched; when it switches, the preempted thread is either the one resumed, with its own
  context, or ready and queued with the context it was interrupted in.
\<close>

theorem preempt_never_strands:
  "case preempt_running_thread now t ctx k of
     (None, k') \<Rightarrow> k' = k
   | (Some r, k') \<Rightarrow> (sur_tid r = t \<and> sur_resume_context r = ctx) \<or>
       (sur_tid r \<noteq> t \<and> t \<in> set (k_ready_queue k') \<and>
        (\<exists>x. thread_of k' t = Some x \<and> t_state x = TReady \<and> t_resume_context x = Some ctx))"
proof -
  obtain b k1 where y: "mark_thread_yielded now t ctx k = (b, k1)" by (cases "mark_thread_yielded now t ctx k")
  show ?thesis
  proof (cases "has_ready_thread_except k t \<and> b")
    case False
    moreover have "k1 = k" if "\<not> b"
      using y that by (auto simp: mark_thread_yielded_def split: option.splits if_splits)
    ultimately show ?thesis using y by (auto simp: preempt_running_thread_def split: bool.split)
  next
    case True
    with y have "mark_thread_yielded now t ctx k = (True, k1)" by simp
    then obtain x where x: "\<forall>u. thread_of k1 u = (if u = t then Some ((stop_thread_run now x)
        \<lparr>t_resume_context := Some ctx, t_state := TReady\<rparr>) else thread_of k u)"
      and q: "k_ready_queue k1 = (if t \<in> set (k_ready_queue k) then k_ready_queue k else k_ready_queue k @ [t])"
      by (rule thread_of_yield)
    have eq: "preempt_running_thread now t ctx k = schedule_next_ready_user now k1"
      using True y by (simp add: preempt_running_thread_def)
    have run: "runnable k1 t" "t \<in> set (k_ready_queue k1)" using x q by (auto simp: runnable_def)
    obtain o' k' where s: "schedule_next_ready_user now k1 = (o', k')" by (cases "schedule_next_ready_user now k1")
    with schedule_result[where now = now and k = k1] run obtain r where r: "o' = Some r" by (cases o') auto
    from schedule_result[where now = now and k = k1] s r obtain pre y where f:
      "k_ready_queue k1 = pre @ sur_tid r # k_ready_queue k'" "\<forall>u\<in>set pre. \<not> runnable k1 u"
      "thread_of k1 (sur_tid r) = Some y" "t_resume_context y = Some (sur_resume_context r)"
      "\<forall>u. thread_of k' u = (if u = sur_tid r
          then Some (start_thread_run now (y\<lparr>t_resume_context := None, t_state := TRunning\<rparr>))
          else thread_of k1 u)" by auto
    show ?thesis
    proof (cases "sur_tid r = t")
      case True
      with f x eq s r show ?thesis by auto
    next
      case False
      then have "t \<in> set (k_ready_queue k')" using run f(1,2) by auto
      with False f x eq s r show ?thesis by auto
    qed
  qed
qed

lemma preempt_example_resumes:
  "map_option sur_tid (fst (preempt_running_thread 9 1 ctx example_two)) = Some 2"
proof -
  let ?r = "mark_thread_yielded 9 1 ctx example_two"
  have "fst ?r" by (simp add: mark_thread_yielded_def lookup_eval example_two_def example_defs)
  then have r: "?r = (True, snd ?r)" and t: "fst ?r = True" by (simp_all add: prod_eq_iff)
  have e: "has_ready_thread_except example_two 1" "runnable example_two 2" "k_ready_queue example_two = [2]"
    by (simp_all add: has_ready_thread_except_def runnable_def lookup_eval example_two_def example_defs)
  obtain x where "\<forall>u. thread_of (snd ?r) u = (if u = 1 then Some ((stop_thread_run 9 x)
      \<lparr>t_resume_context := Some ctx, t_state := TReady\<rparr>) else thread_of example_two u)"
    "k_ready_queue (snd ?r) = [2, 1]"
    by (rule thread_of_yield[OF r]) (simp add: e)
  then have "runnable (snd ?r) 2" "k_ready_queue (snd ?r) = [2, 1]" using e by (simp_all add: runnable_def)
  then show ?thesis
    using e by (simp add: preempt_running_thread_def case_prod_beta t) (subst schedule_step, simp add: Let_def)
qed

theorem preempt_never_strands_witness:
  "\<exists>r k' x. preempt_running_thread 9 1 (empty_context\<lparr>c_rip := 0x1234\<rparr>) example_two = (Some r, k') \<and>
     sur_tid r = 2 \<and> 1 \<in> set (k_ready_queue k') \<and> thread_of k' 1 = Some x \<and> t_state x = TReady \<and>
     t_resume_context x = Some (empty_context\<lparr>c_rip := 0x1234\<rparr>)"
  using preempt_example_resumes[of "empty_context\<lparr>c_rip := 0x1234\<rparr>"]
    preempt_never_strands[where now = 9 and t = 1 and ctx = "empty_context\<lparr>c_rip := 0x1234\<rparr>" and k = example_two]
  by (cases "preempt_running_thread 9 1 (empty_context\<lparr>c_rip := 0x1234\<rparr>) example_two") auto

end
