(* ===== verification/Input.thy ===== *)
theory Input
  imports Bounded_Fifo Process_Types
begin

text \<open>
  Keyboard and mouse input: the queues of \<^verbatim>\<open>kernel/src/input.rs\<close> and the interrupt handlers of
  \<^verbatim>\<open>kernel/src/drivers/keyboard.rs\<close> and \<^verbatim>\<open>mouse.rs\<close> that feed them.  The \<^verbatim>\<open>pc_keyboard\<close> decoder is a
  parameter; \<^verbatim>\<open>i16\<close> and \<^verbatim>\<open>i32\<close> values are integers, with the wrap-around written out.
\<close>

section \<open>Events\<close>

text \<open>The key codes the source names; \<open>OtherKey\<close> stands for the remaining ones of \<^verbatim>\<open>pc_keyboard::KeyCode\<close>.\<close>

datatype key_code =
    LShift | RShift | LControl | RControl | LAlt | RAltGr | LWin | RWin | KeyC | KeyZ
  | ArrowUp | ArrowDown | ArrowRight | ArrowLeft | KeyHome | KeyEnd | KeyDelete
  | Numpad8 | Numpad2 | Numpad6 | Numpad4 | Numpad7 | Numpad1 | NumpadPeriod | OtherKey nat

datatype mouse_button = LeftButton | RightButton | MiddleButton

datatype input_event =
    KeyboardKey key_code bool
  | KeyboardChar u32
  | MouseMove int int
  | MouseButtonEvent mouse_button bool

record modifier_state =
  mod_shift :: bool
  mod_ctrl :: bool
  mod_alt :: bool
  mod_super :: bool
  mod_fn :: bool

definition modifiers_new :: modifier_state where
  "modifiers_new = \<lparr>mod_shift = False, mod_ctrl = False, mod_alt = False, mod_super = False, mod_fn = False\<rparr>"

definition clamp :: "int \<times> int \<Rightarrow> int \<Rightarrow> int \<Rightarrow> int \<times> int" where
  "clamp pos max_x max_y = (min (max (fst pos) 0) (max_x - 1), min (max (snd pos) 0) (max_y - 1))"

definition EVENT_QUEUE_CAPACITY :: nat where "EVENT_QUEUE_CAPACITY = 256"
definition KEYBOARD_BYTE_QUEUE_CAPACITY :: nat where "KEYBOARD_BYTE_QUEUE_CAPACITY = 512"

text \<open>The queue together with the counters and the terminal signal beside it.\<close>

record input =
  in_events :: "input_event list"
  in_bytes :: bytes
  in_mouse :: "int \<times> int"
  in_modifiers :: modifier_state
  in_left :: bool
  in_right :: bool
  in_middle :: bool
  in_keyboard_events :: u64
  in_typed_chars :: u64
  in_mouse_moves :: u64
  in_mouse_buttons :: u64
  in_dropped :: u64
  in_terminal_signal :: u64

definition input_new :: input where
  "input_new =
     \<lparr>in_events = [], in_bytes = [], in_mouse = (40, 12), in_modifiers = modifiers_new,
      in_left = False, in_right = False, in_middle = False, in_keyboard_events = 0, in_typed_chars = 0,
      in_mouse_moves = 0, in_mouse_buttons = 0, in_dropped = 0, in_terminal_signal = 0\<rparr>"

section \<open>Queues\<close>

definition enqueue_event :: "input_event \<Rightarrow> input \<Rightarrow> input" where
  "enqueue_event e s =
     (if length (in_events s) < EVENT_QUEUE_CAPACITY then s\<lparr>in_events := in_events s @ [e]\<rparr>
      else s\<lparr>in_dropped := in_dropped s + 1\<rparr>)"

definition dequeue_event :: "input \<Rightarrow> input_event option \<times> input" where
  "dequeue_event s =
     (case in_events s of [] \<Rightarrow> (None, s) | e # es \<Rightarrow> (Some e, s\<lparr>in_events := es\<rparr>))"

definition enqueue_keyboard_byte :: "u8 \<Rightarrow> input \<Rightarrow> input" where
  "enqueue_keyboard_byte b s =
     (if length (in_bytes s) < KEYBOARD_BYTE_QUEUE_CAPACITY then s\<lparr>in_bytes := in_bytes s @ [b]\<rparr>
      else s\<lparr>in_dropped := in_dropped s + 1\<rparr>)"

definition enqueue_keyboard_bytes :: "bytes \<Rightarrow> input \<Rightarrow> input" where
  "enqueue_keyboard_bytes bs s = fold enqueue_keyboard_byte bs s"

definition dequeue_keyboard_byte :: "input \<Rightarrow> u8 option \<times> input" where
  "dequeue_keyboard_byte s =
     (case in_bytes s of [] \<Rightarrow> (None, s) | b # bs \<Rightarrow> (Some b, s\<lparr>in_bytes := bs\<rparr>))"

definition take_terminal_signal :: "input \<Rightarrow> u64 option \<times> input" where
  "take_terminal_signal s =
     (let signal = in_terminal_signal s
      in (if signal \<noteq> 0 then Some signal else None, s\<lparr>in_terminal_signal := 0\<rparr>))"

definition requeue_terminal_signal :: "u64 \<Rightarrow> input \<Rightarrow> input" where
  "requeue_terminal_signal signal s = s\<lparr>in_terminal_signal := signal\<rparr>"

section \<open>Keyboard\<close>

definition terminal_sequence_for_key :: "key_code \<Rightarrow> bytes option" where
  "terminal_sequence_for_key key =
     (if key \<in> {ArrowUp, Numpad8} then Some (0x1B # str ''[A'')
      else if key \<in> {ArrowDown, Numpad2} then Some (0x1B # str ''[B'')
      else if key \<in> {ArrowRight, Numpad6} then Some (0x1B # str ''[C'')
      else if key \<in> {ArrowLeft, Numpad4} then Some (0x1B # str ''[D'')
      else if key \<in> {KeyHome, Numpad7} then Some (0x1B # str ''[H'')
      else if key \<in> {KeyEnd, Numpad1} then Some (0x1B # str ''[F'')
      else if key \<in> {KeyDelete, NumpadPeriod} then Some (0x1B # str ''[3~'')
      else None)"

definition key_emits_terminal_sequence :: "key_code \<Rightarrow> bool" where
  "key_emits_terminal_sequence key \<longleftrightarrow> terminal_sequence_for_key key \<noteq> None"

definition update_modifier_state :: "key_code \<Rightarrow> bool \<Rightarrow> input \<Rightarrow> input" where
  "update_modifier_state key pressed s =
     (let m = in_modifiers s
      in s\<lparr>in_modifiers :=
           (if key \<in> {LShift, RShift} then m\<lparr>mod_shift := pressed\<rparr>
            else if key \<in> {LControl, RControl} then m\<lparr>mod_ctrl := pressed\<rparr>
            else if key \<in> {LAlt, RAltGr} then m\<lparr>mod_alt := pressed\<rparr>
            else if key \<in> {LWin, RWin} then m\<lparr>mod_super := pressed\<rparr>
            else m)\<rparr>)"

definition enqueue_terminal_sequence :: "key_code \<Rightarrow> input \<Rightarrow> input" where
  "enqueue_terminal_sequence key s =
     (case terminal_sequence_for_key key of None \<Rightarrow> s | Some bs \<Rightarrow> enqueue_keyboard_bytes bs s)"

definition handle_keyboard_key :: "key_code \<Rightarrow> bool \<Rightarrow> input \<Rightarrow> bool \<times> input" where
  "handle_keyboard_key key pressed s =
     (let s = update_modifier_state key pressed s;
          s = s\<lparr>in_keyboard_events := in_keyboard_events s + 1\<rparr>;
          terminal_control = (pressed \<and> mod_ctrl (in_modifiers s) \<and> key \<in> {KeyC, KeyZ});
          s = (if terminal_control then s\<lparr>in_terminal_signal := (if key = KeyC then SIGINT else SIGTSTP)\<rparr> else s);
          s = (if pressed \<and> \<not> terminal_control then enqueue_terminal_sequence key s else s);
          s = enqueue_event (KeyboardKey key pressed) s
      in (terminal_control, s))"

definition handle_keyboard_char :: "u32 \<Rightarrow> input \<Rightarrow> input" where
  "handle_keyboard_char ch s =
     (let s = s\<lparr>in_keyboard_events := in_keyboard_events s + 1, in_typed_chars := in_typed_chars s + 1\<rparr>;
          s = (if ch < 0x80 then enqueue_keyboard_byte (ucast ch) s else s)
      in enqueue_event (KeyboardChar ch) s)"

text \<open>
  The interrupt handler.  The decoder has a state \<open>'k\<close>: \<^verbatim>\<open>add_byte\<close> yields a key event or nothing,
  \<^verbatim>\<open>process_keyevent\<close> the decoded key of an event.
\<close>

datatype key_state = KeyUp | KeyDown | KeySingleShot

datatype decoded_key = Unicode u32 | RawKey key_code

record 'k keyboard_decoder =
  kd_add_byte :: "u8 \<Rightarrow> 'k \<Rightarrow> (key_code \<times> key_state) option \<times> 'k"
  kd_process_keyevent :: "key_code \<times> key_state \<Rightarrow> 'k \<Rightarrow> decoded_key option \<times> 'k"

definition keyboard_on_interrupt :: "'k keyboard_decoder \<Rightarrow> u8 \<Rightarrow> 'k \<times> input \<Rightarrow> 'k \<times> input" where
  "keyboard_on_interrupt kd scancode ks =
     (let (k, s) = ks
      in case kd_add_byte kd scancode k of
           (None, k) \<Rightarrow> (k, s)
         | (Some event, k) \<Rightarrow>
             let pressed = (snd event \<in> {KeyDown, KeySingleShot});
                 (terminal_control, s) = handle_keyboard_key (fst event) pressed s
             in (case kd_process_keyevent kd event k of
                   (Some (Unicode ch), k) \<Rightarrow>
                     (k, if \<not> terminal_control \<and> \<not> key_emits_terminal_sequence (fst event) then handle_keyboard_char ch s else s)
                 | (_, k) \<Rightarrow> (k, s)))"

section \<open>Mouse\<close>

text \<open>The \<^verbatim>\<open>as i16\<close> cast and the sum of two \<^verbatim>\<open>i16\<close> values, which wraps.\<close>

definition as_i16 :: "int \<Rightarrow> int" where
  "as_i16 x = signed_take_bit 15 x"

definition handle_mouse_move :: "int \<Rightarrow> int \<Rightarrow> input \<Rightarrow> input" where
  "handle_mouse_move x_delta y_delta s =
     (let x = as_i16 (as_i16 (fst (in_mouse s)) + x_delta);
          y = as_i16 (as_i16 (snd (in_mouse s)) - y_delta);
          s = s\<lparr>in_mouse := clamp (x, y) 80 25, in_mouse_moves := in_mouse_moves s + 1\<rparr>
      in enqueue_event (MouseMove x_delta y_delta) s)"

definition handle_mouse_button :: "mouse_button \<Rightarrow> bool \<Rightarrow> input \<Rightarrow> input" where
  "handle_mouse_button button pressed s =
     (let s = (case button of
                 LeftButton \<Rightarrow> s\<lparr>in_left := pressed\<rparr> | RightButton \<Rightarrow> s\<lparr>in_right := pressed\<rparr>
               | MiddleButton \<Rightarrow> s\<lparr>in_middle := pressed\<rparr>);
          s = s\<lparr>in_mouse_buttons := in_mouse_buttons s + 1\<rparr>
      in enqueue_event (MouseButtonEvent button pressed) s)"

record mouse_packet =
  mp_left :: bool
  mp_right :: bool
  mp_middle :: bool
  mp_x_overflow :: bool
  mp_y_overflow :: bool
  mp_x_movement :: int
  mp_y_movement :: int

record ps2_mouse =
  pm_bytes :: bytes
  pm_index :: nat
  pm_buttons :: "bool \<times> bool \<times> bool"

definition ps2_mouse_new :: ps2_mouse where
  "ps2_mouse_new = \<lparr>pm_bytes = [0, 0, 0], pm_index = 0, pm_buttons = (False, False, False)\<rparr>"

text \<open>A byte with its sign in the first byte of the packet: \<^verbatim>\<open>(byte as i16) | 0xFF00\<close>.\<close>

definition movement :: "bool \<Rightarrow> u8 \<Rightarrow> int" where
  "movement negative b = (if negative then sint (ucast b OR 0xFF00 :: u16) else sint (ucast b :: u16))"

definition parse_packet :: "bytes \<Rightarrow> mouse_packet" where
  "parse_packet bs =
     (let byte0 = bs ! 0
      in \<lparr>mp_left = byte0 AND 0x01 \<noteq> 0, mp_right = byte0 AND 0x02 \<noteq> 0, mp_middle = byte0 AND 0x04 \<noteq> 0,
          mp_x_overflow = byte0 AND 0x40 \<noteq> 0, mp_y_overflow = byte0 AND 0x80 \<noteq> 0,
          mp_x_movement = movement (byte0 AND 0x10 \<noteq> 0) (bs ! 1),
          mp_y_movement = movement (byte0 AND 0x20 \<noteq> 0) (bs ! 2)\<rparr>)"

definition dispatch_packet :: "mouse_packet \<Rightarrow> ps2_mouse \<times> input \<Rightarrow> ps2_mouse \<times> input" where
  "dispatch_packet packet ms =
     (let (m, s) = ms;
          s = (if (mp_x_movement packet \<noteq> 0 \<or> mp_y_movement packet \<noteq> 0) \<and> \<not> mp_x_overflow packet \<and> \<not> mp_y_overflow packet
               then handle_mouse_move (mp_x_movement packet) (mp_y_movement packet) s else s);
          (left, right, middle) = pm_buttons m;
          s = (if mp_left packet \<noteq> left then handle_mouse_button LeftButton (mp_left packet) s else s);
          s = (if mp_right packet \<noteq> right then handle_mouse_button RightButton (mp_right packet) s else s);
          s = (if mp_middle packet \<noteq> middle then handle_mouse_button MiddleButton (mp_middle packet) s else s)
      in (m\<lparr>pm_buttons := (mp_left packet, mp_right packet, mp_middle packet)\<rparr>, s))"

definition mouse_on_interrupt :: "u8 \<Rightarrow> ps2_mouse \<times> input \<Rightarrow> ps2_mouse \<times> input" where
  "mouse_on_interrupt data ms =
     (let (m, s) = ms
      in if pm_index m = 0 \<and> data AND 0x08 = 0 then (m\<lparr>pm_index := 0\<rparr>, s)
         else let m = m\<lparr>pm_bytes := (pm_bytes m)[pm_index m := data], pm_index := pm_index m + 1\<rparr>
              in if pm_index m < length (pm_bytes m) then (m, s)
                 else let m = m\<lparr>pm_index := 0\<rparr> in dispatch_packet (parse_packet (pm_bytes m)) (m, s))"

section \<open>Bounds\<close>

definition input_ok :: "input \<Rightarrow> bool" where
  "input_ok s \<longleftrightarrow>
     length (in_events s) \<le> EVENT_QUEUE_CAPACITY \<and> length (in_bytes s) \<le> KEYBOARD_BYTE_QUEUE_CAPACITY \<and>
     0 \<le> fst (in_mouse s) \<and> fst (in_mouse s) < 80 \<and> 0 \<le> snd (in_mouse s) \<and> snd (in_mouse s) < 25"

interpretation keyboard_fifo: bounded_fifo input_ok "\<lambda>_. True" in_bytes KEYBOARD_BYTE_QUEUE_CAPACITY
  enqueue_keyboard_byte "\<lambda>s. (the (fst (dequeue_keyboard_byte s)), snd (dequeue_keyboard_byte s))"
  by unfold_locales
    (auto simp: input_ok_def enqueue_keyboard_byte_def dequeue_keyboard_byte_def split: list.splits)

interpretation event_fifo: bounded_fifo input_ok "\<lambda>_. True" in_events EVENT_QUEUE_CAPACITY
  enqueue_event "\<lambda>s. (the (fst (dequeue_event s)), snd (dequeue_event s))"
  by unfold_locales
    (auto simp: input_ok_def enqueue_event_def dequeue_event_def split: list.splits)

lemma input_new_ok: "input_ok input_new"
  by (simp add: input_ok_def input_new_def)

lemma enqueue_event_ok [simp]: "input_ok s \<Longrightarrow> input_ok (enqueue_event e s)"
  by (simp add: input_ok_def enqueue_event_def)

lemma enqueue_byte_ok [simp]: "input_ok s \<Longrightarrow> input_ok (enqueue_keyboard_byte b s)"
  by (simp add: input_ok_def enqueue_keyboard_byte_def)

lemma enqueue_bytes_ok [simp]: "input_ok s \<Longrightarrow> input_ok (enqueue_keyboard_bytes bs s)"
  unfolding enqueue_keyboard_bytes_def by (induction bs arbitrary: s) simp_all

lemma counters_ok [simp]:
  "input_ok (s\<lparr>in_keyboard_events := n\<rparr>) = input_ok s" "input_ok (s\<lparr>in_terminal_signal := n\<rparr>) = input_ok s"
  "input_ok (s\<lparr>in_typed_chars := n\<rparr>) = input_ok s" "input_ok (s\<lparr>in_mouse_moves := n\<rparr>) = input_ok s"
  "input_ok (s\<lparr>in_mouse_buttons := n\<rparr>) = input_ok s" "input_ok (s\<lparr>in_modifiers := m\<rparr>) = input_ok s"
  "input_ok (s\<lparr>in_left := p\<rparr>) = input_ok s" "input_ok (s\<lparr>in_right := p\<rparr>) = input_ok s" "input_ok (s\<lparr>in_middle := p\<rparr>) = input_ok s"
  by (simp_all add: input_ok_def)

lemma enqueue_terminal_sequence_ok [simp]: "input_ok s \<Longrightarrow> input_ok (enqueue_terminal_sequence key s)"
  by (simp add: enqueue_terminal_sequence_def split: option.splits)

lemma handle_keyboard_key_ok: "input_ok s \<Longrightarrow> input_ok (snd (handle_keyboard_key key pressed s))"
  unfolding handle_keyboard_key_def update_modifier_state_def Let_def
  by (simp split del: if_split) simp

lemma handle_keyboard_char_ok: "input_ok s \<Longrightarrow> input_ok (handle_keyboard_char ch s)"
proof -
  assume "input_ok s"
  then have "input_ok (s\<lparr>in_keyboard_events := n, in_typed_chars := v\<rparr>)" for n v by (simp add: input_ok_def)
  then show ?thesis by (simp add: handle_keyboard_char_def Let_def)
qed

lemma keyboard_on_interrupt_ok: "input_ok s \<Longrightarrow> input_ok (snd (keyboard_on_interrupt kd scancode (k, s)))"
  using handle_keyboard_key_ok handle_keyboard_char_ok
  by (fastforce simp: keyboard_on_interrupt_def Let_def split: prod.splits option.splits decoded_key.splits
      dest: arg_cong[where f = snd])

section \<open>Terminal control keys\<close>

lemma event_keeps [simp]:
  "in_bytes (enqueue_event e s) = in_bytes s" "in_terminal_signal (enqueue_event e s) = in_terminal_signal s"
  "in_mouse (enqueue_event e s) = in_mouse s" "in_modifiers (enqueue_event e s) = in_modifiers s"
  by (simp_all add: enqueue_event_def)

text \<open>
  C39: Ctrl-C and Ctrl-Z are signals, not input.  Whatever the keyboard decoder makes of it, the
  interrupt that reports C or Z pressed while Control is held posts the interrupt or the stop signal,
  which the next poll takes exactly once, and adds nothing to the bytes a program reads.
\<close>

theorem terminal_control_key:
  assumes "kd_add_byte kd scancode k = (Some (key, KeyDown), k')" "key \<in> {KeyC, KeyZ}" "mod_ctrl (in_modifiers s)"
    and "keyboard_on_interrupt kd scancode (k, s) = (k2, s2)"
  shows "in_bytes s2 = in_bytes s \<and>
    (\<exists>s3. take_terminal_signal s2 = (Some (if key = KeyC then SIGINT else SIGTSTP), s3) \<and> take_terminal_signal s3 = (None, s3))"
proof -
  obtain s1 where key: "handle_keyboard_key key True s = (True, s1)" and bytes: "in_bytes s1 = in_bytes s"
    and signal: "in_terminal_signal s1 = (if key = KeyC then SIGINT else SIGTSTP)"
    using assms(2,3) by (auto simp: handle_keyboard_key_def update_modifier_state_def Let_def)
  have "s2 = s1"
    using assms(1,4) key by (auto simp: keyboard_on_interrupt_def split: prod.splits option.splits decoded_key.splits)
  then show ?thesis
    using bytes signal by (simp add: take_terminal_signal_def SIGINT_def SIGTSTP_def Let_def)
qed

definition example_decoder :: "unit keyboard_decoder" where
  "example_decoder =
     \<lparr>kd_add_byte = (\<lambda>b k. (if b = 0x2E then Some (KeyC, KeyDown) else if b = 0x1D then Some (LControl, KeyDown) else None, k)),
      kd_process_keyevent = (\<lambda>e k. (if fst e = KeyC then Some (Unicode 0x63) else None, k))\<rparr>"

theorem terminal_control_key_witness:
  "let (k, s) = keyboard_on_interrupt example_decoder 0x1D ((), input_new)
   in mod_ctrl (in_modifiers s) \<and> in_bytes (snd (keyboard_on_interrupt example_decoder 0x2E (k, s))) = []"
proof -
  obtain k s where s: "keyboard_on_interrupt example_decoder 0x1D ((), input_new) = (k, s)" by (cases "keyboard_on_interrupt example_decoder 0x1D ((), input_new)")
  then have c: "mod_ctrl (in_modifiers s)" "in_bytes s = []"
    by (auto simp: keyboard_on_interrupt_def example_decoder_def handle_keyboard_key_def update_modifier_state_def
      enqueue_event_def input_new_def EVENT_QUEUE_CAPACITY_def enqueue_terminal_sequence_def terminal_sequence_for_key_def Let_def)
  obtain k2 s2 where 2: "keyboard_on_interrupt example_decoder 0x2E (k, s) = (k2, s2)" by (cases "keyboard_on_interrupt example_decoder 0x2E (k, s)")
  have "kd_add_byte example_decoder 0x2E k = (Some (KeyC, KeyDown), k)" by (simp add: example_decoder_def)
  from terminal_control_key[OF this _ c(1) 2] show ?thesis using c s 2 by simp
qed

section \<open>The pointer\<close>

lemma signed_small: "- 32768 \<le> x \<Longrightarrow> x < 32768 \<Longrightarrow> as_i16 x = x"
  unfolding as_i16_def by (rule signed_take_bit_int_eq_self) simp_all

lemma movement_value: "movement negative b = (if negative then uint b - 256 else uint b)"
proof -
  have u: "0 \<le> uint b" "uint b < 256" using uint_bounded[of b] by simp_all
  have pos: "uint (ucast b :: u16) = uint b" using u by (simp add: unsigned_ucast_eq take_bit_int_eq_self)
  have "uint (ucast b OR 0xFF00 :: u16) = uint b + 0xFF00"
  proof -
    have "(ucast b :: u16) AND 0xFF00 = 0"
    proof (rule bit_eqI)
      fix n
      have "\<not> bit (0xFF00 :: u16) n" if "n < 8" using that by (auto simp: less_Suc_eq numeral_eq_Suc)
      then show "bit (ucast b AND 0xFF00 :: u16) n \<longleftrightarrow> bit (0 :: u16) n"
        using bit_imp_le_length[of b n] by (auto simp: bit_and_iff bit_ucast_iff)
    qed
    then have "(ucast b OR 0xFF00 :: u16) = ucast b + 0xFF00" by (simp add: disjunctive_add_eq_or)
    then show ?thesis using u by (simp add: uint_word_ariths pos)
  qed
  moreover have "(98048 + uint b) mod 65536 = 32512 + uint b"
  proof -
    have "98048 + uint b = (32512 + uint b) + 65536" by simp
    then show ?thesis using u by (simp only: mod_add_self2) simp
  qed
  ultimately have "sint (ucast b OR 0xFF00 :: u16) = uint b - 256" "sint (ucast b :: u16) = uint b"
    using u pos by (simp_all add: sint_uint signed_take_bit_eq_take_bit_shift take_bit_eq_mod)
  then show ?thesis by (simp add: movement_def)
qed

text \<open>The sums of \<^verbatim>\<open>handle_mouse_move\<close> stay inside \<^verbatim>\<open>i16\<close> for every movement a packet can carry.\<close>

lemma handle_mouse_move_position:
  assumes "input_ok s" "- 256 \<le> dx" "dx < 256" "- 256 \<le> dy" "dy < 256"
  shows "in_mouse (handle_mouse_move dx dy s) = clamp (fst (in_mouse s) + dx, snd (in_mouse s) - dy) 80 25"
  using assms by (simp add: handle_mouse_move_def input_ok_def signed_small Let_def)

lemma handle_mouse_move_ok: "input_ok s \<Longrightarrow> input_ok (handle_mouse_move dx dy s)"
  by (auto simp: handle_mouse_move_def input_ok_def enqueue_event_def clamp_def Let_def)

lemma handle_mouse_button_ok [simp]: "input_ok s \<Longrightarrow> input_ok (handle_mouse_button b p s)"
  by (cases b) (simp_all add: handle_mouse_button_def Let_def)

lemma handle_mouse_button_position [simp]: "in_mouse (handle_mouse_button b p s) = in_mouse s"
  by (cases b) (simp_all add: handle_mouse_button_def Let_def)

definition mouse_ok :: "ps2_mouse \<Rightarrow> bool" where
  "mouse_ok m \<longleftrightarrow> length (pm_bytes m) = 3 \<and> pm_index m < 3"

definition buttons_held :: "input \<Rightarrow> bool \<times> bool \<times> bool" where
  "buttons_held s = (in_left s, in_right s, in_middle s)"

text \<open>Where a complete packet moves the pointer.\<close>

definition moved :: "bytes \<Rightarrow> int \<times> int \<Rightarrow> int \<times> int" where
  "moved bs pos =
     (if bs ! 0 AND 0x40 \<noteq> 0 \<or> bs ! 0 AND 0x80 \<noteq> 0 then pos
      else clamp (fst pos + (uint (bs ! 1) - (if bs ! 0 AND 0x10 \<noteq> 0 then 256 else 0)),
                  snd pos - (uint (bs ! 2) - (if bs ! 0 AND 0x20 \<noteq> 0 then 256 else 0))) 80 25)"

lemma clamp_inside: "input_ok s \<Longrightarrow> clamp (in_mouse s) 80 25 = in_mouse s"
  by (cases "in_mouse s") (auto simp: input_ok_def clamp_def)

lemma dispatch_packet_effect:
  assumes "input_ok s" "dispatch_packet (parse_packet bs) (m, s) = (m', s')"
  shows "input_ok s' \<and> in_mouse s' = moved bs (in_mouse s) \<and>
    m' = m\<lparr>pm_buttons := (bs ! 0 AND 1 \<noteq> 0, bs ! 0 AND 2 \<noteq> 0, bs ! 0 AND 4 \<noteq> 0)\<rparr>"
proof -
  let ?p = "parse_packet bs"
  let ?s = "if (mp_x_movement ?p \<noteq> 0 \<or> mp_y_movement ?p \<noteq> 0) \<and> \<not> mp_x_overflow ?p \<and> \<not> mp_y_overflow ?p
    then handle_mouse_move (mp_x_movement ?p) (mp_y_movement ?p) s else s"
  have b: "0 \<le> uint (bs ! 1)" "uint (bs ! 1) < 256" "0 \<le> uint (bs ! 2)" "uint (bs ! 2) < 256"
    using uint_bounded[of "bs ! 1"] uint_bounded[of "bs ! 2"] by simp_all
  have ok: "input_ok ?s" using assms(1) handle_mouse_move_ok by simp
  have x: "mp_x_movement ?p = uint (bs ! 1) - (if bs ! 0 AND 0x10 \<noteq> 0 then 256 else 0)"
    and y: "mp_y_movement ?p = uint (bs ! 2) - (if bs ! 0 AND 0x20 \<noteq> 0 then 256 else 0)"
    by (simp_all add: parse_packet_def movement_value Let_def)
  have "in_mouse ?s = moved bs (in_mouse s)"
  proof (cases "bs ! 0 AND 0x40 \<noteq> 0 \<or> bs ! 0 AND 0x80 \<noteq> 0")
    case True
    then show ?thesis by (auto simp: moved_def parse_packet_def Let_def)
  next
    case False
    then have o: "\<not> mp_x_overflow ?p" "\<not> mp_y_overflow ?p" by (simp_all add: parse_packet_def Let_def)
    have "- 256 \<le> mp_x_movement ?p" "mp_x_movement ?p < 256" "- 256 \<le> mp_y_movement ?p" "mp_y_movement ?p < 256"
      unfolding x y using b by (auto split: if_splits intro: order.trans[of _ 0])
    note pos = handle_mouse_move_position[OF assms(1) this]
    have "in_mouse ?s = clamp (fst (in_mouse s) + mp_x_movement ?p, snd (in_mouse s) - mp_y_movement ?p) 80 25"
      using pos o clamp_inside[OF assms(1)] by auto
    then show ?thesis using False by (simp add: moved_def x y)
  qed
  then show ?thesis
    using assms(2) ok by (cases "pm_buttons m") (auto simp: dispatch_packet_def parse_packet_def Let_def)
qed

text \<open>
  C40: the pointer follows the mouse and never leaves the screen.  From the start of a packet, three
  bytes the mouse may send move the pointer by exactly the signed movement they encode, cut at the edges
  of the 80 by 25 screen, or leave it in place when the packet reports an overflow: no sum of the
  16-bit coordinates wraps.  A byte that cannot start a packet is skipped.
\<close>

theorem mouse_packet_moves_pointer:
  assumes "input_ok s" "mouse_ok m" "pm_index m = 0"
  shows "(b0 AND 0x08 = 0 \<longrightarrow> mouse_on_interrupt b0 (m, s) = (m, s)) \<and>
    (b0 AND 0x08 \<noteq> 0 \<longrightarrow>
       (\<exists>m' s'. fold mouse_on_interrupt [b0, b1, b2] (m, s) = (m', s') \<and> input_ok s' \<and> mouse_ok m' \<and> pm_index m' = 0 \<and>
          in_mouse s' = moved [b0, b1, b2] (in_mouse s)))"
proof (intro conjI impI)
  show "mouse_on_interrupt b0 (m, s) = (m, s)" if "b0 AND 0x08 = 0"
    using assms(3) that by (simp add: mouse_on_interrupt_def)
  assume start: "b0 AND 0x08 \<noteq> 0"
  obtain x y z where m: "pm_bytes m = [x, y, z]"
    using assms(2) by (auto simp: mouse_ok_def numeral_eq_Suc length_Suc_conv)
  let ?m = "m\<lparr>pm_bytes := [b0, b1, b2], pm_index := 0\<rparr>"
  have "fold mouse_on_interrupt [b0, b1, b2] (m, s) = dispatch_packet (parse_packet [b0, b1, b2]) (?m, s)"
    using start assms(3) m by (simp add: mouse_on_interrupt_def)
  moreover obtain m' s' where d: "dispatch_packet (parse_packet [b0, b1, b2]) (?m, s) = (m', s')"
    by (cases "dispatch_packet (parse_packet [b0, b1, b2]) (?m, s)")
  ultimately show "\<exists>m' s'. fold mouse_on_interrupt [b0, b1, b2] (m, s) = (m', s') \<and> input_ok s' \<and> mouse_ok m' \<and> pm_index m' = 0 \<and>
      in_mouse s' = moved [b0, b1, b2] (in_mouse s)"
    using dispatch_packet_effect[OF assms(1) d] by (simp add: mouse_ok_def)
qed

theorem mouse_packet_moves_pointer_witness:
  "in_mouse (snd (fold mouse_on_interrupt [0x38, 0xFE, 0xFF] (ps2_mouse_new, input_new))) = (38, 13)"
proof -
  have "mouse_ok ps2_mouse_new" "pm_index ps2_mouse_new = 0" by (simp_all add: mouse_ok_def ps2_mouse_new_def)
  from mouse_packet_moves_pointer[OF input_new_ok this, of "0x38" "0xFE" "0xFF"]
  show ?thesis by (auto simp: moved_def clamp_def input_new_def)
qed

end
