(* ===== verification/Kernel_State.thy ===== *)
theory Kernel_State
  imports Ipc Vfs Process_Scheduler Input
begin

text \<open>
  The tables behind the system calls (\<^verbatim>\<open>kernel/src/user/syscall.rs\<close> and \<^verbatim>\<open>kernel/src/user/program.rs\<close>): open
  files, pipes, events, message queues and pending programs, in one record with the process table,
  the input queues, the state of the filesystems and the active level-4 table.  The theory has the
  allocation of descriptors and everything that closes them.
\<close>

section \<open>Descriptors\<close>

datatype descriptor =
  FileDesc open_target nat
| DirDesc normalized_path nat
| PipeRead u64
| PipeWrite u64

record open_file =
  of_pid :: pid
  of_fd :: u64
  of_descriptor :: descriptor

definition MAX_OPEN_FILES :: nat where "MAX_OPEN_FILES = 16"
definition MAX_PIPES :: nat where "MAX_PIPES = 8"
definition MAX_EVENTS :: nat where "MAX_EVENTS = 16"
definition MAX_MESSAGE_QUEUES :: nat where "MAX_MESSAGE_QUEUES = 8"
definition FIRST_USER_FD :: nat where "FIRST_USER_FD = 3"

section \<open>Programs waiting to run\<close>

record user_program =
  up_pid :: pid
  up_parent_pid :: "pid option"
  up_name :: bytes
  up_path :: bytes
  up_entry :: u64
  up_stack_top :: u64
  up_arg :: user_program_arg
  up_job_mode :: job_mode

record user_shell_wait_request =
  wr_shell_pid :: pid
  wr_child_pid :: pid

section \<open>The state\<close>

text \<open>
  \<^verbatim>\<open>ks_cr3\<close> is the active level-4 table, through which user memory is reached in the physical memory of
  the process layer; \<^verbatim>\<open>ks_console\<close> is what programs printed.
\<close>

record 's ks =
  ks_proc :: kproc
  ks_files :: "open_file option list"
  ks_pipes :: "pipe option list"
  ks_next_pipe_id :: u64
  ks_events :: "event option list"
  ks_next_event_id :: u64
  ks_queues :: "message_queue option list"
  ks_next_queue_id :: u64
  ks_pending :: "user_program list"
  ks_wait_requests :: "user_shell_wait_request list"
  ks_input :: input
  ks_fs :: 's
  ks_cr3 :: u64
  ks_console :: bytes
  ks_traps :: u64
  ks_yields :: u64

section \<open>Allocation of descriptors\<close>

definition is_fd :: "pid \<Rightarrow> u64 \<Rightarrow> open_file option \<Rightarrow> bool" where
  "is_fd p fd e = (case e of None \<Rightarrow> False | Some f \<Rightarrow> of_pid f = p \<and> of_fd f = fd)"

definition fd_taken :: "open_file option list \<Rightarrow> pid \<Rightarrow> u64 \<Rightarrow> bool" where
  "fd_taken files p fd \<longleftrightarrow> list_ex (is_fd p fd) files"

text \<open>The descriptors the loop tries, in its order.\<close>

definition user_fds :: "u64 list" where
  "user_fds = map of_nat [FIRST_USER_FD ..< FIRST_USER_FD + MAX_OPEN_FILES]"

definition next_fd_for_pid :: "open_file option list \<Rightarrow> pid \<Rightarrow> u64 option" where
  "next_fd_for_pid files p = find (\<lambda>fd. \<not> fd_taken files p fd) user_fds"

definition next_fd_for_pid_excluding :: "open_file option list \<Rightarrow> pid \<Rightarrow> u64 \<Rightarrow> u64 option" where
  "next_fd_for_pid_excluding files p excluded =
     find (\<lambda>fd. \<not> (fd = excluded \<or> fd_taken files p fd)) user_fds"

definition first_free :: "'a option list \<Rightarrow> nat option" where
  "first_free xs = position (\<lambda>e. e = None) xs"

definition find_file :: "'s ks \<Rightarrow> pid \<Rightarrow> u64 \<Rightarrow> open_file option" where
  "find_file s p fd = (case find (is_fd p fd) (ks_files s) of None \<Rightarrow> None | Some e \<Rightarrow> e)"

section \<open>Closing\<close>

definition owned_pipe :: "pid \<Rightarrow> u64 \<Rightarrow> pipe option \<Rightarrow> bool" where
  "owned_pipe p i e = (case e of None \<Rightarrow> False | Some q \<Rightarrow> pi_id q = i \<and> pi_owner_pid q = p)"

text \<open>Dropping one end of a pipe; the pipe goes when both ends are gone.\<close>

definition drop_end :: "(pipe \<Rightarrow> pipe) \<Rightarrow> pipe option \<Rightarrow> pipe option" where
  "drop_end f e =
     (case e of
        None \<Rightarrow> None
      | Some q \<Rightarrow> (let q = f q in if pi_readers q = 0 \<and> pi_writers q = 0 then None else Some q))"

definition close_reader :: "pipe \<Rightarrow> pipe" where
  "close_reader q = q\<lparr>pi_readers := saturating_sub (pi_readers q) 1\<rparr>"

definition close_writer :: "pipe \<Rightarrow> pipe" where
  "close_writer q = q\<lparr>pi_writers := saturating_sub (pi_writers q) 1\<rparr>"

definition close_descriptor :: "pid \<Rightarrow> open_file \<Rightarrow> pipe option list \<Rightarrow> pipe option list" where
  "close_descriptor p f pipes =
     (case of_descriptor f of
        FileDesc _ _ \<Rightarrow> pipes
      | DirDesc _ _ \<Rightarrow> pipes
      | PipeRead i \<Rightarrow> update_first (owned_pipe p i) (drop_end close_reader) pipes
      | PipeWrite i \<Rightarrow> update_first (owned_pipe p i) (drop_end close_writer) pipes)"

definition close_fd_for_pid :: "pid \<Rightarrow> u64 \<Rightarrow> 's ks \<Rightarrow> (syscall_error + unit) \<times> 's ks" where
  "close_fd_for_pid p fd s =
     (case find (is_fd p fd) (ks_files s) of
        Some (Some f) \<Rightarrow>
          (Inr (), s\<lparr>ks_files := update_first (is_fd p fd) (\<lambda>_. None) (ks_files s),
                     ks_pipes := close_descriptor p f (ks_pipes s)\<rparr>)
      | _ \<Rightarrow> (Inl EInvalidArgument, s))"

definition file_of :: "pid \<Rightarrow> open_file option \<Rightarrow> bool" where
  "file_of p e = (case e of None \<Rightarrow> False | Some f \<Rightarrow> of_pid f = p)"

text \<open>The first loop of \<^verbatim>\<open>close_process_files\<close>.\<close>

fun close_files :: "pid \<Rightarrow> open_file option list \<Rightarrow> pipe option list \<Rightarrow> open_file option list \<times> pipe option list" where
  "close_files p [] pipes = ([], pipes)"
| "close_files p (e # es) pipes =
     (if file_of p e
      then let (es, pipes) = close_files p es (close_descriptor p (the e) pipes) in (None # es, pipes)
      else let (es, pipes) = close_files p es pipes in (e # es, pipes))"

text \<open>\<^verbatim>\<open>if slot.as_ref().is_some_and(p) { *slot = None }\<close>.\<close>

definition clear_slot :: "('a \<Rightarrow> bool) \<Rightarrow> 'a option \<Rightarrow> 'a option" where
  "clear_slot P e = (case e of None \<Rightarrow> None | Some v \<Rightarrow> if P v then None else Some v)"

definition close_process_files :: "pid \<Rightarrow> 's ks \<Rightarrow> 's ks" where
  "close_process_files p s =
     (let (files, pipes) = close_files p (ks_files s) (ks_pipes s)
      in s\<lparr>ks_files := files, ks_pipes := pipes,
           ks_events := map (clear_slot (\<lambda>v. ev_owner_pid v = p)) (ks_events s),
           ks_queues := map (clear_slot (\<lambda>v. q_owner_pid v = p)) (ks_queues s)\<rparr>)"

section \<open>Accounting of pipe ends\<close>

text \<open>The number of descriptors of a process that refer to one end of a pipe.\<close>

definition ends :: "pid \<Rightarrow> descriptor \<Rightarrow> open_file option list \<Rightarrow> nat" where
  "ends p d es = length (filter (\<lambda>e. case e of None \<Rightarrow> False | Some f \<Rightarrow> of_pid f = p \<and> of_descriptor f = d) es)"

lemma ends_simps [simp]:
  "ends p d [] = 0"
  "ends p d (None # es) = ends p d es"
  "ends p d (Some f # es) = (if of_pid f = p \<and> of_descriptor f = d then 1 else 0) + ends p d es"
  "ends p d (es @ fs) = ends p d es + ends p d fs"
  by (simp_all add: ends_def)

definition owned_ids :: "pid \<Rightarrow> pipe option list \<Rightarrow> u64 list" where
  "owned_ids p es = concat (map (\<lambda>e. case e of None \<Rightarrow> [] | Some q \<Rightarrow> if pi_owner_pid q = p then [pi_id q] else []) es)"

lemma owned_ids_simps [simp]:
  "owned_ids p [] = []"
  "owned_ids p (None # es) = owned_ids p es"
  "owned_ids p (Some q # es) = (if pi_owner_pid q = p then [pi_id q] else []) @ owned_ids p es"
  "owned_ids p (es @ fs) = owned_ids p es @ owned_ids p fs"
  by (simp_all add: owned_ids_def)

lemma in_owned_ids: "Some q \<in> set es \<Longrightarrow> pi_owner_pid q = p \<Longrightarrow> pi_id q \<in> set (owned_ids p es)"
  by (induction es) (auto simp: owned_ids_def split: option.split)

definition pipe_acct :: "pid \<Rightarrow> open_file option list \<Rightarrow> pipe \<Rightarrow> bool" where
  "pipe_acct p es q \<longleftrightarrow>
     unat (pi_readers q) = ends p (PipeRead (pi_id q)) es \<and> unat (pi_writers q) = ends p (PipeWrite (pi_id q)) es \<and>
     (pi_readers q \<noteq> 0 \<or> pi_writers q \<noteq> 0)"

definition acct :: "pid \<Rightarrow> open_file option list \<Rightarrow> pipe option list \<Rightarrow> bool" where
  "acct p es pipes \<longleftrightarrow> distinct (owned_ids p pipes) \<and>
     (\<forall>q. Some q \<in> set pipes \<longrightarrow> pi_owner_pid q = p \<longrightarrow> pipe_acct p es q)"

definition pipe_of :: "pid \<Rightarrow> pipe option \<Rightarrow> bool" where
  "pipe_of p e = (case e of None \<Rightarrow> False | Some q \<Rightarrow> pi_owner_pid q = p)"

lemma close_end_simps [simp]:
  "pi_id (close_reader q) = pi_id q" "pi_owner_pid (close_reader q) = pi_owner_pid q"
  "pi_writers (close_reader q) = pi_writers q" "unat (pi_readers (close_reader q)) = unat (pi_readers q) - 1"
  "pi_id (close_writer q) = pi_id q" "pi_owner_pid (close_writer q) = pi_owner_pid q"
  "pi_readers (close_writer q) = pi_readers q" "unat (pi_writers (close_writer q)) = unat (pi_writers q) - 1"
  by (simp_all add: close_reader_def close_writer_def unat_saturating_sub)

text \<open>Closing one descriptor keeps the books, whichever end it is.\<close>

lemma acct_drop_end:
  assumes a: "acct p (Some f # es) pipes" and f: "of_pid f = p" "of_descriptor f = d"
    and d: "(d = PipeRead i \<and> g = close_reader) \<or> (d = PipeWrite i \<and> g = close_writer)"
  shows "acct p es (update_first (owned_pipe p i) (drop_end g) pipes)"
proof (cases "find (owned_pipe p i) pipes")
  case None
  then have n: "\<not> (pi_id q = i \<and> pi_owner_pid q = p)" if "Some q \<in> set pipes" for q
    using that by (auto simp: find_None_iff_all owned_pipe_def)
  show ?thesis
    using a n f d unfolding update_first_absent[OF None] acct_def pipe_acct_def by (auto split: if_splits)
next
  case (Some e)
  then obtain q where q: "e = Some q" "pi_id q = i" "pi_owner_pid q = p"
    using find_SomeD[OF Some] by (auto simp: owned_pipe_def split: option.splits)
  obtain us vs where s: "pipes = us @ Some q # vs"
    "update_first (owned_pipe p i) (drop_end g) pipes = us @ drop_end g (Some q) # vs"
    using update_first_split[OF Some, of "drop_end g"] q(1) by auto
  have dist: "i \<notin> set (owned_ids p us)" "i \<notin> set (owned_ids p vs)" "distinct (owned_ids p us @ owned_ids p vs)"
    using a s(1) q by (auto simp: acct_def)
  have acc: "pipe_acct p (Some f # es) r" if "Some r \<in> set pipes" "pi_owner_pid r = p" for r
    using a that by (auto simp: acct_def)
  have other: "pipe_acct p es r" if "Some r \<in> set us \<union> set vs" "pi_owner_pid r = p" for r
  proof -
    have "pi_id r \<noteq> i" using in_owned_ids[OF _ that(2)] that(1) dist by auto
    then show ?thesis using acc[of r] that s(1) d f by (auto simp: pipe_acct_def)
  qed
  have gq: "pi_id (g q) = i" "pi_owner_pid (g q) = p" using d q by auto
  have self: "pipe_acct p es (g q) \<or> (pi_readers (g q) = 0 \<and> pi_writers (g q) = 0)"
    using acc[of q] s(1) q d f by (auto simp: pipe_acct_def)
  show ?thesis
  proof (cases "pi_readers (g q) = 0 \<and> pi_writers (g q) = 0")
    case True
    then have "drop_end g (Some q) = None" by (simp add: drop_end_def Let_def)
    then show ?thesis using dist(3) other unfolding s(2) acct_def by auto
  next
    case False
    then have "drop_end g (Some q) = Some (g q)" by (simp add: drop_end_def Let_def)
    then show ?thesis using dist other self False gq unfolding s(2) acct_def by auto
  qed
qed

text \<open>What closing does to one slot, and to the list of slots as seen by everybody else.\<close>

abbreviation not_of :: "pid \<Rightarrow> pipe option \<Rightarrow> pipe option" where
  "not_of p \<equiv> clear_slot (\<lambda>q. pi_owner_pid q = p)"

lemma clear_slot_simps [simp]:
  "clear_slot P None = None" "clear_slot P (Some v) = (if P v then None else Some v)"
  by (simp_all add: clear_slot_def)

lemma not_of_drop_end:
  assumes "owned_pipe p i e" and "\<And>q. pi_owner_pid (g q) = pi_owner_pid q"
  shows "not_of p (drop_end g e) = not_of p e"
  using assms by (auto simp: owned_pipe_def drop_end_def Let_def split: option.splits)

lemma not_of_close_descriptor: "map (not_of p) (close_descriptor p f pipes) = map (not_of p) pipes"
  unfolding close_descriptor_def
  by (auto split: descriptor.splits intro!: map_update_first not_of_drop_end)

lemma acct_close_descriptor:
  assumes a: "acct p (Some f # es) pipes" and f: "of_pid f = p"
  shows "acct p es (close_descriptor p f pipes)"
proof (cases "of_descriptor f")
  case (PipeRead i)
  then show ?thesis unfolding close_descriptor_def using acct_drop_end[OF a f PipeRead, of i close_reader] by simp
next
  case (PipeWrite i)
  then show ?thesis unfolding close_descriptor_def using acct_drop_end[OF a f PipeWrite, of i close_writer] by simp
qed (use a in \<open>auto simp: close_descriptor_def acct_def pipe_acct_def\<close>)

lemma acct_skip: "\<not> file_of p e \<Longrightarrow> acct p (e # es) pipes = acct p es pipes"
  by (cases e) (auto simp: file_of_def acct_def pipe_acct_def)

lemma acct_Nil: "acct p [] pipes \<Longrightarrow> map (not_of p) pipes = pipes"
  by (rule map_idI) (auto simp: acct_def pipe_acct_def unat_eq_zero clear_slot_def split: option.splits)

lemma close_files_exact:
  "acct p es pipes \<Longrightarrow>
   close_files p es pipes = (map (clear_slot (\<lambda>f. of_pid f = p)) es, map (not_of p) pipes)"
proof (induction es arbitrary: pipes)
  case Nil
  then show ?case by (simp add: acct_Nil)
next
  case (Cons e es)
  show ?case
  proof (cases "file_of p e")
    case True
    then obtain f where f: "e = Some f" "of_pid f = p" by (auto simp: file_of_def split: option.splits)
    with Cons.prems have "acct p es (close_descriptor p f pipes)" by (simp add: acct_close_descriptor)
    from Cons.IH[OF this] show ?thesis using True f by (simp add: not_of_close_descriptor)
  next
    case False
    then have "clear_slot (\<lambda>f. of_pid f = p) e = e"
      by (auto simp: file_of_def clear_slot_def split: option.splits)
    with False Cons show ?thesis by (simp add: acct_skip)
  qed
qed

section \<open>The resource invariant\<close>

text \<open>
  Every table has its fixed number of slots, no process has two files under one descriptor, the
  counters of every pipe are the numbers of descriptors that refer to it, and identifiers in use are
  below the next one.
\<close>

definition fd_key :: "open_file option \<Rightarrow> (pid \<times> u64) list" where
  "fd_key e = (case e of None \<Rightarrow> [] | Some f \<Rightarrow> [(of_pid f, of_fd f)])"

definition fd_keys :: "open_file option list \<Rightarrow> (pid \<times> u64) list" where
  "fd_keys es = concat (map fd_key es)"

definition pipe_id_of :: "descriptor \<Rightarrow> u64 option" where
  "pipe_id_of d = (case d of PipeRead i \<Rightarrow> Some i | PipeWrite i \<Rightarrow> Some i | _ \<Rightarrow> None)"

definition ids_below :: "u64 \<Rightarrow> open_file option list \<Rightarrow> pipe option list \<Rightarrow> bool" where
  "ids_below n es pipes \<longleftrightarrow>
     (\<forall>q. Some q \<in> set pipes \<longrightarrow> pi_id q < n) \<and>
     (\<forall>f i. Some f \<in> set es \<longrightarrow> pipe_id_of (of_descriptor f) = Some i \<longrightarrow> i < n)"

definition res_ok :: "'s ks \<Rightarrow> bool" where
  "res_ok s \<longleftrightarrow>
     length (ks_files s) = MAX_OPEN_FILES \<and> length (ks_pipes s) = MAX_PIPES \<and>
     length (ks_events s) = MAX_EVENTS \<and> length (ks_queues s) = MAX_MESSAGE_QUEUES \<and>
     distinct (fd_keys (ks_files s)) \<and>
     (\<forall>p. acct p (ks_files s) (ks_pipes s)) \<and>
     ids_below (ks_next_pipe_id s) (ks_files s) (ks_pipes s) \<and>
     (\<forall>q. Some q \<in> set (ks_pipes s) \<longrightarrow> pipe_ok q) \<and>
     (\<forall>v. Some v \<in> set (ks_events s) \<longrightarrow> event_ok v) \<and>
     (\<forall>q. Some q \<in> set (ks_queues s) \<longrightarrow> queue_ok q)"

lemma fd_keys_simps [simp]:
  "fd_keys [] = []" "fd_keys (None # es) = fd_keys es"
  "fd_keys (Some f # es) = (of_pid f, of_fd f) # fd_keys es"
  "fd_keys (es @ fs) = fd_keys es @ fd_keys fs"
  by (simp_all add: fd_keys_def fd_key_def)

lemma acct_cong: "(\<And>d. ends p d es = ends p d es') \<Longrightarrow> acct p es pipes = acct p es' pipes"
  by (simp add: acct_def pipe_acct_def)

lemma owned_ids_not_of: "p' \<noteq> p \<Longrightarrow> owned_ids p' (map (not_of p) pipes) = owned_ids p' pipes"
  by (induction pipes) (auto simp: owned_ids_def split: option.split)

lemma in_not_of: "pi_owner_pid q \<noteq> p \<Longrightarrow> Some q \<in> set (map (not_of p) pipes) \<longleftrightarrow> Some q \<in> set pipes"
  by (induction pipes) (auto simp: clear_slot_def split: option.splits if_splits)

lemma acct_not_of: "p' \<noteq> p \<Longrightarrow> acct p' es (map (not_of p) pipes) = acct p' es pipes"
  using in_not_of[of _ p pipes] unfolding acct_def owned_ids_not_of by blast

lemma acct_other:
  "map (not_of p) pipes' = map (not_of p) pipes \<Longrightarrow> p' \<noteq> p \<Longrightarrow> acct p' es pipes' = acct p' es pipes"
  using acct_not_of[of p' p es pipes] acct_not_of[of p' p es pipes'] by simp

lemma set_clear_slot: "Some v \<in> set (map (clear_slot P) xs) \<longleftrightarrow> Some v \<in> set xs \<and> \<not> P v"
  by (induction xs) (auto simp: clear_slot_def split: option.splits if_splits)

lemma acct_cleared: "acct p (map (clear_slot (\<lambda>f. of_pid f = p)) es) (map (not_of p) pipes)"
proof -
  have "owned_ids p (map (not_of p) pipes) = []"
  proof (induction pipes)
    case (Cons e es)
    then show ?case by (cases e) auto
  qed simp
  moreover have "pi_owner_pid q \<noteq> p" if "Some q \<in> set (map (not_of p) pipes)" for q
    using that unfolding set_clear_slot by blast
  ultimately show ?thesis by (simp add: acct_def del: set_map)
qed

lemma ends_cleared: "p' \<noteq> p \<Longrightarrow> ends p' d (map (clear_slot (\<lambda>f. of_pid f = p)) es) = ends p' d es"
  by (induction es) (auto simp: ends_def clear_slot_def split: option.splits)

lemma set_fd_keys_cleared: "set (fd_keys (map (clear_slot P) es)) \<subseteq> set (fd_keys es)"
  by (induction es) (auto simp: fd_keys_def fd_key_def clear_slot_def split: option.splits)

lemma distinct_fd_keys_cleared: "distinct (fd_keys es) \<Longrightarrow> distinct (fd_keys (map (clear_slot P) es))"
proof (induction es)
  case (Cons e es)
  then show ?case using set_fd_keys_cleared[of P es] by (cases e) auto
qed simp

lemma close_process_files_eq:
  assumes "res_ok s"
  shows "close_process_files p s =
           s\<lparr>ks_files := map (clear_slot (\<lambda>f. of_pid f = p)) (ks_files s),
             ks_pipes := map (clear_slot (\<lambda>q. pi_owner_pid q = p)) (ks_pipes s),
             ks_events := map (clear_slot (\<lambda>v. ev_owner_pid v = p)) (ks_events s),
             ks_queues := map (clear_slot (\<lambda>q. q_owner_pid q = p)) (ks_queues s)\<rparr>"
proof -
  have "acct p (ks_files s) (ks_pipes s)" using assms by (simp add: res_ok_def)
  from close_files_exact[OF this] show ?thesis by (simp add: close_process_files_def)
qed

lemma res_ok_close_process_files:
  assumes "res_ok s"
  shows "res_ok (close_process_files p s)"
proof -
  have "acct p' (ks_files s) (ks_pipes s)" for p' using assms by (simp add: res_ok_def)
  then have "acct p' (map (clear_slot (\<lambda>f. of_pid f = p)) (ks_files s)) (map (not_of p) (ks_pipes s))" for p'
    using acct_cleared[of p "ks_files s" "ks_pipes s"] acct_cong[OF ends_cleared, of p' p]
    by (cases "p' = p") (auto simp: acct_not_of)
  moreover have "ids_below (ks_next_pipe_id s) (map (clear_slot (\<lambda>f. of_pid f = p)) (ks_files s))
      (map (not_of p) (ks_pipes s))"
    using assms unfolding res_ok_def ids_below_def set_clear_slot by blast
  ultimately show ?thesis
    using assms unfolding close_process_files_eq[OF assms] res_ok_def
    by (simp add: distinct_fd_keys_cleared set_clear_slot del: set_map)
qed

text \<open>The tables as they are when the kernel starts.\<close>

definition ks_start :: "kproc \<Rightarrow> 's \<Rightarrow> u64 \<Rightarrow> 's ks" where
  "ks_start proc fs cr3 =
     \<lparr>ks_proc = proc, ks_files = replicate MAX_OPEN_FILES None, ks_pipes = replicate MAX_PIPES None,
      ks_next_pipe_id = 1, ks_events = replicate MAX_EVENTS None, ks_next_event_id = 1,
      ks_queues = replicate MAX_MESSAGE_QUEUES None, ks_next_queue_id = 1, ks_pending = [],
      ks_wait_requests = [], ks_input = input_new, ks_fs = fs, ks_cr3 = cr3, ks_console = [],
      ks_traps = 0, ks_yields = 0\<rparr>"

lemma concat_map_replicate_Nil [simp]: "f x = [] \<Longrightarrow> concat (map f (replicate n x)) = []"
  by (induction n) auto

lemma res_ok_start: "res_ok (ks_start proc fs cr3)"
  by (simp add: res_ok_def ks_start_def acct_def ids_below_def fd_keys_def fd_key_def owned_ids_def)

text \<open>
  C29: exit closes exactly what the process owns.  From every state in which the counters of the pipes
  agree with the descriptors, \<^verbatim>\<open>close_process_files\<close> frees all files, pipes, events and message queues of
  the process - no pipe survives with a dangling end -, leaves every slot of every other process as it
  was, touches nothing else of the state, and re-establishes the resource invariant.
\<close>

theorem close_process_files_exact:
  assumes "res_ok s"
  shows "close_process_files p s =
           s\<lparr>ks_files := map (clear_slot (\<lambda>f. of_pid f = p)) (ks_files s),
             ks_pipes := map (clear_slot (\<lambda>q. pi_owner_pid q = p)) (ks_pipes s),
             ks_events := map (clear_slot (\<lambda>v. ev_owner_pid v = p)) (ks_events s),
             ks_queues := map (clear_slot (\<lambda>q. q_owner_pid q = p)) (ks_queues s)\<rparr> \<and>
         res_ok (close_process_files p s)"
  using assms by (intro conjI close_process_files_eq res_ok_close_process_files)

text \<open>A process with both ends of a pipe open next to one with an event.\<close>

definition example_ks :: "unit ks" where
  "example_ks = (ks_start (kproc_new example_mm) () 0x1000)
     \<lparr>ks_files := Some \<lparr>of_pid = 5, of_fd = 3, of_descriptor = PipeRead 1\<rparr> #
                  Some \<lparr>of_pid = 5, of_fd = 4, of_descriptor = PipeWrite 1\<rparr> # replicate 14 None,
      ks_pipes := Some (pipe_new 1 5) # replicate 7 None, ks_next_pipe_id := 2,
      ks_events := Some (event_new 1 6) # replicate 15 None\<rparr>"

lemma new_slot_simps [simp]:
  "pi_id (pipe_new i p) = i" "pi_owner_pid (pipe_new i p) = p" "pi_readers (pipe_new i p) = 1" "pi_writers (pipe_new i p) = 1"
  "ev_id (event_new i p) = i" "ev_owner_pid (event_new i p) = p" "ev_signaled (event_new i p) = False"
  "q_id (queue_new i p) = i" "q_owner_pid (queue_new i p) = p"
  by (simp_all add: pipe_new_def event_new_def queue_new_def)

lemma replicate_None_simps [simp]:
  "ends p d (replicate n None) = 0" "owned_ids p (replicate n None) = []" "fd_keys (replicate n None) = []"
  by (simp_all add: ends_def owned_ids_def fd_keys_def fd_key_def)

lemma example_ks_ok: "res_ok example_ks"
  by (simp add: res_ok_def example_ks_def ks_start_def MAX_OPEN_FILES_def MAX_PIPES_def MAX_EVENTS_def MAX_MESSAGE_QUEUES_def)
     (auto simp: acct_def ids_below_def pipe_id_of_def pipe_acct_def split: if_splits descriptor.splits)

theorem close_process_files_exact_witness:
  "res_ok example_ks \<and> ks_files (close_process_files 5 example_ks) = replicate 16 None \<and>
   ks_pipes (close_process_files 5 example_ks) = replicate 8 None \<and>
   ks_events (close_process_files 5 example_ks) = ks_events example_ks"
proof -
  have r: "replicate 16 None = None # None # replicate 14 (None :: open_file option)"
    "replicate 8 None = None # replicate 7 (None :: pipe option)"
    by (simp_all flip: replicate_Suc)
  show ?thesis
    using close_process_files_exact[OF example_ks_ok, of 5] example_ks_ok unfolding r
    by (simp add: example_ks_def)
qed

end
