(* ===== verification/Byte_Order.thy ===== *)
theory Byte_Order
  imports Kernel_Prelude
begin

text \<open>
  Little-endian integers and byte-addressed memory.  The kernel runs on a little-endian machine:
  \<^verbatim>\<open>to_ne_bytes\<close> and \<^verbatim>\<open>to_le_bytes\<close> agree, and a \<^verbatim>\<open>#[repr(C)]\<close> structure of \<^verbatim>\<open>u64\<close> fields is the
  concatenation of their bytes.  Ranges of memory may wrap: the distance of an address from the start
  of a range is a word subtraction.
\<close>

section \<open>Little-endian integers\<close>

lemma unat_u8_less: "unat (b :: u8) < 256"
proof -
  have "unat b < 2 ^ LENGTH(8)" by (rule unsigned_less)
  then show ?thesis by simp
qed

lemma unat_u64_less: "unat (v :: u64) < 2 ^ 64"
proof -
  have "unat v < 2 ^ LENGTH(64)" by (rule unsigned_less)
  then show ?thesis by simp
qed

primrec le_value :: "bytes \<Rightarrow> nat" where
  "le_value [] = 0"
| "le_value (b # bs) = unat b + 256 * le_value bs"

primrec le_bytes :: "nat \<Rightarrow> nat \<Rightarrow> bytes" where
  "le_bytes 0 v = []"
| "le_bytes (Suc n) v = of_nat (v mod 256) # le_bytes n (v div 256)"

lemma length_le_bytes [simp]: "length (le_bytes n v) = n"
  by (induction n arbitrary: v) auto

lemma le_value_less: "le_value bs < 256 ^ length bs"
proof (induction bs)
  case (Cons b bs)
  have "unat b < 256" by (rule unat_u8_less)
  then have "unat b + 256 * le_value bs < 256 * (1 + le_value bs)" by simp
  also have "\<dots> \<le> 256 * 256 ^ length bs" using Cons by (intro mult_left_mono) auto
  finally show ?case by simp
qed simp

lemma le_value_le_bytes: "le_value (le_bytes n v) = v mod 256 ^ n"
proof (induction n arbitrary: v)
  case (Suc n)
  have "unat (of_nat (v mod 256) :: u8) = v mod 256" by (simp add: unat_of_nat)
  then show ?case using Suc by (simp add: mod_mult2_eq)
qed simp

lemma le_bytes_le_value: "le_bytes (length bs) (le_value bs) = bs"
proof (induction bs)
  case (Cons b bs)
  have "unat b < 256" by (rule unat_u8_less)
  then have "(unat b + 256 * le_value bs) mod 256 = unat b" "(unat b + 256 * le_value bs) div 256 = le_value bs"
    by (simp_all add: mod_add_eq)
  with Cons show ?case by simp
qed simp

definition u64_le :: "u64 \<Rightarrow> bytes" where
  "u64_le v = le_bytes 8 (unat v)"

definition u64_of_le :: "bytes \<Rightarrow> u64" where
  "u64_of_le bs = of_nat (le_value bs)"

lemma length_u64_le [simp]: "length (u64_le v) = 8"
  by (simp add: u64_le_def)

lemma u64_of_le_u64_le [simp]: "u64_of_le (u64_le v) = v"
proof -
  have "unat v < 256 ^ 8" using unat_u64_less[of v] by simp
  then show ?thesis by (simp add: u64_of_le_def u64_le_def le_value_le_bytes)
qed

lemma u64_le_inject: "u64_le v = u64_le w \<longleftrightarrow> v = w"
  by (metis u64_of_le_u64_le)

section \<open>Memory\<close>

type_synonym mem = "u64 \<Rightarrow> u8"

definition load_bytes :: "mem \<Rightarrow> u64 \<Rightarrow> nat \<Rightarrow> bytes" where
  "load_bytes m a n = map (\<lambda>i. m (a + of_nat i)) [0..<n]"

definition store_bytes :: "u64 \<Rightarrow> bytes \<Rightarrow> mem \<Rightarrow> mem" where
  "store_bytes a bs m = (\<lambda>x. if unat (x - a) < length bs then bs ! unat (x - a) else m x)"

definition load64 :: "mem \<Rightarrow> u64 \<Rightarrow> u64" where
  "load64 m a = u64_of_le (load_bytes m a 8)"

definition store64 :: "u64 \<Rightarrow> u64 \<Rightarrow> mem \<Rightarrow> mem" where
  "store64 a v m = store_bytes a (u64_le v) m"

lemma length_load_bytes [simp]: "length (load_bytes m a n) = n"
  by (simp add: load_bytes_def)

text \<open>Two ranges are apart when neither starts inside the other.\<close>

definition apart :: "u64 \<Rightarrow> nat \<Rightarrow> u64 \<Rightarrow> nat \<Rightarrow> bool" where
  "apart a n b k \<longleftrightarrow> n \<le> unat (b - a) \<and> k \<le> unat (a - b)"

lemma unat_diff64: "unat (x - y) = (if unat y \<le> unat x then unat x - unat y else unat x + 2 ^ 64 - unat y)"
  for x y :: u64
  by (simp add: unat_sub_if' word_size)

lemma unat_diff_comm: "x \<noteq> y \<Longrightarrow> unat (x - y) + unat (y - x) = 2 ^ 64" for x y :: u64
proof -
  assume "x \<noteq> y"
  then have "unat x \<noteq> unat y" by (simp add: word_unat_eq_iff)
  moreover have "unat x < 2 ^ 64" "unat y < 2 ^ 64" by (rule unat_u64_less)+
  ultimately show ?thesis by (cases "unat x \<le> unat y") (simp_all add: unat_diff64)
qed

lemma load_store_same:
  assumes "length bs \<le> 2 ^ 64"
  shows "load_bytes (store_bytes a bs m) a (length bs) = bs"
proof (rule nth_equalityI)
  fix i assume "i < length (load_bytes (store_bytes a bs m) a (length bs))"
  then have i: "i < length bs" by simp
  then have "i < 2 ^ 64" using assms by simp
  then have "unat (of_nat i :: u64) = i" by (simp add: unat_of_nat)
  with i show "load_bytes (store_bytes a bs m) a (length bs) ! i = bs ! i"
    by (simp add: load_bytes_def store_bytes_def)
qed simp

lemma load_store_apart:
  assumes ap: "apart a (length bs) b n" and n: "n \<le> 2 ^ 64"
  shows "load_bytes (store_bytes a bs m) b n = load_bytes m b n"
proof (rule nth_equalityI)
  fix i assume "i < length (load_bytes (store_bytes a bs m) b n)"
  then have i: "i < n" by simp
  then have "unat (of_nat i :: u64) = i" using n by (simp add: unat_of_nat)
  then have "unat ((b - a) + of_nat i) = (unat (b - a) + i) mod 2 ^ 64" by (simp add: unat_word_ariths)
  moreover have "unat (b - a) + i < 2 ^ 64"
  proof (cases "a = b")
    case True
    then show ?thesis using ap i n by (simp add: apart_def)
  next
    case False
    from unat_diff_comm[OF False] show ?thesis using ap i unfolding apart_def by linarith
  qed
  ultimately have "unat (b + of_nat i - a) = unat (b - a) + i"
    by (simp add: add.commute add_diff_eq diff_add_eq)
  then have "\<not> unat (b + of_nat i - a) < length bs" using ap by (simp add: apart_def)
  with i show "load_bytes (store_bytes a bs m) b n ! i = load_bytes m b n ! i"
    by (simp add: load_bytes_def store_bytes_def)
qed simp

lemma load64_store64 [simp]: "load64 (store64 a v m) a = v"
  using load_store_same[of "u64_le v" a m] by (simp add: load64_def store64_def)

lemma load64_store64_apart: "apart a 8 b 8 \<Longrightarrow> load64 (store64 a v m) b = load64 m b"
  using load_store_apart[of a "u64_le v" b 8 m] by (simp add: load64_def store64_def)

text \<open>Naturally aligned words that are not the same word are apart.\<close>

lemma aligned_apart:
  assumes "unat a mod 8 = 0" "unat b mod 8 = 0" "a \<noteq> b"
  shows "apart a 8 b 8"
proof -
  have h: "8 \<le> unat (y - x)" if "unat x mod 8 = 0" "unat y mod 8 = 0" "x \<noteq> y" for x y :: u64
  proof -
    have "unat x < 2 ^ 64" "unat x \<noteq> unat y"
      using that(3) unat_u64_less[of x] by (simp_all add: word_unat_eq_iff)
    moreover define i j where "i = unat x div 8" and "j = unat y div 8"
    then have i: "unat x = 8 * i" and j: "unat y = 8 * j"
      using that(1,2) by (simp_all flip: minus_mod_eq_mult_div)
    ultimately have "i < 2 ^ 61" "i \<noteq> j" by simp_all
    then show ?thesis unfolding unat_diff64 i j by (cases "i < j") simp_all
  qed
  show ?thesis using assms h[of a b] h[of b a] by (simp add: apart_def)
qed

end
