(* ===== verification/Page_Tables.thy ===== *)
theory Page_Tables
  imports User_Layout Byte_Order
begin

text \<open>
  Page tables in physical memory (\<^verbatim>\<open>kernel/src/user/address_space.rs\<close>, \<^verbatim>\<open>kernel/src/memory.rs\<close>).  The
  kernel sees physical memory through the direct mapping of the boot loader, so a page table is 512
  words of the memory of the state.  The encoding of an entry and the indices of an address belong to
  the \<^verbatim>\<open>x86_64\<close> crate: they are the parameter \<^verbatim>\<open>paging\<close>, the laws the kernel relies on are the locale
  \<^verbatim>\<open>paging_spec\<close>, and the documented format of the processor is an instance.
\<close>

section \<open>Entries\<close>

datatype frame_result = FrameAt u64 | FrameNotPresent | HugeFrame

record paging =
  pg_flags :: "u64 \<Rightarrow> u64"
  pg_frame :: "u64 \<Rightarrow> frame_result"
  pg_entry :: "u64 \<Rightarrow> u64 \<Rightarrow> u64"
  pg_with_flags :: "u64 \<Rightarrow> u64 \<Rightarrow> u64"
  pg_index :: "nat \<Rightarrow> u64 \<Rightarrow> nat"

abbreviation (input) PRESENT :: u64 where "PRESENT \<equiv> 1"
abbreviation (input) WRITABLE :: u64 where "WRITABLE \<equiv> 2"
abbreviation (input) USER_ACCESSIBLE :: u64 where "USER_ACCESSIBLE \<equiv> 4"
abbreviation (input) HUGE_PAGE :: u64 where "HUGE_PAGE \<equiv> 128"
abbreviation (input) NO_EXECUTE :: u64 where "NO_EXECUTE \<equiv> 0x8000000000000000"
definition ADDR_MASK :: u64 where "ADDR_MASK = push_bit 12 (mask 40)"

definition flags_contain :: "u64 \<Rightarrow> u64 \<Rightarrow> bool" where
  "flags_contain fl bs \<longleftrightarrow> fl AND bs = bs"

definition frame_addr :: "u64 \<Rightarrow> bool" where
  "frame_addr f \<longleftrightarrow> f AND ADDR_MASK = f"

definition flag_bits :: "u64 \<Rightarrow> bool" where
  "flag_bits fl \<longleftrightarrow> fl AND ADDR_MASK = 0"

definition page_of :: "u64 \<Rightarrow> u64" where
  "page_of va = va AND NOT (mask 12)"

locale paging_spec =
  fixes pg :: paging
  assumes index_less: "pg_index pg l va < 512"
    and index_page: "0 < l \<Longrightarrow> pg_index pg l (page_of va) = pg_index pg l va"
    and frame_is_frame: "pg_frame pg e = FrameAt f \<Longrightarrow> frame_addr f"
    and entry_frame: "frame_addr f \<Longrightarrow> flag_bits fl \<Longrightarrow> flags_contain fl PRESENT \<Longrightarrow> \<not> flags_contain fl HUGE_PAGE \<Longrightarrow>
      pg_frame pg (pg_entry pg f fl) = FrameAt f"
    and entry_flags: "frame_addr f \<Longrightarrow> flag_bits fl \<Longrightarrow> pg_flags pg (pg_entry pg f fl) = fl"
    and with_flags_frame: "pg_frame pg e = FrameAt f \<Longrightarrow> flag_bits fl \<Longrightarrow> flags_contain fl PRESENT \<Longrightarrow>
      \<not> flags_contain fl HUGE_PAGE \<Longrightarrow> pg_frame pg (pg_with_flags pg e fl) = FrameAt f"
    and with_flags_flags: "flag_bits fl \<Longrightarrow> pg_flags pg (pg_with_flags pg e fl) = fl"
    and flags_bits: "flag_bits (pg_flags pg e)"
    and frame_not_huge: "pg_frame pg e = FrameAt f \<Longrightarrow> \<not> flags_contain (pg_flags pg e) HUGE_PAGE"
    and index_determines: "a < 2 ^ 48 \<Longrightarrow> b < 2 ^ 48 \<Longrightarrow> (\<And>l. l \<in> {1, 2, 3, 4} \<Longrightarrow> pg_index pg l a = pg_index pg l b) \<Longrightarrow>
      page_of a = page_of b"
begin

lemma index_slot_less: "8 * pg_index pg l va + 8 \<le> 4096"
  using index_less[of l va] by simp

end

text \<open>The documented format.\<close>

definition x86_paging :: paging where
  "x86_paging =
     \<lparr>pg_flags = (\<lambda>e. e AND NOT ADDR_MASK),
      pg_frame = (\<lambda>e. if \<not> flags_contain e PRESENT then FrameNotPresent
                       else if flags_contain e HUGE_PAGE then HugeFrame else FrameAt (e AND ADDR_MASK)),
      pg_entry = (\<lambda>f fl. f OR fl),
      pg_with_flags = (\<lambda>e fl. (e AND ADDR_MASK) OR fl),
      pg_index = (\<lambda>l va. unat (take_bit 9 (drop_bit (12 + 9 * (l - 1)) va)))\<rparr>"

lemma ADDR_MASK_flags [simp]:
  "PRESENT AND ADDR_MASK = 0" "WRITABLE AND ADDR_MASK = 0" "USER_ACCESSIBLE AND ADDR_MASK = 0"
  "HUGE_PAGE AND ADDR_MASK = 0" "NO_EXECUTE AND ADDR_MASK = 0"
  by (simp_all add: ADDR_MASK_def mask_numeral)

lemma and_split_contain:
  assumes f: "frame_addr f" and b: "b AND ADDR_MASK = 0"
  shows "flags_contain (f OR fl) b \<longleftrightarrow> flags_contain fl b"
proof -
  have "f AND b = (f AND ADDR_MASK) AND b" using f by (simp add: frame_addr_def)
  also have "\<dots> = f AND (b AND ADDR_MASK)" by (simp add: ac_simps)
  finally have "f AND b = 0" using b by simp
  then show ?thesis by (simp add: flags_contain_def bit.conj_disj_distrib2)
qed

lemma frame_addr_masked [simp]: "frame_addr (e AND ADDR_MASK)"
  by (simp add: frame_addr_def and.assoc)

lemma frame_or_flags:
  assumes "frame_addr f" "flag_bits fl"
  shows "(f OR fl) AND ADDR_MASK = f" "(f OR fl) AND NOT ADDR_MASK = fl"
proof -
  show "(f OR fl) AND ADDR_MASK = f"
    using assms by (simp add: bit.conj_disj_distrib2 frame_addr_def flag_bits_def)
  have "f AND NOT ADDR_MASK = (f AND ADDR_MASK) AND NOT ADDR_MASK" using assms by (simp add: frame_addr_def)
  then have f: "f AND NOT ADDR_MASK = 0" by (simp add: and.assoc)
  have "fl = fl AND (ADDR_MASK OR NOT ADDR_MASK)" by simp
  also have "\<dots> = fl AND NOT ADDR_MASK"
    using assms(2) unfolding bit.conj_disj_distrib flag_bits_def by simp
  finally show "(f OR fl) AND NOT ADDR_MASK = fl"
    by (simp add: bit.conj_disj_distrib2 f)
qed

lemma drop_bit_page_of: "12 \<le> n \<Longrightarrow> drop_bit n (page_of va) = drop_bit n va"
  by (rule bit_eqI) (auto simp: page_of_def bit_drop_bit_eq bit_and_iff bit_not_iff bit_mask_iff dest: bit_imp_le_length)

lemma bit_above: "a < 2 ^ 48 \<Longrightarrow> 48 \<le> n \<Longrightarrow> \<not> bit a n" for a :: u64
proof
  assume "a < 2 ^ 48" "48 \<le> n" "bit a n"
  then have "bit (unat a) n" using bit_imp_le_length[of a n] by (simp add: bit_unsigned_iff)
  then have "unat a div 2 ^ n \<noteq> 0" by (metis bit_iff_odd even_zero)
  then have "2 ^ n \<le> unat a" by (simp add: div_eq_0_iff)
  moreover have "(2 :: nat) ^ 48 \<le> 2 ^ n" using \<open>48 \<le> n\<close> by (intro power_increasing) simp_all
  moreover have "unat a < 2 ^ 48" using \<open>a < 2 ^ 48\<close> by (simp add: word_less_nat_alt)
  ultimately show False by linarith
qed

lemma index_bits:
  assumes "\<And>l. l \<in> {1, 2, 3, 4} \<Longrightarrow> pg_index x86_paging l a = pg_index x86_paging l b" "12 \<le> n" "n < 48"
  shows "bit a n = bit b n"
proof -
  obtain l k where l: "l \<in> {1, 2, 3, 4}" "n = 12 + 9 * (l - 1) + k" "k < 9"
  proof
    show "(n - 12) div 9 + 1 \<in> {1, 2, 3, 4}" using assms(2,3) by auto
    show "n = 12 + 9 * ((n - 12) div 9 + 1 - 1) + (n - 12) mod 9" using assms(2) by simp
    show "(n - 12) mod 9 < 9" by simp
  qed
  have "unat (take_bit 9 (drop_bit (12 + 9 * (l - 1)) a)) = unat (take_bit 9 (drop_bit (12 + 9 * (l - 1)) b))"
    using assms(1)[OF l(1)] by (simp add: x86_paging_def)
  then have "take_bit 9 (drop_bit (12 + 9 * (l - 1)) a) = take_bit 9 (drop_bit (12 + 9 * (l - 1)) b)"
    by (simp only: word_unat_eq_iff)
  then have "bit (take_bit 9 (drop_bit (12 + 9 * (l - 1)) a)) k = bit (take_bit 9 (drop_bit (12 + 9 * (l - 1)) b)) k" by simp
  then show ?thesis using l(2,3) by (simp add: bit_take_bit_iff bit_drop_bit_eq)
qed

interpretation x86: paging_spec x86_paging
proof
  fix l :: nat and va f fl e :: u64
  have "unat (take_bit 9 w :: u64) = unat w mod 512" for w
    by (subst unsigned_take_bit_eq) (simp add: take_bit_eq_mod)
  then show "pg_index x86_paging l va < 512" by (simp add: x86_paging_def)
  show "pg_index x86_paging l (page_of va) = pg_index x86_paging l va" if "0 < l"
    by (simp add: x86_paging_def drop_bit_page_of)
  show "frame_addr f" if "pg_frame x86_paging e = FrameAt f"
    using that by (auto simp: x86_paging_def split: if_splits)
  show "pg_frame x86_paging (pg_entry x86_paging f fl) = FrameAt f"
    if "frame_addr f" "flag_bits fl" "flags_contain fl PRESENT" "\<not> flags_contain fl HUGE_PAGE"
    using that by (simp add: x86_paging_def and_split_contain frame_or_flags)
  show "pg_flags x86_paging (pg_entry x86_paging f fl) = fl" if "frame_addr f" "flag_bits fl"
    using that by (simp add: x86_paging_def frame_or_flags)
  show "pg_frame x86_paging (pg_with_flags x86_paging e fl) = FrameAt f"
    if "pg_frame x86_paging e = FrameAt f" "flag_bits fl" "flags_contain fl PRESENT" "\<not> flags_contain fl HUGE_PAGE"
    using that by (auto simp: x86_paging_def and_split_contain frame_or_flags split: if_splits)
  show "pg_flags x86_paging (pg_with_flags x86_paging e fl) = fl" if "flag_bits fl"
    using that by (simp add: x86_paging_def frame_or_flags)
  show "flag_bits (pg_flags x86_paging e)"
    by (simp add: x86_paging_def flag_bits_def and.assoc)
  have "(e AND NOT ADDR_MASK) AND HUGE_PAGE = e AND HUGE_PAGE"
    by (simp add: and.assoc ADDR_MASK_def mask_numeral)
  then show "\<not> flags_contain (pg_flags x86_paging e) HUGE_PAGE" if "pg_frame x86_paging e = FrameAt f"
    using that by (auto simp: x86_paging_def flags_contain_def split: if_splits)
next
  fix a b :: u64
  assume "a < 2 ^ 48" "b < 2 ^ 48" and i: "\<And>l. l \<in> {1, 2, 3, 4} \<Longrightarrow> pg_index x86_paging l a = pg_index x86_paging l b"
  then have "bit a n = bit b n" if "12 \<le> n" for n
    using that index_bits[of a b n] bit_above[of a n] bit_above[of b n] by (cases "n < 48") auto
  then show "page_of a = page_of b"
    by (intro bit_eqI) (auto simp: page_of_def bit_and_iff bit_not_iff bit_mask_iff)
qed

section \<open>Tables and walks\<close>

definition table_slot :: "u64 \<Rightarrow> nat \<Rightarrow> u64" where
  "table_slot t i = t + of_nat (8 * i)"

definition entry_at :: "mem \<Rightarrow> u64 \<Rightarrow> nat \<Rightarrow> u64" where
  "entry_at m t i = load64 m (table_slot t i)"

definition set_entry :: "u64 \<Rightarrow> nat \<Rightarrow> u64 \<Rightarrow> mem \<Rightarrow> mem" where
  "set_entry t i e m = store64 (table_slot t i) e m"

datatype user_page_access = PageRead | PageWrite

definition flags_allow_user_access :: "u64 \<Rightarrow> user_page_access \<Rightarrow> bool" where
  "flags_allow_user_access fl access =
     (if \<not> flags_contain fl (PRESENT OR USER_ACCESSIBLE) then False
      else access \<noteq> PageWrite \<or> flags_contain fl WRITABLE)"

definition child_table_frame :: "paging \<Rightarrow> mem \<Rightarrow> u64 \<Rightarrow> nat \<Rightarrow> address_space_error + u64" where
  "child_table_frame pg m t i =
     (case pg_frame pg (entry_at m t i) of
        FrameAt f \<Rightarrow> Inr f
      | FrameNotPresent \<Rightarrow> Inl PrivateMappingNotFound
      | HugeFrame \<Rightarrow> Inl PrivateMappingNotFound)"

definition accessible_child_frame ::
    "paging \<Rightarrow> mem \<Rightarrow> u64 \<Rightarrow> nat \<Rightarrow> user_page_access \<Rightarrow> address_space_error + u64"
where
  "accessible_child_frame pg m t i access =
     (if \<not> flags_allow_user_access (pg_flags pg (entry_at m t i)) access then Inl UserMappingNotAccessible
      else child_table_frame pg m t i)"

definition active_user_page_accessible :: "paging \<Rightarrow> mem \<Rightarrow> u64 \<Rightarrow> u64 \<Rightarrow> user_page_access \<Rightarrow> bool" where
  "active_user_page_accessible pg m p4 va access =
     (case accessible_child_frame pg m p4 (pg_index pg 4 va) access of
        Inl _ \<Rightarrow> False
      | Inr p3 \<Rightarrow>
     (case accessible_child_frame pg m p3 (pg_index pg 3 va) access of
        Inl _ \<Rightarrow> False
      | Inr p2 \<Rightarrow>
     (case accessible_child_frame pg m p2 (pg_index pg 2 va) access of
        Inl _ \<Rightarrow> False
      | Inr p1 \<Rightarrow> flags_allow_user_access (pg_flags pg (entry_at m p1 (pg_index pg 1 va))) access)))"

text \<open>The loop of \<^verbatim>\<open>active_user_range_accessible\<close> over the pages of a range.\<close>

function pages_accessible :: "paging \<Rightarrow> mem \<Rightarrow> u64 \<Rightarrow> u64 \<Rightarrow> user_page_access \<Rightarrow> u64 \<Rightarrow> bool" where
  "pages_accessible pg m p4 last_page access page =
     (if \<not> active_user_page_accessible pg m p4 page access then False
      else if page = last_page then True
      else case checked_add page 4096 of
             None \<Rightarrow> False
           | Some next \<Rightarrow> pages_accessible pg m p4 last_page access next)"
  by pat_completeness auto
termination
proof (relation "measure (\<lambda>(_, _, _, _, _, page). 2 ^ 64 - unat page)")
  fix pg :: paging and m :: mem and access :: user_page_access and p4 last_page page n :: u64
  assume "checked_add page 4096 = Some n"
  then have "unat n = unat page + 4096" using checked_add_SomeD by fastforce
  then show "((pg, m, p4, last_page, access, n), pg, m, p4, last_page, access, page)
      \<in> measure (\<lambda>(_, _, _, _, _, page). 2 ^ 64 - unat page)"
    using unat_u64_less[of n] by simp
qed simp

declare pages_accessible.simps [simp del]

text \<open>
  \<^verbatim>\<open>translate_addr_inner\<close>: the walk over all four levels.  A huge page makes it panic; a table that is
  not present ends it with \<^verbatim>\<open>None\<close>.
\<close>

datatype translation = TranslatedTo u64 | NotMapped | TranslatePanic

fun translate_levels :: "paging \<Rightarrow> mem \<Rightarrow> u64 \<Rightarrow> u64 \<Rightarrow> nat list \<Rightarrow> translation" where
  "translate_levels pg m va frame [] = TranslatedTo (frame + (va AND mask 12))"
| "translate_levels pg m va frame (l # ls) =
     (case pg_frame pg (entry_at m frame (pg_index pg l va)) of
        FrameAt f \<Rightarrow> translate_levels pg m va f ls
      | FrameNotPresent \<Rightarrow> NotMapped
      | HugeFrame \<Rightarrow> TranslatePanic)"

definition translate_addr :: "paging \<Rightarrow> mem \<Rightarrow> u64 \<Rightarrow> u64 \<Rightarrow> translation" where
  "translate_addr pg m p4 va = translate_levels pg m va p4 [4, 3, 2, 1]"

text \<open>The level-1 table of an address: the walk the functions below share.\<close>

definition leaf_table :: "paging \<Rightarrow> mem \<Rightarrow> u64 \<Rightarrow> u64 \<Rightarrow> address_space_error + u64" where
  "leaf_table pg m p4 va =
     (case child_table_frame pg m p4 (pg_index pg 4 va) of
        Inl e \<Rightarrow> Inl e
      | Inr p3 \<Rightarrow>
     (case child_table_frame pg m p3 (pg_index pg 3 va) of
        Inl e \<Rightarrow> Inl e
      | Inr p2 \<Rightarrow> child_table_frame pg m p2 (pg_index pg 2 va)))"

definition user_page_flags :: u64 where "user_page_flags = PRESENT OR WRITABLE OR USER_ACCESSIBLE"
definition user_data_page_flags :: u64 where "user_data_page_flags = user_page_flags OR NO_EXECUTE"
definition user_code_page_flags :: u64 where "user_code_page_flags = PRESENT OR USER_ACCESSIBLE"

definition set_user_page_flags ::
    "paging \<Rightarrow> u64 \<Rightarrow> u64 \<Rightarrow> u64 \<Rightarrow> mem \<Rightarrow> (address_space_error + unit) \<times> mem"
where
  "set_user_page_flags pg p4 va fl m =
     (case leaf_table pg m p4 va of
        Inl e \<Rightarrow> (Inl e, m)
      | Inr p1 \<Rightarrow>
          let i = pg_index pg 1 va in (Inr (), set_entry p1 i (pg_with_flags pg (entry_at m p1 i) fl) m))"

definition ensure_user_page_writable ::
    "paging \<Rightarrow> u64 \<Rightarrow> u64 \<Rightarrow> mem \<Rightarrow> (address_space_error + unit) \<times> mem"
where
  "ensure_user_page_writable pg p4 va m =
     (case leaf_table pg m p4 va of
        Inl e \<Rightarrow> (Inl e, m)
      | Inr p1 \<Rightarrow>
          let i = pg_index pg 1 va; entry = entry_at m p1 i
          in (Inr (), set_entry p1 i (pg_with_flags pg entry (pg_flags pg entry OR user_data_page_flags)) m))"

definition remap_existing_user_page_to_private_frame ::
    "paging \<Rightarrow> u64 \<Rightarrow> u64 \<Rightarrow> u64 \<Rightarrow> mem \<Rightarrow> (address_space_error + unit) \<times> mem"
where
  "remap_existing_user_page_to_private_frame pg p4 va private_frame m =
     (case leaf_table pg m p4 va of
        Inl e \<Rightarrow> (Inl e, m)
      | Inr p1 \<Rightarrow> (Inr (), set_entry p1 (pg_index pg 1 va) (pg_entry pg private_frame user_data_page_flags) m))"

section \<open>The frame allocator\<close>

record memory_region =
  mr_start :: u64
  mr_end :: u64
  mr_usable :: bool

record frame_allocator =
  fa_memory_map :: "memory_region list"
  fa_next :: nat

text \<open>\<^verbatim>\<open>(start..end).step_by(4096)\<close>.\<close>

definition region_frames :: "memory_region \<Rightarrow> u64 list" where
  "region_frames r = map (\<lambda>i. mr_start r + of_nat (4096 * i)) [0..<div_ceil (unat (mr_end r) - unat (mr_start r)) 4096]"

definition usable_frames :: "frame_allocator \<Rightarrow> u64 list" where
  "usable_frames fa = map page_of (concat (map region_frames (filter mr_usable (fa_memory_map fa))))"

definition allocate_frame :: "frame_allocator \<Rightarrow> u64 option \<times> frame_allocator" where
  "allocate_frame fa =
     (let fs = usable_frames fa
      in if fa_next fa < length fs then (Some (fs ! fa_next fa), fa\<lparr>fa_next := fa_next fa + 1\<rparr>) else (None, fa))"

section \<open>Pages and ranges\<close>

lemma page_of_eq: "page_of a = a - take_bit 12 a"
proof -
  have "a - take_bit 12 a = a AND NOT (take_bit 12 a)"
    by (rule disjunctive_diff) (simp add: bit_take_bit_iff)
  also have "\<dots> = a AND NOT (mask 12)"
    by (rule bit_eqI) (auto simp: bit_and_iff bit_not_iff bit_take_bit_iff bit_mask_iff)
  finally show ?thesis by (simp add: page_of_def)
qed

lemma unat_take_bit12: "unat (take_bit 12 a :: u64) = unat a mod 4096"
  by (subst unsigned_take_bit_eq) (simp add: take_bit_eq_mod)

lemma unat_page_of: "unat (page_of a) = unat a - unat a mod 4096"
proof -
  have "take_bit 12 a \<le> a" unfolding word_le_nat_alt unat_take_bit12 by simp
  then show ?thesis by (simp add: page_of_eq unat_sub unat_take_bit12)
qed

lemma page_of_aligned [simp]: "unat (page_of a) mod 4096 = 0"
  by (simp add: unat_page_of minus_mod_eq_mult_div)

lemma page_of_page: "unat a mod 4096 = 0 \<Longrightarrow> page_of a = a"
  by (simp add: word_unat_eq_iff unat_page_of)

lemma aligned_step:
  fixes k :: nat
  assumes "x mod k = 0" "y mod k = 0" "x < y"
  shows "x + k \<le> y"
proof -
  have "k dvd y - x" using assms(1,2) by (simp add: mod_eq_0_iff_dvd)
  then have "k \<le> y - x" using assms(3) by (intro dvd_imp_le) auto
  then show ?thesis using assms(3) by simp
qed

lemma page_of_between:
  assumes "unat q mod 4096 = 0" "page_of p \<le> q" "q \<le> p"
  shows "page_of p = q"
proof (rule ccontr)
  assume "page_of p \<noteq> q"
  then have "unat (page_of p) < unat q" using assms(2) by (simp add: word_le_nat_alt order_less_le word_unat_eq_iff)
  from aligned_step[OF page_of_aligned assms(1) this]
  have "unat p - unat p mod 4096 + 4096 \<le> unat p" using assms(3) by (simp add: unat_page_of word_le_nat_alt)
  moreover have "unat p mod 4096 < 4096" by simp
  ultimately show False by linarith
qed

text \<open>A loop over pages sees every page of its range.\<close>

lemma pages_accessible_iff:
  assumes "unat page mod 4096 = 0" "unat last_page mod 4096 = 0" "page \<le> last_page"
  shows "pages_accessible pg m p4 last_page access page \<longleftrightarrow>
    (\<forall>q. unat q mod 4096 = 0 \<longrightarrow> page \<le> q \<longrightarrow> q \<le> last_page \<longrightarrow> active_user_page_accessible pg m p4 q access)"
  using assms
proof (induction pg m p4 last_page access page rule: pages_accessible.induct)
  case (1 pg m p4 last_page access page)
  let ?ok = "\<lambda>q. active_user_page_accessible pg m p4 q access"
  show ?case
  proof (cases "?ok page \<and> page \<noteq> last_page")
    case False
    then consider "\<not> ?ok page" | "?ok page" "page = last_page" by blast
    then show ?thesis
    proof cases
      case 1
      then have "\<not> pages_accessible pg m p4 last_page access page" by (subst pages_accessible.simps) simp
      then show ?thesis using 1 "1.prems" order_refl[of page] by metis
    next
      case 2
      then show ?thesis by (subst pages_accessible.simps) (auto dest: order_antisym)
    qed
  next
    case True
    then have "unat page < unat last_page" using 1(4) by (simp add: word_le_nat_alt order_less_le word_unat_eq_iff)
    then have n: "unat page + 4096 \<le> unat last_page" by (rule aligned_step[OF 1(2,3)])
    then have some: "checked_add page 4096 = Some (page + 4096)"
      using unat_u64_less[of last_page] by (simp add: checked_add_def)
    have u: "unat (page + 4096) = unat page + 4096" using checked_add_SomeD[OF some] by simp
    have "unat (page + 4096) mod 4096 = 0" "page + 4096 \<le> last_page"
      using 1(2) n by (simp_all add: u word_le_nat_alt)
    from "1.IH"[OF _ _ some this(1) 1(3) this(2)] True
    have ih: "pages_accessible pg m p4 last_page access (page + 4096) \<longleftrightarrow>
      (\<forall>q. unat q mod 4096 = 0 \<longrightarrow> page + 4096 \<le> q \<longrightarrow> q \<le> last_page \<longrightarrow> ?ok q)" by simp
    have split: "page \<le> q \<longleftrightarrow> q = page \<or> page + 4096 \<le> q" if "unat q mod 4096 = 0" for q
    proof -
      have "unat page \<le> unat q \<longleftrightarrow> unat q = unat page \<or> unat page + 4096 \<le> unat q"
        using aligned_step[OF 1(2) that] by linarith
      then show ?thesis by (simp add: word_le_nat_alt u word_unat_eq_iff)
    qed
    have "pages_accessible pg m p4 last_page access page \<longleftrightarrow> pages_accessible pg m p4 last_page access (page + 4096)"
      using True some by (subst pages_accessible.simps) simp
    then show ?thesis using ih split True 1(4) by auto
  qed
qed

lemma page_accessible_page:
  assumes "paging_spec pg"
  shows "active_user_page_accessible pg m p4 (page_of va) access = active_user_page_accessible pg m p4 va access"
proof -
  have i: "pg_index pg 4 (page_of va) = pg_index pg 4 va" "pg_index pg 3 (page_of va) = pg_index pg 3 va"
    "pg_index pg 2 (page_of va) = pg_index pg 2 va" "pg_index pg 1 (page_of va) = pg_index pg 1 va"
    by (simp_all add: paging_spec.index_page[OF assms])
  show ?thesis unfolding active_user_page_accessible_def i ..
qed

lemma range_pages:
  assumes "unat ptr + unat len < 2 ^ 64" "len \<noteq> 0"
  shows "(\<forall>q. unat q mod 4096 = 0 \<longrightarrow> page_of ptr \<le> q \<longrightarrow> q \<le> page_of (ptr + len - 1) \<longrightarrow> P q) \<longleftrightarrow>
    (\<forall>a. ptr \<le> a \<longrightarrow> unat a < unat ptr + unat len \<longrightarrow> P (page_of a))"
proof -
  have "0 < unat len" using assms(2) by (simp add: word_unat_eq_iff)
  then have e: "unat (ptr + len - 1) = unat ptr + unat len - 1"
    using assms(1) by (simp add: unat_word_ariths unat_sub word_le_nat_alt)
  define x y where "x = unat ptr" and "y = unat ptr + unat len - 1"
  have xy: "x \<le> y" using \<open>0 < unat len\<close> by (simp add: x_def y_def)
  show ?thesis
  proof (intro iffI allI impI)
    fix a assume l: "\<forall>q. unat q mod 4096 = 0 \<longrightarrow> page_of ptr \<le> q \<longrightarrow> q \<le> page_of (ptr + len - 1) \<longrightarrow> P q"
      and a: "ptr \<le> a" "unat a < unat ptr + unat len"
    have "unat (page_of ptr) \<le> unat (page_of a)" "unat (page_of a) \<le> unat (page_of (ptr + len - 1))"
      using a unfolding unat_page_of e word_le_nat_alt minus_mod_eq_mult_div
      by (simp_all add: div_le_mono)
    then show "P (page_of a)" using l by (simp add: word_le_nat_alt)
  next
    fix q assume r: "\<forall>a. ptr \<le> a \<longrightarrow> unat a < unat ptr + unat len \<longrightarrow> P (page_of a)"
      and q: "unat q mod 4096 = 0" "page_of ptr \<le> q" "q \<le> page_of (ptr + len - 1)"
    define a where "a = (if q \<le> ptr then ptr else q)"
    have "unat q \<le> y" "unat ptr - unat ptr mod 4096 \<le> unat q"
      using q(2,3) unfolding word_le_nat_alt unat_page_of e y_def by simp_all
    then have "page_of a = q"
      using page_of_between[OF q(1,2)] page_of_page[OF q(1)] by (simp add: a_def)
    moreover have "ptr \<le> a" "unat a < unat ptr + unat len"
      using \<open>unat q \<le> y\<close> \<open>0 < unat len\<close> by (auto simp: a_def y_def)
    ultimately show "P q" using r by blast
  qed
qed

section \<open>Access checks\<close>

definition active_user_range_accessible ::
    "paging \<Rightarrow> u64 \<Rightarrow> address_space option \<Rightarrow> u64 \<Rightarrow> u64 \<Rightarrow> user_page_access \<Rightarrow> mm \<Rightarrow> bool \<times> mm"
where
  "active_user_range_accessible pg cr3 asp ptr len access m =
     (if len = 0 then (False, m)
      else case checked_add ptr len of
        None \<Rightarrow> (False, m)
      | Some e \<Rightarrow>
          if e \<le> ptr then (False, m)
          else (case asp of
             None \<Rightarrow> (False, m)
           | Some a \<Rightarrow>
               if (case as_p4_frame a of None \<Rightarrow> False | Some expected_p4 \<Rightarrow> cr3 \<noteq> expected_p4) then (False, m)
               else (case physical_memory_offset m of
                  (Inl _, m) \<Rightarrow> (False, m)
                | (Inr _, m) \<Rightarrow>
                    (pages_accessible pg (mm_mem m) cr3 (page_of (e - 1)) access (page_of ptr), m))))"

text \<open>What a user access to an address needs: permission at all four levels, and tables at three.\<close>

definition user_mapped :: "paging \<Rightarrow> mem \<Rightarrow> u64 \<Rightarrow> u64 \<Rightarrow> user_page_access \<Rightarrow> bool" where
  "user_mapped pg m p4 va access \<longleftrightarrow>
     (\<exists>p3 p2 p1.
        pg_frame pg (entry_at m p4 (pg_index pg 4 va)) = FrameAt p3 \<and>
        pg_frame pg (entry_at m p3 (pg_index pg 3 va)) = FrameAt p2 \<and>
        pg_frame pg (entry_at m p2 (pg_index pg 2 va)) = FrameAt p1 \<and>
        (\<forall>e\<in>{entry_at m p4 (pg_index pg 4 va), entry_at m p3 (pg_index pg 3 va), entry_at m p2 (pg_index pg 2 va),
              entry_at m p1 (pg_index pg 1 va)}.
           flags_contain (pg_flags pg e) PRESENT \<and> flags_contain (pg_flags pg e) USER_ACCESSIBLE \<and>
           (access = PageWrite \<longrightarrow> flags_contain (pg_flags pg e) WRITABLE)))"

lemma flags_contain_or: "flags_contain fl (a OR b) \<longleftrightarrow> flags_contain fl a \<and> flags_contain fl b"
  unfolding flags_contain_def bit_eq_iff bit_and_iff bit_or_iff by auto

lemma flags_allow_iff:
  "flags_allow_user_access fl access \<longleftrightarrow>
     flags_contain fl PRESENT \<and> flags_contain fl USER_ACCESSIBLE \<and> (access = PageWrite \<longrightarrow> flags_contain fl WRITABLE)"
  unfolding flags_allow_user_access_def flags_contain_or by auto

lemma accessible_child_Inr:
  "accessible_child_frame pg m t i access = Inr f \<longleftrightarrow>
     flags_allow_user_access (pg_flags pg (entry_at m t i)) access \<and> pg_frame pg (entry_at m t i) = FrameAt f"
  by (auto simp: accessible_child_frame_def child_table_frame_def split: frame_result.splits)

lemma sum_case_False: "(case r of Inl _ \<Rightarrow> False | Inr x \<Rightarrow> P x) \<longleftrightarrow> (\<exists>x. r = Inr x \<and> P x)"
  by (cases r) auto

lemma user_page_accessible_iff:
  "active_user_page_accessible pg m p4 va access \<longleftrightarrow> user_mapped pg m p4 va access"
  unfolding active_user_page_accessible_def user_mapped_def sum_case_False accessible_child_Inr flags_allow_iff
  by (simp; blast)

lemma user_mapped_page:
  "paging_spec pg \<Longrightarrow> user_mapped pg m p4 (page_of va) access = user_mapped pg m p4 va access"
  using page_accessible_page[of pg m p4 va access] by (simp add: user_page_accessible_iff)

lemma range_accessible_iff:
  assumes "paging_spec pg"
  shows "fst (active_user_range_accessible pg cr3 asp ptr len access m) \<longleftrightarrow>
    len \<noteq> 0 \<and> unat ptr + unat len < 2 ^ 64 \<and>
    (\<exists>a. asp = Some a \<and> (as_p4_frame a = None \<or> as_p4_frame a = Some cr3)) \<and>
    (mm_offset_value m \<noteq> 0 \<or> mm_offset m \<noteq> None) \<and>
    (\<forall>va. ptr \<le> va \<longrightarrow> unat va < unat ptr + unat len \<longrightarrow> user_mapped pg (mm_mem m) cr3 va access)"
proof (cases "len \<noteq> 0 \<and> unat ptr + unat len < 2 ^ 64")
  case False
  then show ?thesis by (auto simp: active_user_range_accessible_def checked_add_def)
next
  case True
  then have some: "checked_add ptr len = Some (ptr + len)" by (simp add: checked_add_def)
  have u: "unat (ptr + len) = unat ptr + unat len" using checked_add_SomeD[OF some] by simp
  have "0 < unat len" using True by (simp add: word_unat_eq_iff)
  then have lt: "\<not> ptr + len \<le> ptr" by (simp add: word_le_nat_alt u)
  have e: "unat (ptr + len - 1) = unat ptr + unat len - 1"
    using \<open>0 < unat len\<close> u by (simp add: unat_sub word_le_nat_alt)
  have "page_of ptr \<le> page_of (ptr + len - 1)"
    using \<open>0 < unat len\<close> unfolding word_le_nat_alt unat_page_of e minus_mod_eq_mult_div by (simp add: div_le_mono)
  from pages_accessible_iff[OF page_of_aligned page_of_aligned this]
  have "pages_accessible pg (mm_mem m) cr3 (page_of (ptr + len - 1)) access (page_of ptr) \<longleftrightarrow>
      (\<forall>va. ptr \<le> va \<longrightarrow> unat va < unat ptr + unat len \<longrightarrow> user_mapped pg (mm_mem m) cr3 va access)"
    using range_pages[of ptr len "\<lambda>q. active_user_page_accessible pg (mm_mem m) cr3 q access"] True
    by (simp add: user_mapped_page[OF assms] user_page_accessible_iff)
  moreover have "physical_memory_offset m = (Inl MissingPhysicalMemoryOffset, m) \<and> mm_offset_value m = 0 \<and> mm_offset m = None \<or>
      (\<exists>off m'. physical_memory_offset m = (Inr off, m') \<and> mm_mem m' = mm_mem m) \<and> (mm_offset_value m \<noteq> 0 \<or> mm_offset m \<noteq> None)"
    by (auto simp: physical_memory_offset_def split: option.splits)
  ultimately show ?thesis
    using True some lt unfolding active_user_range_accessible_def
    by (auto split: option.splits)
qed


definition example_tables :: mem where
  "example_tables =
     set_entry 0x4000 0 0x5007 (set_entry 0x3000 8 0x4007 (set_entry 0x2000 0 0x3007 (set_entry 0x1000 0 0x2007 (\<lambda>_. 0))))"

definition example_space :: address_space where
  "example_space = as_verified_prepared_user 0x1000000 (memory_layout_for_pid 2) 0x1000"

definition example_direct :: mm where
  "example_direct = example_mm\<lparr>mm_offset_value := 0x8000000000, mm_mem := example_tables\<rparr>"

lemma example_entries:
  "entry_at example_tables 0x1000 0 = 0x2007" "entry_at example_tables 0x2000 0 = 0x3007"
  "entry_at example_tables 0x3000 8 = 0x4007" "entry_at example_tables 0x4000 0 = 0x5007"
  by (simp_all add: entry_at_def example_tables_def set_entry_def table_slot_def load64_store64_apart apart_def)

lemma example_page: "active_user_page_accessible x86_paging example_tables 0x1000 0x1000000 PageWrite"
  by (simp add: active_user_page_accessible_def accessible_child_frame_def child_table_frame_def x86_paging_def
      example_entries flags_allow_user_access_def flags_contain_def ADDR_MASK_def mask_numeral take_bit_eq_mod)

lemma example_range_accessible:
  "fst (active_user_range_accessible x86_paging 0x1000 (Some example_space) 0x1000010 16 PageWrite example_direct)"
  by (simp add: active_user_range_accessible_def checked_add_def example_space_def as_verified_prepared_user_def
      physical_memory_offset_def example_direct_def page_of_def mask_numeral pages_accessible.simps example_page)


section \<open>Every frame once\<close>

definition usable_frame_count :: "frame_allocator \<Rightarrow> nat" where
  "usable_frame_count fa = length (usable_frames fa)"

definition remaining_usable_frames :: "frame_allocator \<Rightarrow> nat" where
  "remaining_usable_frames fa = usable_frame_count fa - fa_next fa"

text \<open>What the boot loader documents of its memory map: usable regions are page aligned and do not overlap.\<close>

definition region_ok :: "memory_region \<Rightarrow> bool" where
  "region_ok r \<longleftrightarrow> unat (mr_start r) mod 4096 = 0 \<and> unat (mr_end r) mod 4096 = 0 \<and> mr_start r \<le> mr_end r"

definition regions_apart :: "memory_region \<Rightarrow> memory_region \<Rightarrow> bool" where
  "regions_apart r q \<longleftrightarrow> mr_end r \<le> mr_start q \<or> mr_end q \<le> mr_start r"

fun memory_map_ok :: "memory_region list \<Rightarrow> bool" where
  "memory_map_ok [] \<longleftrightarrow> True"
| "memory_map_ok (r # rs) \<longleftrightarrow> region_ok r \<and> list_all (regions_apart r) rs \<and> memory_map_ok rs"

lemma region_frames_unat:
  assumes "region_ok r"
  shows "map unat (region_frames r) =
    map (\<lambda>i. unat (mr_start r) + 4096 * i) [0..<(unat (mr_end r) - unat (mr_start r)) div 4096]"
proof -
  have "(unat (mr_end r) - unat (mr_start r)) mod 4096 = 0"
    using assms by (simp add: region_ok_def mod_eq_0_iff_dvd)
  then have n: "div_ceil (unat (mr_end r) - unat (mr_start r)) 4096 = (unat (mr_end r) - unat (mr_start r)) div 4096"
    by (simp add: div_ceil_def)
  have "unat (mr_start r + of_nat (4096 * i)) = unat (mr_start r) + 4096 * i"
    if "i < (unat (mr_end r) - unat (mr_start r)) div 4096" for i
  proof -
    have "4096 * i < unat (mr_end r) - unat (mr_start r)" using that by simp
    then have "unat (mr_start r) + 4096 * i < 2 ^ 64" using unat_u64_less[of "mr_end r"] by linarith
    then show ?thesis by (simp add: unat_word_ariths unat_of_nat del: of_nat_mult)
  qed
  then show ?thesis by (simp add: region_frames_def n)
qed

lemma region_frame_in:
  assumes "region_ok r" "f \<in> set (region_frames r)"
  shows "unat f mod 4096 = 0" "mr_start r \<le> f" "f < mr_end r"
proof -
  have "unat f \<in> set (map unat (region_frames r))" using assms(2) by simp
  then obtain i where i: "i < (unat (mr_end r) - unat (mr_start r)) div 4096" "unat f = unat (mr_start r) + 4096 * i"
    unfolding region_frames_unat[OF assms(1)] by auto
  have "4096 * i < unat (mr_end r) - unat (mr_start r)" using i(1) by simp
  then show "mr_start r \<le> f" "f < mr_end r" using i(2) by (simp_all add: word_le_nat_alt word_less_nat_alt)
  show "unat f mod 4096 = 0" using assms(1) by (simp add: i(2) region_ok_def)
qed

lemma distinct_region_frames: "region_ok r \<Longrightarrow> distinct (region_frames r)"
  using distinct_map[of unat "region_frames r"] region_frames_unat[of r]
  by (auto simp: distinct_map inj_on_def)

lemma distinct_map_frames:
  "memory_map_ok rs \<Longrightarrow> distinct (concat (map region_frames rs))"
proof (induction rs)
  case (Cons r rs)
  have "set (region_frames r) \<inter> set (region_frames q) = {}" if "q \<in> set rs" for q
  proof -
    have q: "region_ok q" "regions_apart r q" "region_ok r"
      using Cons.prems that by (induction rs) (auto simp: list_all_iff)
    then show ?thesis
      using region_frame_in(2,3)[OF q(1)] region_frame_in(2,3)[OF q(3)] by (force simp: regions_apart_def)
  qed
  then show ?case using Cons distinct_region_frames[of r] by auto
qed simp

lemma memory_map_ok_filter: "memory_map_ok rs \<Longrightarrow> memory_map_ok (filter P rs)"
  by (induction rs) (auto simp: list_all_iff)

lemma memory_map_ok_region: "memory_map_ok rs \<Longrightarrow> r \<in> set rs \<Longrightarrow> region_ok r"
  by (induction rs) auto

lemma usable_frames_eq:
  assumes "memory_map_ok (filter mr_usable (fa_memory_map fa))"
  shows "usable_frames fa = concat (map region_frames (filter mr_usable (fa_memory_map fa)))"
proof -
  have "page_of f = f" if "f \<in> set (concat (map region_frames (filter mr_usable (fa_memory_map fa))))" for f
    using that region_frame_in(1) memory_map_ok_region[OF assms] page_of_page by fastforce
  then show ?thesis unfolding usable_frames_def by (rule map_idI)
qed

fun allocate_frames :: "nat \<Rightarrow> frame_allocator \<Rightarrow> u64 list" where
  "allocate_frames 0 fa = []"
| "allocate_frames (Suc n) fa =
     (case allocate_frame fa of (None, fa) \<Rightarrow> allocate_frames n fa | (Some f, fa) \<Rightarrow> f # allocate_frames n fa)"

lemma allocate_frames_eq: "allocate_frames n fa = take n (drop (fa_next fa) (usable_frames fa))"
proof (induction n arbitrary: fa)
  case (Suc n)
  have "usable_frames (fa\<lparr>fa_next := k\<rparr>) = usable_frames fa" for k by (simp add: usable_frames_def)
  then show ?case
    using Suc by (cases "fa_next fa < length (usable_frames fa)")
      (simp_all add: allocate_frame_def Let_def Cons_nth_drop_Suc[symmetric])
qed simp

text \<open>
  C31: the boot frame allocator hands out every usable frame at most once.  For a memory map as the boot
  loader documents it, the frames of any number of successive calls are pairwise different, page
  aligned, each inside a usable region, and there are as many as were asked for or are left.
\<close>

theorem allocate_frames_distinct:
  assumes "memory_map_ok (filter mr_usable (fa_memory_map fa))"
  shows "distinct (allocate_frames n fa) \<and> length (allocate_frames n fa) = min n (remaining_usable_frames fa) \<and>
    (\<forall>f\<in>set (allocate_frames n fa). unat f mod 4096 = 0 \<and>
       (\<exists>r\<in>set (fa_memory_map fa). mr_usable r \<and> mr_start r \<le> f \<and> f < mr_end r))"
proof (intro conjI ballI)
  show "distinct (allocate_frames n fa)"
    unfolding allocate_frames_eq usable_frames_eq[OF assms] using distinct_map_frames[OF assms] by simp
  show "length (allocate_frames n fa) = min n (remaining_usable_frames fa)"
    by (simp add: allocate_frames_eq remaining_usable_frames_def usable_frame_count_def)
  fix f assume "f \<in> set (allocate_frames n fa)"
  then have "f \<in> set (usable_frames fa)" unfolding allocate_frames_eq by (meson in_set_dropD in_set_takeD)
  then obtain r where r: "r \<in> set (fa_memory_map fa)" "mr_usable r" "f \<in> set (region_frames r)"
    unfolding usable_frames_eq[OF assms] by auto
  then have ok: "region_ok r" using memory_map_ok_region[OF assms, of r] by simp
  show "unat f mod 4096 = 0" by (rule region_frame_in(1)[OF ok r(3)])
  show "\<exists>r\<in>set (fa_memory_map fa). mr_usable r \<and> mr_start r \<le> f \<and> f < mr_end r"
    using region_frame_in(2,3)[OF ok r(3)] r(1,2) by blast
qed

definition example_allocator :: frame_allocator where
  "example_allocator =
     \<lparr>fa_memory_map = [\<lparr>mr_start = 0, mr_end = 0x1000, mr_usable = False\<rparr>,
                       \<lparr>mr_start = 0x1000, mr_end = 0x3000, mr_usable = True\<rparr>,
                       \<lparr>mr_start = 0x8000, mr_end = 0x9000, mr_usable = True\<rparr>], fa_next = 1\<rparr>"

theorem allocate_frames_distinct_witness:
  "memory_map_ok (filter mr_usable (fa_memory_map example_allocator)) \<and>
   distinct (allocate_frames 5 example_allocator)"
proof -
  have "memory_map_ok (filter mr_usable (fa_memory_map example_allocator))"
    by (simp add: example_allocator_def region_ok_def regions_apart_def)
  with allocate_frames_distinct[OF this, of 5] show ?thesis by blast
qed

section \<open>Reading entries after writes\<close>

lemma frame_addr_aligned: "frame_addr f \<Longrightarrow> unat f mod 4096 = 0"
proof -
  assume "frame_addr f"
  then have "take_bit 12 f = take_bit 12 (f AND ADDR_MASK)" by (simp add: frame_addr_def)
  also have "\<dots> = 0" by (rule bit_eqI) (simp add: bit_take_bit_iff bit_and_iff ADDR_MASK_def bit_push_bit_iff)
  finally show ?thesis using unat_take_bit12[of f] by simp
qed

lemma aligned_bound: "unat f mod 4096 = 0 \<Longrightarrow> unat f + 4096 \<le> 2 ^ 64" for f :: u64
  by (rule aligned_step) (use unat_u64_less[of f] in simp_all)

lemma unat_table_slot:
  assumes "frame_addr t" "i < 512"
  shows "unat (table_slot t i) = unat t + 8 * i"
  using aligned_bound[OF frame_addr_aligned[OF assms(1)]] assms(2)
  by (simp add: table_slot_def unat_word_ariths unat_of_nat del: of_nat_mult)

lemma table_slot_inject:
  assumes "frame_addr t" "frame_addr t'" "i < 512" "j < 512"
  shows "table_slot t i = table_slot t' j \<longleftrightarrow> t = t' \<and> i = j"
proof
  assume "table_slot t i = table_slot t' j"
  then have e: "unat t + 8 * i = unat t' + 8 * j"
    using unat_table_slot[OF assms(1,3)] unat_table_slot[OF assms(2,4)] by simp
  have "unat t = unat t'"
  proof (rule ccontr)
    assume "unat t \<noteq> unat t'"
    then consider "unat t + 4096 \<le> unat t'" | "unat t' + 4096 \<le> unat t"
      using aligned_step[OF frame_addr_aligned[OF assms(1)] frame_addr_aligned[OF assms(2)]]
        aligned_step[OF frame_addr_aligned[OF assms(2)] frame_addr_aligned[OF assms(1)]] by linarith
    then show False using e assms(3,4) by cases simp_all
  qed
  then show "t = t' \<and> i = j" using e by (simp add: word_unat_eq_iff)
qed simp

lemma entry_set_entry:
  assumes "frame_addr t" "frame_addr t'" "i < 512" "j < 512"
  shows "entry_at (set_entry t i e m) t' j = (if t = t' \<and> i = j then e else entry_at m t' j)"
proof (cases "table_slot t i = table_slot t' j")
  case True
  then show ?thesis using table_slot_inject[OF assms] by (simp add: entry_at_def set_entry_def)
next
  case False
  have "unat (table_slot t i) mod 8 = 0" "unat (table_slot t' j) mod 8 = 0"
    using frame_addr_aligned[OF assms(1)] frame_addr_aligned[OF assms(2)]
    by (simp_all add: unat_table_slot[OF assms(1,3)] unat_table_slot[OF assms(2,4)] mod_add_eq mod_mod_cancel[of 8 4096, symmetric])
  from load64_store64_apart[OF aligned_apart[OF this False]] show ?thesis
    using False table_slot_inject[OF assms] by (auto simp: entry_at_def set_entry_def)
qed

lemma set_entry_outside:
  assumes "frame_addr t" "i < 512" "\<not> unat (a - t) < 4096"
  shows "set_entry t i e m a = m a"
proof -
  have "\<not> unat (a - table_slot t i) < 8"
  proof
    assume l: "unat (a - table_slot t i) < 8"
    have e: "a - t = (a - table_slot t i) + of_nat (8 * i)" by (simp add: table_slot_def)
    have "unat (a - t) = (unat (a - table_slot t i) + 8 * i) mod 2 ^ 64"
      unfolding e unat_word_ariths(1) using assms(2) by (simp add: unat_of_nat del: of_nat_mult)
    then show False using l assms(2,3) by simp
  qed
  then show ?thesis by (simp add: set_entry_def store64_def store_bytes_def)
qed

end
