(* ===== verification/Elf.thy ===== *)
theory Elf
  imports User_Layout Byte_Order
begin

text \<open>
  The ELF reader (\<^verbatim>\<open>kernel/src/user/elf.rs\<close>).  Indexing a slice outside its bounds panics in the source;
  here it is the outcome \<^verbatim>\<open>Panic\<close>, so that the absence of panics is a theorem and not an assumption.
\<close>

section \<open>Outcomes\<close>

datatype ('e, 'a) outcome = Done 'a | Fail 'e | Panic

definition and_then :: "('e, 'a) outcome \<Rightarrow> ('a \<Rightarrow> ('e, 'b) outcome) \<Rightarrow> ('e, 'b) outcome" where
  "and_then r f = (case r of Done x \<Rightarrow> f x | Fail e \<Rightarrow> Fail e | Panic \<Rightarrow> Panic)"

lemma and_then_simps [simp]:
  "and_then (Done x) f = f x" "and_then (Fail e) f = Fail e" "and_then Panic f = Panic"
  by (simp_all add: and_then_def)

section \<open>Types and constants\<close>

definition ELF_MAGIC :: bytes where "ELF_MAGIC = [0x7F, 0x45, 0x4C, 0x46]"
definition PF_X :: u32 where "PF_X = 1"
definition PF_W :: u32 where "PF_W = 2"
definition PF_R :: u32 where "PF_R = 4"
definition USER_ELF_MIN_VADDR :: u64 where "USER_ELF_MIN_VADDR = FIRST_USER_ENTRY"
definition USER_ELF_MAX_VADDR :: u64 where "USER_ELF_MAX_VADDR = FIRST_USER_STACK_TOP - USER_STACK_SIZE"

record elf_info =
  ei_entry :: u64
  ei_program_header_offset :: u64
  ei_program_header_entry_size :: u16
  ei_program_header_count :: u16

record load_segment =
  ls_file_offset :: u64
  ls_virtual_address :: u64
  ls_file_size :: u64
  ls_memory_size :: u64
  ls_flags :: u32
  ls_alignment :: u64

datatype elf_error =
  TooSmall | BadMagic | UnsupportedClass | UnsupportedEndian | UnsupportedVersion | UnsupportedType
| UnsupportedMachine | BadProgramHeaderSize | ProgramHeadersOutOfBounds | SegmentOutOfBounds
| SegmentAddressOutOfBounds | SegmentMemoryTooSmall | BadSegmentFlags | BadSegmentAlignment | TooManyLoadSegments

type_synonym 'a elf = "(elf_error, 'a) outcome"

section \<open>Reading\<close>

definition read_byte :: "bytes \<Rightarrow> nat \<Rightarrow> u8 elf" where
  "read_byte img offset = (if offset < length img then Done (img ! offset) else Panic)"

definition read_le :: "nat \<Rightarrow> bytes \<Rightarrow> nat \<Rightarrow> nat elf" where
  "read_le n img offset =
     (if offset + n \<le> length img then Done (le_value (take n (drop offset img))) else Panic)"

definition read_u16 :: "bytes \<Rightarrow> nat \<Rightarrow> u16 elf" where
  "read_u16 img offset = and_then (read_le 2 img offset) (\<lambda>v. Done (of_nat v))"

definition read_u32 :: "bytes \<Rightarrow> nat \<Rightarrow> u32 elf" where
  "read_u32 img offset = and_then (read_le 4 img offset) (\<lambda>v. Done (of_nat v))"

definition read_u64 :: "bytes \<Rightarrow> nat \<Rightarrow> u64 elf" where
  "read_u64 img offset = and_then (read_le 8 img offset) (\<lambda>v. Done (of_nat v))"

definition validate_program_header_table :: "bytes \<Rightarrow> u64 \<Rightarrow> u16 \<Rightarrow> u16 \<Rightarrow> unit elf" where
  "validate_program_header_table img offset entry_size cnt =
     (if cnt = 0 then Done ()
      else if entry_size < 56 then Fail BadProgramHeaderSize
      else if 2 ^ 64 \<le> unat offset + unat entry_size * unat cnt then Fail ProgramHeadersOutOfBounds
      else if unat offset + unat entry_size * unat cnt > length img then Fail ProgramHeadersOutOfBounds
      else Done ())"

definition parse_elf64 :: "bytes \<Rightarrow> elf_info elf" where
  "parse_elf64 img =
     (if length img < 64 then Fail TooSmall
      else if take 4 img \<noteq> ELF_MAGIC then Fail BadMagic
      else and_then (read_byte img 4) (\<lambda>cls. if cls \<noteq> 2 then Fail UnsupportedClass
      else and_then (read_byte img 5) (\<lambda>endian. if endian \<noteq> 1 then Fail UnsupportedEndian
      else and_then (read_u32 img 20) (\<lambda>version. if version \<noteq> 1 then Fail UnsupportedVersion
      else and_then (read_u16 img 16) (\<lambda>elf_type. if elf_type \<noteq> 2 then Fail UnsupportedType
      else and_then (read_u16 img 18) (\<lambda>machine. if machine \<noteq> 0x3E then Fail UnsupportedMachine
      else and_then (read_u64 img 32) (\<lambda>program_header_offset.
           and_then (read_u16 img 54) (\<lambda>program_header_entry_size.
           and_then (read_u16 img 56) (\<lambda>program_header_count.
           and_then (validate_program_header_table img program_header_offset program_header_entry_size
                       program_header_count) (\<lambda>_.
           and_then (read_u64 img 24) (\<lambda>entry.
             Done \<lparr>ei_entry = entry, ei_program_header_offset = program_header_offset,
                   ei_program_header_entry_size = program_header_entry_size,
                   ei_program_header_count = program_header_count\<rparr>)))))))))))"

definition validate_load_segment :: "bytes \<Rightarrow> load_segment \<Rightarrow> unit elf" where
  "validate_load_segment img seg =
     (if ls_memory_size seg < ls_file_size seg then Fail SegmentMemoryTooSmall
      else if 2 ^ 64 \<le> unat (ls_file_offset seg) + unat (ls_file_size seg) then Fail SegmentOutOfBounds
      else if unat (ls_file_offset seg) + unat (ls_file_size seg) > length img then Fail SegmentOutOfBounds
      else Done ())"

definition is_power_of_two :: "u64 \<Rightarrow> bool" where
  "is_power_of_two w \<longleftrightarrow> w \<noteq> 0 \<and> w AND (w - 1) = 0"

definition validate_user_load_segment :: "load_segment \<Rightarrow> unit elf" where
  "validate_user_load_segment seg =
     (if ls_flags seg AND NOT (PF_R OR PF_W OR PF_X) \<noteq> 0 then Fail BadSegmentFlags
      else if ls_flags seg AND PF_W \<noteq> 0 \<and> ls_flags seg AND PF_X \<noteq> 0 then Fail BadSegmentFlags
      else if ls_alignment seg > 1 \<and> \<not> is_power_of_two (ls_alignment seg) then Fail BadSegmentAlignment
      else if ls_virtual_address seg < USER_ELF_MIN_VADDR then Fail SegmentAddressOutOfBounds
      else case checked_add (ls_virtual_address seg) (ls_memory_size seg) of
             None \<Rightarrow> Fail SegmentAddressOutOfBounds
           | Some e \<Rightarrow> if e > USER_ELF_MAX_VADDR then Fail SegmentAddressOutOfBounds else Done ())"

definition read_segment :: "bytes \<Rightarrow> nat \<Rightarrow> load_segment elf" where
  "read_segment img offset =
     and_then (read_u32 img (offset + 4)) (\<lambda>flags.
     and_then (read_u64 img (offset + 8)) (\<lambda>file_offset.
     and_then (read_u64 img (offset + 16)) (\<lambda>virtual_address.
     and_then (read_u64 img (offset + 32)) (\<lambda>file_size.
     and_then (read_u64 img (offset + 40)) (\<lambda>memory_size.
     and_then (read_u64 img (offset + 48)) (\<lambda>alignment.
       Done \<lparr>ls_file_offset = file_offset, ls_virtual_address = virtual_address, ls_file_size = file_size,
             ls_memory_size = memory_size, ls_flags = flags, ls_alignment = alignment\<rparr>))))))"

text \<open>The loop over the program headers; \<^verbatim>\<open>cap\<close> is the length of the output slice.\<close>

fun load_headers :: "bytes \<Rightarrow> elf_info \<Rightarrow> nat \<Rightarrow> nat list \<Rightarrow> load_segment list \<Rightarrow> load_segment list elf" where
  "load_headers img info cap [] out = Done out"
| "load_headers img info cap (index # rest) out =
     (let offset = unat (ei_program_header_offset info) + index * unat (ei_program_header_entry_size info)
      in and_then (read_u32 img offset) (\<lambda>program_type.
         if program_type \<noteq> 1 then load_headers img info cap rest out
         else if length out \<ge> cap then Fail TooManyLoadSegments
         else and_then (read_segment img offset) (\<lambda>seg.
              and_then (validate_load_segment img seg) (\<lambda>_.
              and_then (validate_user_load_segment seg) (\<lambda>_.
                load_headers img info cap rest (out @ [seg]))))))"

definition load_segments :: "bytes \<Rightarrow> nat \<Rightarrow> load_segment list elf" where
  "load_segments img cap =
     and_then (parse_elf64 img) (\<lambda>info.
       load_headers img info cap [0..<unat (ei_program_header_count info)] [])"

definition segment_page_flags :: "load_segment \<Rightarrow> u64 elf" where
  "segment_page_flags seg =
     and_then (validate_user_load_segment seg) (\<lambda>_.
       Done (1 OR 4 OR (if ls_flags seg AND PF_W \<noteq> 0 then 2 else 0)
             OR (if ls_flags seg AND PF_X = 0 then 0x8000000000000000 else 0)))"

definition segment_end :: "load_segment \<Rightarrow> u64" where
  "segment_end seg = saturating_add (ls_virtual_address seg) (ls_memory_size seg)"

definition image_memory_size :: "load_segment list \<Rightarrow> u64" where
  "image_memory_size segs =
     (let segs = filter (\<lambda>seg. ls_memory_size seg \<noteq> 0) segs;
          low = fold (\<lambda>seg low. min low (ls_virtual_address seg)) segs (- 1);
          high = fold (\<lambda>seg high. max high (segment_end seg)) segs 0
      in if low = - 1 then 0 else saturating_sub high low)"

definition image_footprint_size :: "load_segment list \<Rightarrow> u64" where
  "image_footprint_size segs =
     saturating_sub
       (fold (\<lambda>seg high. max high (segment_end seg)) (filter (\<lambda>seg. ls_memory_size seg \<noteq> 0) segs) USER_ELF_MIN_VADDR)
       USER_ELF_MIN_VADDR"

text \<open>\<^verbatim>\<open>materialize_load_segments\<close>, on the memory the active page tables map.\<close>

definition place_segment :: "bytes \<Rightarrow> load_segment \<Rightarrow> mem \<Rightarrow> mem" where
  "place_segment img seg m =
     (let m = store_bytes (ls_virtual_address seg)
                (take (unat (ls_file_size seg)) (drop (unat (ls_file_offset seg)) img)) m
      in if ls_memory_size seg > ls_file_size seg
         then store_bytes (ls_virtual_address seg + ls_file_size seg)
                (replicate (unat (ls_memory_size seg - ls_file_size seg)) 0) m
         else m)"

fun materialize_load_segments :: "bytes \<Rightarrow> load_segment list \<Rightarrow> mem \<Rightarrow> unit elf \<times> mem" where
  "materialize_load_segments img [] m = (Done (), m)"
| "materialize_load_segments img (seg # segs) m =
     (case and_then (validate_load_segment img seg) (\<lambda>_. validate_user_load_segment seg) of
        Done _ \<Rightarrow> materialize_load_segments img segs (place_segment img seg m)
      | Fail e \<Rightarrow> (Fail e, m)
      | Panic \<Rightarrow> (Panic, m))"

section \<open>No read out of bounds\<close>

definition safe :: "('e, 'a) outcome \<Rightarrow> bool" where
  "safe r \<longleftrightarrow> r \<noteq> Panic"

named_theorems safe_intros \<open>outcomes that are not a panic\<close>

lemma safe_basic [safe_intros]:
  "safe (Done x)" "safe (Fail e)"
  "(b \<Longrightarrow> safe r) \<Longrightarrow> (\<not> b \<Longrightarrow> safe r') \<Longrightarrow> safe (if b then r else r')"
  by (simp_all add: safe_def)

lemma safe_and_then [safe_intros]: "safe r \<Longrightarrow> (\<And>x. r = Done x \<Longrightarrow> safe (f x)) \<Longrightarrow> safe (and_then r f)"
  by (cases r) (simp_all add: safe_def)

lemma safe_reads [safe_intros]:
  "offset < length img \<Longrightarrow> safe (read_byte img offset)"
  "offset + 2 \<le> length img \<Longrightarrow> safe (read_u16 img offset)"
  "offset + 4 \<le> length img \<Longrightarrow> safe (read_u32 img offset)"
  "offset + 8 \<le> length img \<Longrightarrow> safe (read_u64 img offset)"
  by (simp_all add: safe_def read_byte_def read_u16_def read_u32_def read_u64_def read_le_def)

lemma safe_validate [safe_intros]:
  "safe (validate_program_header_table img off es n)" "safe (validate_load_segment img seg)"
  "safe (validate_user_load_segment seg)"
  by (simp_all add: safe_def validate_program_header_table_def validate_load_segment_def validate_user_load_segment_def
      split: option.splits)

lemma safe_parse_elf64 [safe_intros]: "safe (parse_elf64 img)"
  unfolding parse_elf64_def by (intro safe_intros) simp_all

lemma safe_read_segment [safe_intros]: "offset + 56 \<le> length img \<Longrightarrow> safe (read_segment img offset)"
  unfolding read_segment_def by (intro safe_intros) simp_all

lemma and_then_Done:
  "and_then r f = Done y \<longleftrightarrow> (\<exists>x. r = Done x \<and> f x = Done y)"
  by (cases r) auto

lemma parse_elf64_table:
  assumes "parse_elf64 img = Done info"
  shows "unat (ei_program_header_count info) = 0 \<or>
    56 \<le> unat (ei_program_header_entry_size info) \<and>
    unat (ei_program_header_offset info) + unat (ei_program_header_entry_size info) * unat (ei_program_header_count info)
      \<le> length img"
  using assms unfolding parse_elf64_def
  by (auto simp: and_then_Done validate_program_header_table_def word_less_nat_alt split: if_splits)

text \<open>A header of the table lies in the image.\<close>

lemma header_in_img:
  assumes "parse_elf64 img = Done info" "i < unat (ei_program_header_count info)"
  shows "unat (ei_program_header_offset info) + i * unat (ei_program_header_entry_size info) + 56 \<le> length img"
proof -
  let ?e = "unat (ei_program_header_entry_size info)" and ?n = "unat (ei_program_header_count info)"
  have t: "56 \<le> ?e" "unat (ei_program_header_offset info) + ?e * ?n \<le> length img"
    using parse_elf64_table[OF assms(1)] assms(2) by auto
  have "(i + 1) * ?e \<le> ?n * ?e" using assms(2) by (intro mult_right_mono) auto
  then have "i * ?e + ?e \<le> ?e * ?n" by (simp add: algebra_simps)
  with t show ?thesis by linarith
qed

lemma safe_load_headers:
  "(\<And>i. i \<in> set is \<Longrightarrow>
     unat (ei_program_header_offset info) + i * unat (ei_program_header_entry_size info) + 56 \<le> length img) \<Longrightarrow>
   safe (load_headers img info cap is out)"
proof (induction "is" arbitrary: out)
  case (Cons i "is")
  let ?o = "unat (ei_program_header_offset info) + i * unat (ei_program_header_entry_size info)"
  have "?o + 56 \<le> length img" using Cons.prems[of i] by simp
  moreover have "safe (load_headers img info cap is out')" for out' using Cons by simp
  ultimately show ?case unfolding load_headers.simps Let_def
    by (intro safe_intros) simp_all
qed (simp add: safe_basic)

section \<open>Accepted segments\<close>

definition segment_sound :: "bytes \<Rightarrow> load_segment \<Rightarrow> bool" where
  "segment_sound img seg \<longleftrightarrow>
     unat (ls_file_offset seg) + unat (ls_file_size seg) \<le> length img \<and>
     ls_file_size seg \<le> ls_memory_size seg \<and>
     USER_ELF_MIN_VADDR \<le> ls_virtual_address seg \<and>
     unat (ls_virtual_address seg) + unat (ls_memory_size seg) \<le> unat USER_ELF_MAX_VADDR \<and>
     \<not> (ls_flags seg AND PF_W \<noteq> 0 \<and> ls_flags seg AND PF_X \<noteq> 0)"

lemma Done_if: "(if b then Fail e else r) = Done x \<longleftrightarrow> \<not> b \<and> r = Done x"
  by simp

lemma validate_user_DoneD:
  assumes "validate_user_load_segment seg = Done v"
  shows "USER_ELF_MIN_VADDR \<le> ls_virtual_address seg" "\<not> (ls_flags seg AND PF_W \<noteq> 0 \<and> ls_flags seg AND PF_X \<noteq> 0)"
    "unat (ls_virtual_address seg) + unat (ls_memory_size seg) \<le> unat USER_ELF_MAX_VADDR"
proof -
  have d: "\<not> (ls_flags seg AND PF_W \<noteq> 0 \<and> ls_flags seg AND PF_X \<noteq> 0)" "\<not> ls_virtual_address seg < USER_ELF_MIN_VADDR"
    "(case checked_add (ls_virtual_address seg) (ls_memory_size seg) of
             None \<Rightarrow> Fail SegmentAddressOutOfBounds
           | Some e \<Rightarrow> if e > USER_ELF_MAX_VADDR then Fail SegmentAddressOutOfBounds else Done ()) = Done v"
    using assms unfolding validate_user_load_segment_def Done_if by blast+
  then obtain e where e: "checked_add (ls_virtual_address seg) (ls_memory_size seg) = Some e" "\<not> e > USER_ELF_MAX_VADDR"
    by (cases "checked_add (ls_virtual_address seg) (ls_memory_size seg)") (auto split: if_splits)
  show "unat (ls_virtual_address seg) + unat (ls_memory_size seg) \<le> unat USER_ELF_MAX_VADDR"
    using conjunct1[OF checked_add_SomeD[OF e(1)]] e(2) unfolding not_less word_le_nat_alt by simp
  show "USER_ELF_MIN_VADDR \<le> ls_virtual_address seg" using d(2) by (simp only: not_less)
  show "\<not> (ls_flags seg AND PF_W \<noteq> 0 \<and> ls_flags seg AND PF_X \<noteq> 0)" by (rule d(1))
qed

lemma validated_sound:
  assumes "validate_load_segment img seg = Done u" "validate_user_load_segment seg = Done v"
  shows "segment_sound img seg"
proof -
  have "\<not> ls_memory_size seg < ls_file_size seg"
    "\<not> unat (ls_file_offset seg) + unat (ls_file_size seg) > length img"
    using assms(1) unfolding validate_load_segment_def Done_if by blast+
  then show ?thesis unfolding segment_sound_def not_less using validate_user_DoneD[OF assms(2)] by blast
qed

lemma load_headers_ConsE:
  assumes "load_headers img info cap (i # is) out = Done segs"
  obtains (skip) "load_headers img info cap is out = Done segs"
    | (load) seg u v where "length out < cap" "validate_load_segment img seg = Done u"
        "validate_user_load_segment seg = Done v" "load_headers img info cap is (out @ [seg]) = Done segs"
proof -
  let ?o = "unat (ei_program_header_offset info) + i * unat (ei_program_header_entry_size info)"
  obtain t :: u32 where t: "(if t \<noteq> 1 then load_headers img info cap is out
      else if length out \<ge> cap then Fail TooManyLoadSegments
      else and_then (read_segment img ?o) (\<lambda>seg. and_then (validate_load_segment img seg) (\<lambda>_.
           and_then (validate_user_load_segment seg) (\<lambda>_. load_headers img info cap is (out @ [seg]))))) = Done segs"
    using assms unfolding load_headers.simps Let_def and_then_Done[of "read_u32 img ?o"] by blast
  show thesis
  proof (cases "t \<noteq> 1")
    case True
    then show thesis using t skip by simp
  next
    case False
    then have "\<not> cap \<le> length out" "and_then (read_segment img ?o) (\<lambda>seg. and_then (validate_load_segment img seg) (\<lambda>_.
           and_then (validate_user_load_segment seg) (\<lambda>_. load_headers img info cap is (out @ [seg])))) = Done segs"
      using t unfolding if_not_P[OF False] Done_if by blast+
    then show thesis using load unfolding and_then_Done by auto
  qed
qed

definition valid_segment :: "bytes \<Rightarrow> load_segment \<Rightarrow> bool" where
  "valid_segment img seg \<longleftrightarrow> validate_load_segment img seg = Done () \<and> validate_user_load_segment seg = Done ()"

lemma valid_segment_sound: "valid_segment img seg \<Longrightarrow> segment_sound img seg"
  unfolding valid_segment_def by (blast intro: validated_sound)

lemma load_headers_valid:
  assumes "load_headers img info cap is out = Done segs" "\<forall>seg\<in>set out. valid_segment img seg" "length out \<le> cap"
  shows "(\<forall>seg\<in>set segs. valid_segment img seg) \<and> length segs \<le> cap"
  using assms
proof (induction "is" arbitrary: out)
  case (Cons i "is")
  from Cons.prems(1) show ?case
  proof (cases rule: load_headers_ConsE)
    case skip
    from Cons.IH[OF this Cons.prems(2,3)] show ?thesis .
  next
    case (load seg u v)
    have "valid_segment img seg" using load(2,3) by (simp add: valid_segment_def)
    then have "\<forall>seg'\<in>set (out @ [seg]). valid_segment img seg'" using Cons.prems(2) by simp
    moreover have "length (out @ [seg]) \<le> cap" using load(1) by simp
    ultimately show ?thesis by (rule Cons.IH[OF load(4)])
  qed
qed simp

lemma load_segments_valid:
  assumes "load_segments img cap = Done segs"
  shows "\<forall>seg\<in>set segs. valid_segment img seg" "length segs \<le> cap"
  using assms load_headers_valid[of img _ cap _ "[]" segs] by (auto simp: load_segments_def and_then_Done)

section \<open>Properties\<close>

definition example_elf :: bytes where
  "example_elf =
     [127, 69, 76, 70, 2, 1, 1, 0, 0, 0, 0, 0, 0, 0, 0, 0, 2, 0, 62, 0, 1, 0, 0, 0,
      0, 0, 0, 1, 0, 0, 0, 0, 64, 0, 0, 0, 0, 0, 0, 0, 0, 0, 0, 0, 0, 0, 0, 0,
      0, 0, 0, 0, 0, 0, 56, 0, 1, 0, 0, 0, 0, 0, 0, 0, 1, 0, 0, 0, 5, 0, 0, 0,
      116, 0, 0, 0, 0, 0, 0, 0, 0, 0, 0, 1, 0, 0, 0, 0, 0, 0, 0, 0, 0, 0, 0, 0,
      4, 0, 0, 0, 0, 0, 0, 0, 6, 0, 0, 0, 0, 0, 0, 0, 1, 0, 0, 0, 0, 0, 0, 0]"

definition example_segment :: load_segment where
  "example_segment = \<lparr>ls_file_offset = 116, ls_virtual_address = 0x1000000, ls_file_size = 4, ls_memory_size = 6,
     ls_flags = 5, ls_alignment = 1\<rparr>"

lemma example_elf_info:
  "parse_elf64 example_elf = Done \<lparr>ei_entry = 0x1000000, ei_program_header_offset = 64,
     ei_program_header_entry_size = 56, ei_program_header_count = 1\<rparr>"
  by (simp add: parse_elf64_def example_elf_def ELF_MAGIC_def read_byte_def read_u16_def read_u32_def read_u64_def
      read_le_def validate_program_header_table_def)

lemma example_elf_segments: "load_segments example_elf 8 = Done [example_segment]"
  unfolding load_segments_def example_elf_info and_then_simps
  by (simp add: read_segment_def example_elf_def read_u32_def read_u64_def
      read_le_def validate_load_segment_def validate_user_load_segment_def example_segment_def
      PF_R_def PF_W_def PF_X_def USER_ELF_MIN_VADDR_def USER_ELF_MAX_VADDR_def layout_consts checked_add_def)

text \<open>
  C32: the ELF reader is memory safe and only accepts segments that fit.  Whatever bytes the image
  holds, no header or segment field is read outside it; and when \<^verbatim>\<open>load_segments\<close> succeeds, it returns no
  more segments than the caller has room for, every one of them has its file bytes inside the image, at
  least as much memory as file bytes, an address range inside the user program window, and is never both
  writable and executable.
\<close>

theorem load_segments_sound:
  "load_segments img cap \<noteq> Panic \<and>
   (load_segments img cap = Done segs \<longrightarrow> length segs \<le> cap \<and> list_all (segment_sound img) segs)"
proof
  have "safe (load_segments img cap)"
    unfolding load_segments_def
    by (intro safe_intros safe_load_headers) (auto intro: header_in_img)
  then show "load_segments img cap \<noteq> Panic" by (simp add: safe_def)
  show "load_segments img cap = Done segs \<longrightarrow> length segs \<le> cap \<and> list_all (segment_sound img) segs"
    using load_segments_valid[of img cap segs] valid_segment_sound unfolding list_all_iff by blast
qed

theorem load_segments_sound_witness:
  "load_segments example_elf 8 = Done [example_segment] \<and> segment_sound example_elf example_segment"
  using load_segments_sound[of example_elf 8 "[example_segment]"] example_elf_segments by simp

text \<open>What one placed segment leaves at an address.\<close>

definition covers :: "u64 \<Rightarrow> load_segment \<Rightarrow> bool" where
  "covers x seg \<longleftrightarrow> unat (x - ls_virtual_address seg) < unat (ls_memory_size seg)"

definition segment_byte :: "bytes \<Rightarrow> load_segment \<Rightarrow> u64 \<Rightarrow> u8" where
  "segment_byte img seg x =
     (let d = unat (x - ls_virtual_address seg)
      in if d < unat (ls_file_size seg) then img ! (unat (ls_file_offset seg) + d) else 0)"

lemma place_segment_at:
  assumes "segment_sound img seg"
  shows "place_segment img seg m x = (if covers x seg then segment_byte img seg x else m x)"
proof -
  let ?d = "x - ls_virtual_address seg" and ?f = "ls_file_size seg"
  have le: "unat ?f \<le> unat (ls_memory_size seg)"
    and len: "unat (ls_file_offset seg) + unat ?f \<le> length img"
    using assms by (simp_all add: segment_sound_def word_le_nat_alt)
  have gap: "unat (ls_memory_size seg - ?f) = unat (ls_memory_size seg) - unat ?f"
    using le by (simp add: unat_sub word_le_nat_alt)
  have d: "unat (?d - ?f) = (if unat ?f \<le> unat ?d then unat ?d - unat ?f else unat ?d + 2 ^ 64 - unat ?f)"
    by (rule unat_diff64)
  have lt: "unat ?f < 2 ^ 64" "unat (ls_memory_size seg) < 2 ^ 64" by (rule unat_u64_less)+
  have sub: "x - (ls_virtual_address seg + ?f) = ?d - ?f" by (simp add: diff_diff_eq)
  consider "unat ?d < unat ?f" | "unat ?f \<le> unat ?d" "unat ?d < unat (ls_memory_size seg)"
    | "unat (ls_memory_size seg) \<le> unat ?d" by linarith
  then show ?thesis
  proof cases
    case 1
    then have "\<not> unat (?d - ?f) < unat (ls_memory_size seg) - unat ?f" using d lt by simp
    then show ?thesis using 1 le len
      by (simp add: place_segment_def Let_def store_bytes_def covers_def segment_byte_def sub gap)
  next
    case 2
    then have "ls_file_size seg < ls_memory_size seg" by (simp add: word_less_nat_alt)
    moreover have "unat ?d - unat ?f < unat (ls_memory_size seg) - unat ?f" using 2 by linarith
    ultimately show ?thesis using 2 d len
      by (simp add: place_segment_def Let_def store_bytes_def covers_def segment_byte_def sub gap)
  next
    case 3
    then have "\<not> unat ?d - unat ?f < unat (ls_memory_size seg) - unat ?f" "\<not> unat ?d < unat (ls_memory_size seg)"
      "unat ?f \<le> unat ?d" using le by linarith+
    then show ?thesis using d le len
      by (simp add: place_segment_def Let_def store_bytes_def covers_def sub gap)
  qed
qed

lemma materialize_at:
  assumes "\<forall>seg\<in>set segs. valid_segment img seg"
  shows "materialize_load_segments img segs m =
    (Done (), \<lambda>x. case find (covers x) (rev segs) of None \<Rightarrow> m x | Some seg \<Rightarrow> segment_byte img seg x)"
  using assms
proof (induction segs arbitrary: m)
  case (Cons seg segs)
  then have v: "valid_segment img seg" by simp
  have "(case find (covers x) (rev segs) of None \<Rightarrow> place_segment img seg m x | Some seg \<Rightarrow> segment_byte img seg x) =
        (case find (covers x) (rev segs @ [seg]) of None \<Rightarrow> m x | Some seg \<Rightarrow> segment_byte img seg x)" for x
    by (simp add: find_append place_segment_at[OF valid_segment_sound[OF v]] split: option.split)
  then show ?case using Cons v by (simp add: valid_segment_def)
qed simp

text \<open>
  C33: loading puts exactly the image into memory.  For the segments \<^verbatim>\<open>load_segments\<close> accepted,
  \<^verbatim>\<open>materialize_load_segments\<close> succeeds, and afterwards every address holds the byte of the last segment
  that covers it - the file byte in the file part, zero in the rest -, and every address that no segment
  covers is unchanged.
\<close>

theorem materialize_exact:
  assumes "load_segments img cap = Done segs"
  shows "materialize_load_segments img segs m =
    (Done (), \<lambda>x. case find (covers x) (rev segs) of None \<Rightarrow> m x | Some seg \<Rightarrow> segment_byte img seg x)"
  by (rule materialize_at[OF load_segments_valid(1)[OF assms]])

theorem materialize_exact_witness:
  "snd (materialize_load_segments example_elf [example_segment] (\<lambda>_. 7)) 0x1000005 = 0 \<and>
   snd (materialize_load_segments example_elf [example_segment] (\<lambda>_. 7)) 0x1000006 = 7"
  using materialize_exact[OF example_elf_segments, of "\<lambda>_. 7"]
  by (simp add: covers_def segment_byte_def example_segment_def)

end
