(* ===== verification/User_Stack.thy ===== *)
theory User_Stack
  imports User_Layout Byte_Order
begin

text \<open>
  The initial stack of a program (\<^verbatim>\<open>kernel/src/user/ring3.rs\<close>): argument strings at the top, below them,
  aligned to 16 bytes, the argument count, the pointers to the strings and the terminating words.
\<close>

section \<open>Definitions\<close>

definition USER_INITIAL_STACK_MAX_SIZE :: nat where "USER_INITIAL_STACK_MAX_SIZE = 512"
definition USER_INITIAL_ARGV_MAX :: nat where "USER_INITIAL_ARGV_MAX = 8"

datatype user_image_error = EmptyImage | ImageTooLarge

record user_initial_stack =
  is_stack_pointer :: u64
  is_bytes :: bytes
  is_len :: nat

definition is_as_bytes :: "user_initial_stack \<Rightarrow> bytes" where
  "is_as_bytes st = take (is_len st) (is_bytes st)"

definition is_arg_separator :: "u8 \<Rightarrow> bool" where
  "is_arg_separator b \<longleftrightarrow> b = 32 \<or> b = 9"

text \<open>The loop that splits the argument at blanks; \<^verbatim>\<open>room\<close> is what is left of the argument vector.\<close>

function split_args :: "nat \<Rightarrow> bytes \<Rightarrow> bytes list" where
  "split_args room rest =
     (if rest = [] \<or> room = 0 then []
      else
        let rest = dropWhile is_arg_separator rest;
            item = takeWhile (\<lambda>b. \<not> is_arg_separator b) rest;
            rest = dropWhile (\<lambda>b. \<not> is_arg_separator b) rest
        in if item = [] then split_args room rest else item # split_args (room - 1) rest)"
  by pat_completeness auto
termination
proof (relation "measure (\<lambda>(_, rest). length rest)")
  fix room :: nat and rest s item r :: bytes
  assume a: "\<not> (rest = [] \<or> room = 0)" "s = dropWhile is_arg_separator rest"
    "item = takeWhile (\<lambda>b. \<not> is_arg_separator b) s" "r = dropWhile (\<lambda>b. \<not> is_arg_separator b) s"
  have len: "length s \<le> length rest" "length s = length item + length r"
    unfolding a(2) a(3) a(4) by (simp_all add: length_dropWhile_le flip: length_append)
  have "s = [] \<or> \<not> is_arg_separator (hd s)"
    using hd_dropWhile[of is_arg_separator rest] unfolding a(2) by blast
  then have "item \<noteq> [] \<or> s = []" unfolding a(3) by (cases s) auto
  then have "length r < length rest" using len a(1) by (cases item) auto
  then show "((room, r), room, rest) \<in> measure (\<lambda>(_, rest). length rest)"
    and "((room - 1, r), room, rest) \<in> measure (\<lambda>(_, rest). length rest)" by simp_all
qed simp

declare split_args.simps [simp del]

text \<open>
  The loop that places the strings from the last to the first: the lowest offset used, the buffer and
  the pointers.
\<close>

fun place_args :: "u64 \<Rightarrow> bytes list \<Rightarrow> (nat \<times> bytes \<times> u64 list) option" where
  "place_args stack_base [] = Some (USER_INITIAL_STACK_MAX_SIZE, replicate USER_INITIAL_STACK_MAX_SIZE 0, [])"
| "place_args stack_base (item # items) =
     (case place_args stack_base items of
        None \<Rightarrow> None
      | Some (low, buffer, ptrs) \<Rightarrow>
          if length item + 1 > low then None
          else let low = low - (length item + 1)
               in Some (low, splice low (item @ [0]) buffer, (stack_base + of_nat low) # ptrs))"

definition write_stack_word :: "bytes \<Rightarrow> nat \<Rightarrow> u64 \<Rightarrow> (nat \<times> bytes) option" where
  "write_stack_word buffer low v =
     (if low + 8 > USER_INITIAL_STACK_MAX_SIZE then None else Some (low + 8, splice low (u64_le v) buffer))"

fun write_stack_words :: "bytes \<Rightarrow> nat \<Rightarrow> u64 list \<Rightarrow> (nat \<times> bytes) option" where
  "write_stack_words buffer low [] = Some (low, buffer)"
| "write_stack_words buffer low (v # vs) =
     (case write_stack_word buffer low v of
        None \<Rightarrow> None
      | Some (low, buffer) \<Rightarrow> write_stack_words buffer low vs)"

definition build_user_initial_stack ::
    "user_memory_layout \<Rightarrow> bytes \<Rightarrow> bytes \<Rightarrow> user_image_error + user_initial_stack"
where
  "build_user_initial_stack layout program_path arg =
     (if l_stack_top layout \<le> l_stack_start layout
        \<or> l_stack_top layout - l_stack_start layout < of_nat USER_INITIAL_STACK_MAX_SIZE then Inl ImageTooLarge
      else if program_path = [] then Inl EmptyImage
      else
        let stack_base = l_stack_top layout - of_nat USER_INITIAL_STACK_MAX_SIZE;
            argv = program_path # split_args (USER_INITIAL_ARGV_MAX - 1) arg
        in (case place_args stack_base argv of
             None \<Rightarrow> Inl ImageTooLarge
           | Some (low, buffer, ptrs) \<Rightarrow>
               let low = low - low mod 8; word_count = 1 + length argv + 1 + 1 + 2
               in if word_count * 8 > low then Inl ImageTooLarge
                  else
                    let words_start = low - word_count * 8
                    in if (stack_base + of_nat words_start) mod 16 \<noteq> 0 \<and> words_start < 8 then Inl ImageTooLarge
                       else
                         let words_start =
                               (if (stack_base + of_nat words_start) mod 16 \<noteq> 0 then words_start - 8 else words_start)
                         in (case write_stack_words buffer words_start
                                   (of_nat (length argv) # ptrs @ [0, 0, 0, 0]) of
                              None \<Rightarrow> Inl ImageTooLarge
                            | Some (_, buffer) \<Rightarrow>
                                let len = USER_INITIAL_STACK_MAX_SIZE - words_start
                                in Inr \<lparr>is_stack_pointer = stack_base + of_nat words_start,
                                        is_bytes = splice 0 (drop words_start buffer) (replicate USER_INITIAL_STACK_MAX_SIZE 0),
                                        is_len = len\<rparr>)))"

section \<open>Placing strings and words\<close>

definition holds_string :: "bytes \<Rightarrow> nat \<Rightarrow> bytes \<Rightarrow> bool" where
  "holds_string buffer at item \<longleftrightarrow>
     at + length item + 1 \<le> length buffer \<and> slice at (length item + 1) buffer = item @ [0]"

lemma place_args_spec:
  assumes "place_args stack_base items = Some (low, buffer, ptrs)"
  shows "length buffer = USER_INITIAL_STACK_MAX_SIZE \<and> low \<le> USER_INITIAL_STACK_MAX_SIZE \<and> length ptrs = length items \<and>
    (\<forall>i<length items. \<exists>at. low \<le> at \<and> ptrs ! i = stack_base + of_nat at \<and> holds_string buffer at (items ! i))"
  using assms
proof (induction items arbitrary: low buffer ptrs)
  case (Cons item items)
  then obtain low' buffer' ptrs' where p: "place_args stack_base items = Some (low', buffer', ptrs')"
    and l: "\<not> length item + 1 > low'" and eq: "low = low' - (length item + 1)"
      "buffer = splice low (item @ [0]) buffer'" "ptrs = (stack_base + of_nat low) # ptrs'"
    by (auto simp: Let_def split: option.splits prod.splits if_splits)
  note ih = Cons.IH[OF p]
  have fit: "low + length (item @ [0]) \<le> length buffer'" using ih l eq(1) by simp
  have low: "low + length (item @ [0]) = low'" using l eq(1) by simp
  have "\<exists>at. low \<le> at \<and> ptrs ! i = stack_base + of_nat at \<and> holds_string buffer at ((item # items) ! i)"
    if "i < length (item # items)" for i
  proof (cases i)
    case 0
    have "holds_string buffer low item"
      using slice_splice_same[OF fit] fit by (simp add: holds_string_def eq(2))
    then show ?thesis using 0 eq(3) by auto
  next
    case (Suc j)
    then have "j < length items" using that by simp
    then obtain at where at: "low' \<le> at" "ptrs' ! j = stack_base + of_nat at" "holds_string buffer' at (items ! j)"
      using ih by blast
    then have "holds_string buffer at (items ! j)"
      using slice_splice_after[where at = low and src = "item @ [0]" and at' = at and n = "length (items ! j) + 1"
          and dst = buffer'] fit low
      by (simp add: holds_string_def eq(2))
    moreover have "low \<le> at" using at(1) low by simp
    ultimately show ?thesis using Suc at eq(3) by auto
  qed
  then show ?case using ih fit low eq by simp
qed (simp add: USER_INITIAL_STACK_MAX_SIZE_def)

lemma write_stack_words_eq:
  "low + 8 * length vs \<le> length buffer \<Longrightarrow> length buffer = USER_INITIAL_STACK_MAX_SIZE \<Longrightarrow>
   write_stack_words buffer low vs = Some (low + 8 * length vs, splice low (concat (map u64_le vs)) buffer)"
proof (induction vs arbitrary: low buffer)
  case Nil
  then show ?case by (simp add: splice_def)
next
  case (Cons v vs)
  have len: "length (concat (map u64_le ws)) = 8 * length ws" for ws by (induction ws) auto
  have "splice (low + 8) (concat (map u64_le vs)) (splice low (u64_le v) buffer) =
        splice low (u64_le v @ concat (map u64_le vs)) buffer"
    using Cons.prems by (simp add: splice_def len ac_simps)
  then show ?case using Cons by (simp add: write_stack_word_def)
qed

definition word_at :: "bytes \<Rightarrow> nat \<Rightarrow> u64" where
  "word_at bs at = u64_of_le (slice at 8 bs)"

lemma length_concat_words [simp]: "length (concat (map u64_le vs)) = 8 * length vs"
  by (induction vs) auto

lemma slice_concat_words: "i < length vs \<Longrightarrow> slice (8 * i) 8 (concat (map u64_le vs)) = u64_le (vs ! i)"
proof (induction vs arbitrary: i)
  case (Cons v vs)
  then show ?case by (cases i) (auto simp: slice_def)
qed simp

lemma word_at_splice:
  assumes "low + 8 * length vs \<le> length buffer" "i < length vs"
  shows "word_at (splice low (concat (map u64_le vs)) buffer) (low + 8 * i) = vs ! i"
proof -
  let ?ws = "concat (map u64_le vs)"
  have "slice (low + 8 * i) 8 (splice low ?ws buffer) = slice (8 * i) 8 ?ws"
    using assms by (simp add: slice_def splice_def)
  then show ?thesis using slice_concat_words[OF assms(2)] by (simp add: word_at_def)
qed

lemma slice_drop: "slice at n (drop k xs) = slice (k + at) n xs"
  by (simp add: slice_def add.commute)

text \<open>The words below the strings, and where they start.\<close>

definition words_offset :: "u64 \<Rightarrow> nat \<Rightarrow> nat \<Rightarrow> nat" where
  "words_offset stack_base low n =
     (let at = low - low mod 8 - n * 8 in if (stack_base + of_nat at) mod 16 \<noteq> 0 then at - 8 else at)"

abbreviation argv_of :: "bytes \<Rightarrow> bytes \<Rightarrow> bytes list" where
  "argv_of path arg \<equiv> path # split_args (USER_INITIAL_ARGV_MAX - 1) arg"

abbreviation stack_base_of :: "user_memory_layout \<Rightarrow> u64" where
  "stack_base_of layout \<equiv> l_stack_top layout - of_nat USER_INITIAL_STACK_MAX_SIZE"

lemma build_user_initial_stack_InrE:
  assumes b: "build_user_initial_stack layout path arg = Inr st"
  obtains low buffer ptrs e out where
    "place_args (stack_base_of layout) (argv_of path arg) = Some (low, buffer, ptrs)"
    "(1 + length (argv_of path arg) + 1 + 1 + 2) * 8 \<le> low - low mod 8"
    "write_stack_words buffer (words_offset (stack_base_of layout) low (1 + length (argv_of path arg) + 1 + 1 + 2))
       (of_nat (length (argv_of path arg)) # ptrs @ [0, 0, 0, 0]) = Some (e, out)"
    "(stack_base_of layout + of_nat (low - low mod 8 - (1 + length (argv_of path arg) + 1 + 1 + 2) * 8)) mod 16 \<noteq> 0 \<longrightarrow>
       8 \<le> low - low mod 8 - (1 + length (argv_of path arg) + 1 + 1 + 2) * 8"
    "st = \<lparr>is_stack_pointer = stack_base_of layout +
             of_nat (words_offset (stack_base_of layout) low (1 + length (argv_of path arg) + 1 + 1 + 2)),
           is_bytes = splice 0 (drop (words_offset (stack_base_of layout) low (1 + length (argv_of path arg) + 1 + 1 + 2)) out)
             (replicate USER_INITIAL_STACK_MAX_SIZE 0),
           is_len = USER_INITIAL_STACK_MAX_SIZE -
             words_offset (stack_base_of layout) low (1 + length (argv_of path arg) + 1 + 1 + 2)\<rparr>"
proof (cases "place_args (stack_base_of layout) (argv_of path arg)")
  case None
  then show thesis using b by (simp add: build_user_initial_stack_def Let_def split: if_splits)
next
  case (Some r)
  obtain low buffer ptrs where r: "r = (low, buffer, ptrs)" by (cases r)
  define n where "n = 1 + length (argv_of path arg) + 1 + 1 + 2"
  define at where "at = low - low mod 8 - n * 8"
  define w where "w = words_offset (stack_base_of layout) low n"
  have w: "w = (if (stack_base_of layout + of_nat at) mod 16 \<noteq> 0 then at - 8 else at)"
    by (simp add: w_def words_offset_def at_def Let_def)
  let ?ws = "of_nat (length (argv_of path arg)) # ptrs @ [0, 0, 0, 0]"
  have c: "n * 8 \<le> low - low mod 8" "\<not> ((stack_base_of layout + of_nat at) mod 16 \<noteq> 0 \<and> at < 8)"
    "(case write_stack_words buffer w ?ws of None \<Rightarrow> Inl ImageTooLarge
     | Some (_, out) \<Rightarrow> Inr \<lparr>is_stack_pointer = stack_base_of layout + of_nat w,
         is_bytes = splice 0 (drop w out) (replicate USER_INITIAL_STACK_MAX_SIZE 0),
         is_len = USER_INITIAL_STACK_MAX_SIZE - w\<rparr>) = Inr st"
    using b unfolding build_user_initial_stack_def Let_def Some r w at_def n_def
    by (simp_all split: if_split_asm)
  obtain e out where o: "write_stack_words buffer w ?ws = Some (e, out)"
    using c(3) by (cases "write_stack_words buffer w ?ws") auto
  have st: "st = \<lparr>is_stack_pointer = stack_base_of layout + of_nat w,
         is_bytes = splice 0 (drop w out) (replicate USER_INITIAL_STACK_MAX_SIZE 0),
         is_len = USER_INITIAL_STACK_MAX_SIZE - w\<rparr>"
    using c(3) unfolding o by simp
  have h: "(stack_base_of layout + of_nat at) mod 16 \<noteq> 0 \<longrightarrow> 8 \<le> at" using c(2) by linarith
  show thesis
    by (rule that[of low buffer ptrs e out, folded n_def, folded w_def, folded at_def, OF Some[unfolded r] c(1) o h st])
qed

lemma unat_mod16: "unat (x mod 16) = unat x mod 16" for x :: u64
  by (simp add: unat_mod_distrib)

lemma unat_add_mod16: "unat (x + y) mod 16 = (unat x mod 16 + unat y mod 16) mod 16" for x y :: u64
  unfolding unat_word_ariths(1) by (simp add: mod_mod_cancel mod_add_eq)

lemma stack_base_mod: "tp mod 16 = 0 \<Longrightarrow> (tp - 512 + of_nat n) mod 16 = (of_nat (n mod 16) :: u64)" for tp :: u64
proof -
  assume "tp mod 16 = 0"
  then have t: "unat tp mod 16 = 0" unfolding unat_mod16[symmetric] by simp
  have "unat (of_nat n :: u64) mod 16 = n mod 16" by (simp add: unat_of_nat mod_mod_cancel)
  then have "unat (tp + 0xFFFFFFFFFFFFFE00 + of_nat n) mod 16 = n mod 16"
    unfolding unat_add_mod16 t by simp
  moreover have e: "tp - 512 = tp + 0xFFFFFFFFFFFFFE00" by (simp add: diff_eq_eq add.assoc)
  ultimately have "unat ((tp - 512 + of_nat n) mod 16) = n mod 16" unfolding unat_mod16 e by blast
  then show ?thesis by (metis of_nat_unat ucast_id)
qed

lemma words_offset_spec:
  assumes "n * 8 \<le> low - low mod 8" "tp mod 16 = 0"
    "(tp - 512 + of_nat (low - low mod 8 - n * 8)) mod 16 \<noteq> 0 \<longrightarrow> 8 \<le> low - low mod 8 - n * 8"
  shows "words_offset (tp - 512) low n + 8 * n \<le> low"
    "(tp - 512 + of_nat (words_offset (tp - 512) low n)) mod 16 = 0"
proof -
  define at where "at = low - low mod 8 - n * 8"
  have "8 dvd low - low mod 8" by (rule dvd_minus_mod)
  then have "8 dvd at" unfolding at_def by (rule dvd_diff_nat) simp
  then have at8: "at mod 8 = 0" by simp
  have "at + 8 * n \<le> low" using assms(1) by (simp add: at_def)
  then show "words_offset (tp - 512) low n + 8 * n \<le> low"
    unfolding words_offset_def at_def[symmetric] Let_def by (auto split: if_split)
  show "(tp - 512 + of_nat (words_offset (tp - 512) low n)) mod 16 = 0"
  proof (cases "(tp - 512 + of_nat at) mod 16 = 0")
    case True
    then show ?thesis unfolding words_offset_def at_def[symmetric] Let_def by simp
  next
    case False
    then have "8 \<le> at" using assms(3) by (simp add: at_def)
    have "at mod 16 \<noteq> 0"
    proof
      assume "at mod 16 = 0"
      with False show False unfolding stack_base_mod[OF assms(2)] by simp
    qed
    then have "(at - 8) mod 16 = 0" using at8 \<open>8 \<le> at\<close> by presburger
    then show ?thesis using False
      unfolding words_offset_def at_def[symmetric] Let_def if_P[OF False] stack_base_mod[OF assms(2)] by simp
  qed
qed

lemma is_as_bytes_eq:
  assumes "length out = USER_INITIAL_STACK_MAX_SIZE" "w \<le> USER_INITIAL_STACK_MAX_SIZE"
  shows "is_as_bytes \<lparr>is_stack_pointer = sp,
           is_bytes = splice 0 (drop w out) (replicate USER_INITIAL_STACK_MAX_SIZE 0),
           is_len = USER_INITIAL_STACK_MAX_SIZE - w\<rparr> = drop w out"
  using assms by (simp add: is_as_bytes_def splice_def)

text \<open>The contents of a stack that was built: words at \<^verbatim>\<open>w\<close>, strings above \<^verbatim>\<open>low\<close>.\<close>

lemma initial_stack_contents:
  assumes b: "build_user_initial_stack layout path arg = Inr st" and al: "l_stack_top layout mod 16 = 0"
  obtains w low buffer ptrs where
    "place_args (stack_base_of layout) (argv_of path arg) = Some (low, buffer, ptrs)"
    "w + 8 * (length (argv_of path arg) + 5) \<le> low" "(stack_base_of layout + of_nat w) mod 16 = 0"
    "is_stack_pointer st = stack_base_of layout + of_nat w"
    "is_as_bytes st = drop w (splice w (concat (map u64_le (of_nat (length (argv_of path arg)) # ptrs @ [0, 0, 0, 0]))) buffer)"
proof -
  define n where "n = 1 + length (argv_of path arg) + 1 + 1 + 2"
  have base: "stack_base_of layout = l_stack_top layout - 512" by (simp add: USER_INITIAL_STACK_MAX_SIZE_def)
  from b obtain low buffer ptrs e out where
    pl: "place_args (stack_base_of layout) (argv_of path arg) = Some (low, buffer, ptrs)"
    and le: "n * 8 \<le> low - low mod 8"
    and wr: "write_stack_words buffer (words_offset (stack_base_of layout) low n)
      (of_nat (length (argv_of path arg)) # ptrs @ [0, 0, 0, 0]) = Some (e, out)"
    and sm: "(stack_base_of layout + of_nat (low - low mod 8 - n * 8)) mod 16 \<noteq> 0 \<longrightarrow> 8 \<le> low - low mod 8 - n * 8"
    and st: "st = \<lparr>is_stack_pointer = stack_base_of layout + of_nat (words_offset (stack_base_of layout) low n),
           is_bytes = splice 0 (drop (words_offset (stack_base_of layout) low n) out) (replicate USER_INITIAL_STACK_MAX_SIZE 0),
           is_len = USER_INITIAL_STACK_MAX_SIZE - words_offset (stack_base_of layout) low n\<rparr>"
    unfolding n_def by (rule build_user_initial_stack_InrE)
  define w where "w = words_offset (stack_base_of layout) low n"
  define ws where "ws = of_nat (length (argv_of path arg)) # ptrs @ [0 :: u64, 0, 0, 0]"
  note ps = place_args_spec[OF pl]
  have lw: "length ws = n" using ps unfolding ws_def n_def by simp
  have w: "w + 8 * n \<le> low" "(stack_base_of layout + of_nat w) mod 16 = 0"
    using words_offset_spec[OF le al sm[unfolded base]] unfolding w_def base by simp_all
  have fit: "w + 8 * length ws \<le> length buffer" and lenb: "length buffer = USER_INITIAL_STACK_MAX_SIZE"
    using ps w(1) lw by auto
  have out: "splice w (concat (map u64_le ws)) buffer = out"
    using write_stack_words_eq[OF fit lenb] wr unfolding w_def ws_def by simp
  have "length out = USER_INITIAL_STACK_MAX_SIZE" "w \<le> USER_INITIAL_STACK_MAX_SIZE"
    unfolding out[symmetric] using fit lenb by simp_all
  then have "is_as_bytes st = drop w out" unfolding st w_def[symmetric] by (rule is_as_bytes_eq)
  moreover have "is_stack_pointer st = stack_base_of layout + of_nat w" unfolding st w_def by simp
  moreover have "w + 8 * (length (argv_of path arg) + 5) \<le> low" using w(1) unfolding n_def by simp
  ultimately show thesis using that[OF pl _ w(2)] out unfolding ws_def by blast
qed

text \<open>
  C34: the initial stack is what the program entry expects.  When \<^verbatim>\<open>build_user_initial_stack\<close> succeeds for
  a layout with an aligned stack top, the stack pointer is aligned to 16 bytes, the bytes end at the stack
  top, the first word is the number of arguments, the words after it point - inside these bytes - at
  the program path and at the arguments, each terminated by a zero byte, and a null pointer ends the
  vector.
\<close>

theorem initial_stack_layout:
  assumes b: "build_user_initial_stack layout path arg = Inr st" and al: "l_stack_top layout mod 16 = 0"
  shows "is_stack_pointer st mod 16 = 0 \<and>
    is_stack_pointer st + of_nat (length (is_as_bytes st)) = l_stack_top layout \<and>
    word_at (is_as_bytes st) 0 = of_nat (length (argv_of path arg)) \<and>
    word_at (is_as_bytes st) (8 * (length (argv_of path arg) + 1)) = 0 \<and>
    (\<forall>i<length (argv_of path arg). \<exists>off.
       word_at (is_as_bytes st) (8 * (i + 1)) = is_stack_pointer st + of_nat off \<and>
       holds_string (is_as_bytes st) off (argv_of path arg ! i))"
proof -
  define argv where "argv = argv_of path arg"
  define base where "base = stack_base_of layout"
  obtain w low buffer ptrs where pl: "place_args base argv = Some (low, buffer, ptrs)"
    and w: "w + 8 * (length argv + 5) \<le> low" "(base + of_nat w) mod 16 = 0" and sp: "is_stack_pointer st = base + of_nat w"
    and bs: "is_as_bytes st = drop w (splice w (concat (map u64_le (of_nat (length argv) # ptrs @ [0, 0, 0, 0]))) buffer)"
    using initial_stack_contents[OF b al] unfolding argv_def base_def by metis
  define ws where "ws = of_nat (length argv) # ptrs @ [0 :: u64, 0, 0, 0]"
  note ps = place_args_spec[OF pl]
  have lw: "length ws = length argv + 5" and lenp: "length ptrs = length argv" using ps by (simp_all add: ws_def)
  have fit: "w + 8 * length ws \<le> length buffer" using ps w(1) lw by simp
  have word: "word_at (is_as_bytes st) (8 * k) = ws ! k" if "k < length argv + 5" for k
    using word_at_splice[OF fit, of k] that lw by (simp add: bs ws_def[symmetric] word_at_def slice_drop)
  have str: "\<exists>off. word_at (is_as_bytes st) (8 * (i + 1)) = is_stack_pointer st + of_nat off \<and>
      holds_string (is_as_bytes st) off (argv ! i)" if i: "i < length argv" for i
  proof -
    obtain at where at: "low \<le> at" "ptrs ! i = base + of_nat at" "holds_string buffer at (argv ! i)"
      using ps i by blast
    have wa: "w \<le> at" "w + length (concat (map u64_le ws)) \<le> at" using at(1) w(1) lw by simp_all
    have "slice at (length (argv ! i) + 1) (splice w (concat (map u64_le ws)) buffer) = slice at (length (argv ! i) + 1) buffer"
      by (rule slice_splice_after[OF wa(2)]) (use fit in simp)
    moreover have "at - w + length (argv ! i) + 1 \<le> length buffer - w" 
      using conjunct1[OF at(3)[unfolded holds_string_def]] wa(1) by linarith
    ultimately have "holds_string (is_as_bytes st) (at - w) (argv ! i)"
      using at(3) wa fit unfolding holds_string_def bs ws_def[symmetric] slice_drop by simp
    moreover have "word_at (is_as_bytes st) (8 * (i + 1)) = is_stack_pointer st + of_nat (at - w)"
      using word[of "i + 1"] i lenp at(2) wa(1) by (simp add: ws_def nth_append sp of_nat_diff)
    ultimately show ?thesis by blast
  qed
  have "is_stack_pointer st + of_nat (length (is_as_bytes st)) = l_stack_top layout"
    using fit ps by (simp add: bs ws_def[symmetric] sp base_def of_nat_diff)
  then show ?thesis
    using word[of 0] word[of "length argv + 1"] str w(2) lenp
    unfolding argv_def[symmetric] by (simp add: ws_def nth_append sp)
qed

theorem initial_stack_layout_witness:
  "\<exists>st. build_user_initial_stack (memory_layout_for_pid 2) [47, 108, 115] [47, 32, 97] = Inr st \<and>
     word_at (is_as_bytes st) 0 = 3"
proof -
  let ?r = "build_user_initial_stack (memory_layout_for_pid 2) [47, 108, 115] [47, 32, 97]"
  have a: "split_args (USER_INITIAL_ARGV_MAX - 1) [47, 32, 97] = [[47], [97]]"
    by (simp add: split_args.simps is_arg_separator_def USER_INITIAL_ARGV_MAX_def Let_def)
  have t: "l_stack_top (memory_layout_for_pid 2) = 0x1400000" "l_stack_start (memory_layout_for_pid 2) = 0x13FC000"
    by (simp_all add: memory_layout_for_pid_def memory_layout_for_pid_with_program_size_def stack_top_for_pid_def
        layout_consts Let_def saturating_sub_def)
  obtain st where "?r = Inr st"
    unfolding build_user_initial_stack_def t a
    by (simp add: USER_INITIAL_STACK_MAX_SIZE_def Let_def write_stack_word_def)
  then show ?thesis using initial_stack_layout[of "memory_layout_for_pid 2" "[47, 108, 115]" "[47, 32, 97]" st] a t
    by simp
qed

end
