(* ===== verification/Private_Space.thy ===== *)
theory Private_Space
  imports Page_Tables Elf User_Stack Process_Types
begin

text \<open>
  Private address spaces (\<^verbatim>\<open>kernel/src/user/address_space.rs\<close>): building a level-4 table with its own
  program and stack frames, filling those frames for a program, and the protection of its pages.  State
  is the frame allocator and physical memory.
\<close>

section \<open>Cloning tables\<close>

definition copy_frame :: "u64 \<Rightarrow> u64 \<Rightarrow> mem \<Rightarrow> mem" where
  "copy_frame src dst m = (\<lambda>a. if unat (a - dst) < 4096 then m (src + (a - dst)) else m a)"

type_synonym 'a fm = "(address_space_error + 'a) \<times> frame_allocator \<times> mem"

definition clone_child_table :: "paging \<Rightarrow> u64 \<Rightarrow> nat \<Rightarrow> frame_allocator \<Rightarrow> mem \<Rightarrow> u64 fm" where
  "clone_child_table pg parent i fa m =
     (case child_table_frame pg m parent i of
        Inl e \<Rightarrow> (Inl e, fa, m)
      | Inr current \<Rightarrow>
     (case allocate_frame fa of
        (None, fa) \<Rightarrow> (Inl FrameAllocationFailed, fa, m)
      | (Some new, fa) \<Rightarrow>
          let m = copy_frame current new m;
              fl = pg_flags pg (entry_at m parent i) OR PRESENT OR WRITABLE
          in (Inr new, fa, set_entry parent i (pg_entry pg new fl) m)))"

definition map_private_user_page :: "paging \<Rightarrow> u64 \<Rightarrow> u64 \<Rightarrow> u64 \<Rightarrow> frame_allocator \<Rightarrow> mem \<Rightarrow> unit fm" where
  "map_private_user_page pg p4 va private_frame fa m =
     (case clone_child_table pg p4 (pg_index pg 4 va) fa m of
        (Inl e, fa, m) \<Rightarrow> (Inl e, fa, m)
      | (Inr p3, fa, m) \<Rightarrow>
     (case clone_child_table pg p3 (pg_index pg 3 va) fa m of
        (Inl e, fa, m) \<Rightarrow> (Inl e, fa, m)
      | (Inr p2, fa, m) \<Rightarrow>
     (case clone_child_table pg p2 (pg_index pg 2 va) fa m of
        (Inl e, fa, m) \<Rightarrow> (Inl e, fa, m)
      | (Inr p1, fa, m) \<Rightarrow>
          (Inr (), fa, set_entry p1 (pg_index pg 1 va) (pg_entry pg private_frame user_data_page_flags) m))))"

text \<open>The loops of \<^verbatim>\<open>prepare_private_p4_slot\<close>: a frame for every page, mapped in order.\<close>

fun map_private_pages :: "paging \<Rightarrow> u64 \<Rightarrow> u64 list \<Rightarrow> frame_allocator \<Rightarrow> mem \<Rightarrow> u64 list fm" where
  "map_private_pages pg p4 [] fa m = (Inr [], fa, m)"
| "map_private_pages pg p4 (va # vas) fa m =
     (case allocate_frame fa of
        (None, fa) \<Rightarrow> (Inl FrameAllocationFailed, fa, m)
      | (Some frame, fa) \<Rightarrow>
     (case map_private_user_page pg p4 va frame fa m of
        (Inl e, fa, m) \<Rightarrow> (Inl e, fa, m)
      | (Inr _, fa, m) \<Rightarrow>
     (case map_private_pages pg p4 vas fa m of
        (Inl e, fa, m) \<Rightarrow> (Inl e, fa, m)
      | (Inr frames, fa, m) \<Rightarrow> (Inr (frame # frames), fa, m))))"

definition program_pages :: "nat \<Rightarrow> u64 list" where
  "program_pages n = map (\<lambda>i. FIRST_USER_ENTRY + of_nat i * 4096) [0..<n]"

definition stack_pages :: "nat \<Rightarrow> u64 list" where
  "stack_pages slot = map (\<lambda>i. fst (stack_range_for_slot slot) + of_nat i * 4096) [0..<PRIVATE_STACK_PAGE_COUNT]"

fun map_private_stacks :: "paging \<Rightarrow> u64 \<Rightarrow> nat list \<Rightarrow> frame_allocator \<Rightarrow> mem \<Rightarrow> u64 list list fm" where
  "map_private_stacks pg p4 [] fa m = (Inr [], fa, m)"
| "map_private_stacks pg p4 (slot # slots) fa m =
     (case map_private_pages pg p4 (stack_pages slot) fa m of
        (Inl e, fa, m) \<Rightarrow> (Inl e, fa, m)
      | (Inr frames, fa, m) \<Rightarrow>
     (case map_private_stacks pg p4 slots fa m of
        (Inl e, fa, m) \<Rightarrow> (Inl e, fa, m)
      | (Inr rest, fa, m) \<Rightarrow> (Inr (frames # rest), fa, m)))"

definition prepare_private_p4_slot ::
    "paging \<Rightarrow> u64 \<Rightarrow> u64 \<Rightarrow> nat \<Rightarrow> frame_allocator \<Rightarrow> mem \<Rightarrow> p4_slot fm"
where
  "prepare_private_p4_slot pg cr3 p4 program_page_count fa m =
     (case map_private_pages pg p4 (program_pages (min program_page_count MAX_PRIVATE_PROGRAM_PAGE_COUNT)) fa
             (copy_frame cr3 p4 m) of
        (Inl e, fa, m) \<Rightarrow> (Inl e, fa, m)
      | (Inr program_frames, fa, m) \<Rightarrow>
     (case map_private_stacks pg p4 [0..<PRIVATE_STACK_SLOT_COUNT] fa m of
        (Inl e, fa, m) \<Rightarrow> (Inl e, fa, m)
      | (Inr stack_frames, fa, m) \<Rightarrow>
          (Inr \<lparr>s_p4_frame = p4,
                s_program_frames = program_frames @ replicate (MAX_PRIVATE_PROGRAM_PAGE_COUNT - length program_frames) 0,
                s_program_frame_count = program_page_count, s_stack_frames = stack_frames,
                s_stack_in_use = replicate PRIVATE_STACK_SLOT_COUNT False, s_in_use = False\<rparr>, fa, m)))"

section \<open>Page counts\<close>

definition pages_for_len :: "nat \<Rightarrow> nat" where
  "pages_for_len len = div_ceil len 4096"

definition image_private_page_count :: "bytes \<Rightarrow> nat" where
  "image_private_page_count img =
     (case parse_elf64 img of
        Done _ \<Rightarrow>
          (case load_segments img 8 of
             Done segs \<Rightarrow> pages_for_len (unat (image_footprint_size segs))
           | _ \<Rightarrow> pages_for_len (length img))
      | _ \<Rightarrow> pages_for_len (length img))"

definition required_private_program_pages :: "bytes list \<Rightarrow> nat" where
  "required_private_program_pages imgs =
     (let pages = fold (\<lambda>img pages. max pages (image_private_page_count img)) imgs 1
      in max 1 (min pages MAX_PRIVATE_PROGRAM_PAGE_COUNT))"

text \<open>
  \<^verbatim>\<open>init_private_p4_pool\<close>: \<^verbatim>\<open>room\<close> is the number of slots still empty; every pass of the loop fills one or
  leaves the loop.
\<close>

fun fill_private_p4_pool ::
    "paging \<Rightarrow> u64 \<Rightarrow> nat \<Rightarrow> nat \<Rightarrow> p4_pool \<Rightarrow> frame_allocator \<Rightarrow> mem \<Rightarrow> p4_pool \<times> frame_allocator \<times> mem"
where
  "fill_private_p4_pool pg cr3 n 0 pool fa m = (pool, fa, m)"
| "fill_private_p4_pool pg cr3 n (Suc room) pool fa m =
     (case allocate_frame fa of
        (None, fa) \<Rightarrow> (pool, fa, m)
      | (Some frame, fa) \<Rightarrow>
     (case prepare_private_p4_slot pg cr3 frame n fa m of
        (Inl _, fa, m) \<Rightarrow> (pool, fa, m)
      | (Inr slot, fa, m) \<Rightarrow> fill_private_p4_pool pg cr3 n room (snd (pool_push slot pool)) fa m))"

definition init_private_p4_pool ::
    "paging \<Rightarrow> bytes list \<Rightarrow> u64 \<Rightarrow> u64 \<Rightarrow> frame_allocator \<Rightarrow> mm \<Rightarrow> nat \<times> frame_allocator \<times> mm"
where
  "init_private_p4_pool pg imgs cr3 offset fa s =
     (let (pool, fa, m) = fill_private_p4_pool pg cr3 (required_private_program_pages imgs)
            (PRIVATE_P4_POOL_SIZE - pool_count (mm_pool s)) (mm_pool s) fa (mm_mem s)
      in (pool_count pool, fa,
          s\<lparr>mm_pool := pool, mm_kernel_p4 := Some cr3, mm_offset := Some offset, mm_offset_value := offset,
            mm_mem := m\<rparr>))"

section \<open>Filling the frames\<close>

definition private_program_page_index :: "u64 \<Rightarrow> p4_slot \<Rightarrow> address_space_error + nat" where
  "private_program_page_index va slot =
     (if va < FIRST_USER_ENTRY then Inl PrivateMappingNotFound
      else let index = unat ((va - FIRST_USER_ENTRY) div 4096)
           in if index \<ge> s_program_frame_count slot then Inl PrivateMappingTooSmall else Inr index)"

definition private_stack_page_index :: "u64 \<Rightarrow> user_memory_layout \<Rightarrow> address_space_error + nat" where
  "private_stack_page_index va layout =
     (if va < l_stack_start layout \<or> va \<ge> l_stack_top layout then Inl PrivateMappingNotFound
      else let index = unat ((va - l_stack_start layout) div 4096)
           in if index \<ge> PRIVATE_STACK_PAGE_COUNT then Inl PrivateMappingTooSmall else Inr index)"

text \<open>
  The loop the three writers share: pages of the area at \<^verbatim>\<open>start\<close> lie in the frames \<^verbatim>\<open>frames\<close>, and
  \<^verbatim>\<open>page_index\<close> finds the page of an address.
\<close>

function write_pages ::
    "u64 \<Rightarrow> u64 list \<Rightarrow> (u64 \<Rightarrow> address_space_error + nat) \<Rightarrow> u64 \<Rightarrow> bytes \<Rightarrow> mem \<Rightarrow> (address_space_error + unit) \<times> mem"
where
  "write_pages start frames page_index va bs m =
     (if bs = [] then (Inr (), m)
      else case page_index va of
        Inl e \<Rightarrow> (Inl e, m)
      | Inr i \<Rightarrow>
          let page_offset = unat (va - start) mod 4096; cnt = min (length bs) (4096 - page_offset)
          in write_pages start frames page_index (va + of_nat cnt) (drop cnt bs)
               (store_bytes (frames ! i + of_nat page_offset) (take cnt bs) m))"
  by pat_completeness auto
termination
  by (relation "measure (\<lambda>(_, _, _, _, bs, _). length bs)") auto

declare write_pages.simps [simp del]

definition write_private_user_bytes :: "p4_slot \<Rightarrow> u64 \<Rightarrow> bytes \<Rightarrow> mem \<Rightarrow> (address_space_error + unit) \<times> mem" where
  "write_private_user_bytes slot va bs m =
     write_pages FIRST_USER_ENTRY (s_program_frames slot) (\<lambda>va. private_program_page_index va slot) va bs m"

definition zero_private_user_bytes :: "p4_slot \<Rightarrow> u64 \<Rightarrow> u64 \<Rightarrow> mem \<Rightarrow> (address_space_error + unit) \<times> mem" where
  "zero_private_user_bytes slot va len m = write_private_user_bytes slot va (replicate (unat len) 0) m"

definition write_private_user_stack_bytes ::
    "p4_slot \<Rightarrow> user_memory_layout \<Rightarrow> u64 \<Rightarrow> bytes \<Rightarrow> mem \<Rightarrow> (address_space_error + unit) \<times> mem"
where
  "write_private_user_stack_bytes slot layout va bs m =
     (case stack_slot_index (l_stack_top layout) of
        None \<Rightarrow> (Inl PrivateMappingNotFound, m)
      | Some stack_slot \<Rightarrow>
          write_pages (l_stack_start layout) (s_stack_frames slot ! stack_slot)
            (\<lambda>va. private_stack_page_index va layout) va bs m)"

section \<open>Preparing a program\<close>

definition FIRST_USER_ARG_PATH_ADDR :: u64 where "FIRST_USER_ARG_PATH_ADDR = FIRST_USER_ENTRY + 0x340"
definition FIRST_USER_ARG_LEN_ADDR :: u64 where "FIRST_USER_ARG_LEN_ADDR = FIRST_USER_ENTRY + 0x378"

text \<open>\<^verbatim>\<open>a?; b\<close> on a memory.\<close>

definition seq_mem ::
    "('e + 'a) \<times> mem \<Rightarrow> (mem \<Rightarrow> ('e + 'b) \<times> mem) \<Rightarrow> ('e + 'b) \<times> mem"
where
  "seq_mem r f = (case r of (Inl e, m) \<Rightarrow> (Inl e, m) | (Inr _, m) \<Rightarrow> f m)"

lemma seq_mem_simps [simp]: "seq_mem (Inl e, m) f = (Inl e, m)" "seq_mem (Inr x, m) f = f m"
  by (simp_all add: seq_mem_def)

fun for_each :: "('a \<Rightarrow> mem \<Rightarrow> ('e + unit) \<times> mem) \<Rightarrow> 'a list \<Rightarrow> mem \<Rightarrow> ('e + unit) \<times> mem" where
  "for_each f [] m = (Inr (), m)"
| "for_each f (x # xs) m = seq_mem (f x m) (for_each f xs)"

definition seed_private_user_arg :: "p4_slot \<Rightarrow> bytes \<Rightarrow> mem \<Rightarrow> (address_space_error + unit) \<times> mem" where
  "seed_private_user_arg slot arg m =
     (let arg_len = min (length arg) FIRST_USER_ARG_PATH_LEN; arg = take arg_len arg
      in seq_mem (zero_private_user_bytes slot FIRST_USER_ARG_PATH_ADDR (of_nat FIRST_USER_ARG_PATH_LEN) m) (\<lambda>m.
         seq_mem (write_private_user_bytes slot FIRST_USER_ARG_PATH_ADDR arg m) (\<lambda>m.
           write_private_user_bytes slot FIRST_USER_ARG_LEN_ADDR (u64_le (of_nat arg_len)) m)))"

definition seed_private_initial_stack ::
    "p4_slot \<Rightarrow> user_memory_layout \<Rightarrow> bytes \<Rightarrow> bytes \<Rightarrow> mem \<Rightarrow> (address_space_error + unit) \<times> mem"
where
  "seed_private_initial_stack slot layout program_path arg m =
     (case build_user_initial_stack layout program_path arg of
        Inl _ \<Rightarrow> (Inl PrivateMappingTooSmall, m)
      | Inr st \<Rightarrow> write_private_user_stack_bytes slot layout (is_stack_pointer st) (is_as_bytes st) m)"

definition overlay_segment :: "p4_slot \<Rightarrow> bytes \<Rightarrow> load_segment \<Rightarrow> mem \<Rightarrow> (address_space_error + unit) \<times> mem" where
  "overlay_segment slot img seg m =
     seq_mem (write_private_user_bytes slot (ls_virtual_address seg)
                (slice (unat (ls_file_offset seg)) (unat (ls_file_size seg)) img) m) (\<lambda>m.
       if ls_memory_size seg > ls_file_size seg
       then zero_private_user_bytes slot (ls_virtual_address seg + ls_file_size seg)
              (ls_memory_size seg - ls_file_size seg) m
       else (Inr (), m))"

definition overlay_elf_segments_to_private_frames ::
    "p4_slot \<Rightarrow> bytes \<Rightarrow> mem \<Rightarrow> (address_space_error + unit) \<times> mem"
where
  "overlay_elf_segments_to_private_frames slot img m =
     (case load_segments img 8 of
        Done segs \<Rightarrow> for_each (overlay_segment slot img) segs m
      | _ \<Rightarrow> (Inr (), m))"

definition elf_page_flags :: "u64 \<Rightarrow> load_segment list \<Rightarrow> address_space_error + u64" where
  "elf_page_flags page_start segs =
     (let page_end = saturating_add page_start 4096;
          hits = filter (\<lambda>seg. ls_virtual_address seg < page_end \<and> segment_end seg > page_start) segs;
          writable = list_ex (\<lambda>seg. ls_flags seg AND PF_W \<noteq> 0) hits;
          executable = list_ex (\<lambda>seg. ls_flags seg AND PF_X \<noteq> 0) hits
      in if writable \<and> executable then Inl UserMappingNotAccessible
         else if hits = [] then Inr user_data_page_flags
         else Inr (PRESENT OR USER_ACCESSIBLE OR (if writable then WRITABLE else 0)
                   OR (if \<not> executable then NO_EXECUTE else 0)))"

text \<open>\<^verbatim>\<open>Page::range_inclusive\<close> of the pages of two addresses.\<close>

definition pages_between :: "u64 \<Rightarrow> u64 \<Rightarrow> u64 list" where
  "pages_between a b =
     map (\<lambda>i. page_of a + of_nat (4096 * i)) [0..<(unat (page_of b) + 4096 - unat (page_of a)) div 4096]"

definition protect_private_user_memory ::
    "paging \<Rightarrow> u64 \<Rightarrow> user_memory_layout \<Rightarrow> bytes \<Rightarrow> mem \<Rightarrow> (address_space_error + unit) \<times> mem"
where
  "protect_private_user_memory pg p4 layout img m =
     (let segs = (case load_segments img 8 of Done segs \<Rightarrow> Some segs | _ \<Rightarrow> None);
          protect_page = (\<lambda>page m.
            case (case segs of None \<Rightarrow> Inr user_page_flags | Some segs \<Rightarrow> elf_page_flags page segs) of
              Inl e \<Rightarrow> (Inl e, m)
            | Inr fl \<Rightarrow> set_user_page_flags pg p4 page fl m)
      in seq_mem (for_each protect_page
             (pages_between (l_program_start layout) (saturating_sub (l_program_end layout) 1)) m) (\<lambda>m.
           for_each (\<lambda>page. set_user_page_flags pg p4 page user_data_page_flags)
             (pages_between (l_stack_start layout) (saturating_sub (l_stack_top layout) 1)) m))"

text \<open>\<^verbatim>\<open>virtual\<close> is memory as the active page tables map it: flat images are copied from there.\<close>

definition fill_program_frame :: "bool \<Rightarrow> mem \<Rightarrow> p4_slot \<Rightarrow> nat \<Rightarrow> mem \<Rightarrow> mem" where
  "fill_program_frame is_elf virtual slot i m =
     (if is_elf then zero_frame (s_program_frames slot ! i) m
      else store_bytes (s_program_frames slot ! i)
             (load_bytes virtual (FIRST_USER_ENTRY + of_nat i * 4096) 4096) m)"

definition prepare_process_private_memory ::
    "paging \<Rightarrow> mem \<Rightarrow> u64 \<Rightarrow> user_memory_layout \<Rightarrow> bytes \<Rightarrow> bytes \<Rightarrow> bytes \<Rightarrow> mm \<Rightarrow> (address_space_error + unit) \<times> mm"
where
  "prepare_process_private_memory pg virtual p4_frame layout img program_path arg s =
     (case physical_memory_offset s of
        (Inl e, s) \<Rightarrow> (Inl e, s)
      | (Inr _, s) \<Rightarrow>
     (case pool_find_index p4_frame (mm_pool s) of
        None \<Rightarrow> (Inl PrivateMappingNotFound, s)
      | Some slot_index \<Rightarrow>
          let slot = pool_slots (mm_pool s) ! slot_index;
              program_page_count = pages_for_len (unat (saturating_sub (l_program_end layout) (l_program_start layout)));
              stack_page_count = pages_for_len (unat (saturating_sub (l_stack_top layout) (l_stack_start layout)))
          in if program_page_count > s_program_frame_count slot then (Inl PrivateMappingTooSmall, s)
             else (case stack_slot_index (l_stack_top layout) of
                None \<Rightarrow> (Inl PrivateMappingNotFound, s)
              | Some stack_slot \<Rightarrow>
                  if stack_page_count > PRIVATE_STACK_PAGE_COUNT then (Inl PrivateMappingTooSmall, s)
                  else
                    let is_elf = (case parse_elf64 img of Done _ \<Rightarrow> True | _ \<Rightarrow> False);
                        r = seq_mem (for_each (\<lambda>i. remap_existing_user_page_to_private_frame pg p4_frame
                                 (l_stack_start layout + of_nat i * 4096) (s_stack_frames slot ! stack_slot ! i))
                               [0..<stack_page_count] (mm_mem s)) (\<lambda>m.
                            let m = fold (fill_program_frame is_elf virtual slot) [0..<program_page_count] m;
                                m = fold (\<lambda>i. zero_frame (s_stack_frames slot ! stack_slot ! i)) [0..<stack_page_count] m
                            in seq_mem (overlay_elf_segments_to_private_frames slot img m) (\<lambda>m.
                               seq_mem (seed_private_user_arg slot arg m) (\<lambda>m.
                               seq_mem (seed_private_initial_stack slot layout program_path arg m) (\<lambda>m.
                                 protect_private_user_memory pg p4_frame layout img m))))
                    in (case r of
                          (Inl e, m) \<Rightarrow> (Inl e, s\<lparr>mm_mem := m\<rparr>)
                        | (Inr _, m) \<Rightarrow>
                            (Inr (), s\<lparr>mm_mem := m,
                               mm_pool := pool_modify (\<lambda>s. s_p4_frame s = p4_frame)
                                 (\<lambda>s. s\<lparr>s_stack_in_use := (s_stack_in_use s)[stack_slot := True]\<rparr>) (mm_pool s)\<rparr>)))))"

section \<open>Switching level-4 tables\<close>

definition record_kernel_p4_frame :: "u64 \<Rightarrow> mm \<Rightarrow> u64 \<times> mm" where
  "record_kernel_p4_frame cr3 s = (cr3, s\<lparr>mm_kernel_p4 := Some cr3\<rparr>)"

text \<open>
  Writing the register loads the frame that contains the address; the result is the new active table.
\<close>

definition switch_to_p4_frame :: "u64 \<Rightarrow> u64 \<Rightarrow> (address_space_error + u64) \<times> u64" where
  "switch_to_p4_frame frame cr3 =
     (let switched = page_of frame in if switched \<noteq> frame then (Inl SwitchVerificationFailed, cr3) else (Inr switched, switched))"

definition smoke_switch_to_p4_frame :: "u64 \<Rightarrow> u64 \<Rightarrow> (address_space_error + u64) \<times> u64" where
  "smoke_switch_to_p4_frame prepared_frame cr3 =
     (if page_of prepared_frame \<noteq> prepared_frame then (Inl SwitchVerificationFailed, cr3) else (Inr prepared_frame, cr3))"

definition restore_kernel_p4 :: "mm \<Rightarrow> u64 \<Rightarrow> (address_space_error + u64) \<times> u64" where
  "restore_kernel_p4 s cr3 =
     (case mm_kernel_p4 s of None \<Rightarrow> (Inl NoKernelP4, cr3) | Some frame \<Rightarrow> switch_to_p4_frame frame cr3)"

definition ensure_pages_writable ::
    "paging \<Rightarrow> u64 \<Rightarrow> u64 list \<Rightarrow> mm \<Rightarrow> (address_space_error + unit) \<times> mm"
where
  "ensure_pages_writable pg cr3 pages s =
     (case physical_memory_offset s of
        (Inl e, s) \<Rightarrow> (Inl e, s)
      | (Inr _, s) \<Rightarrow>
          (let (r, m) = for_each (ensure_user_page_writable pg cr3) pages (mm_mem s) in (r, s\<lparr>mm_mem := m\<rparr>)))"

definition ensure_active_user_program_mapping_writable ::
    "paging \<Rightarrow> u64 \<Rightarrow> u64 \<Rightarrow> mm \<Rightarrow> (address_space_error + unit) \<times> mm"
where
  "ensure_active_user_program_mapping_writable pg cr3 size_bytes s =
     (if size_bytes = 0 then (Inr (), s)
      else ensure_pages_writable pg cr3
             (pages_between FIRST_USER_ENTRY (FIRST_USER_ENTRY + min size_bytes USER_PROGRAM_AREA_SIZE - 1)) s)"

definition ensure_active_user_stack_mapping_writable ::
    "paging \<Rightarrow> u64 \<Rightarrow> u64 \<Rightarrow> u64 \<Rightarrow> mm \<Rightarrow> (address_space_error + unit) \<times> mm"
where
  "ensure_active_user_stack_mapping_writable pg cr3 stack_start stack_top s =
     (if stack_top \<le> stack_start then (Inr (), s)
      else ensure_pages_writable pg cr3 (pages_between stack_start (stack_top - 1)) s)"

section \<open>No page is writable and executable\<close>

definition wx_ok :: "u64 \<Rightarrow> bool" where
  "wx_ok fl \<longleftrightarrow> flag_bits fl \<and> flags_contain fl PRESENT \<and> flags_contain fl USER_ACCESSIBLE \<and> \<not> flags_contain fl HUGE_PAGE \<and>
     (\<not> flags_contain fl WRITABLE \<or> flags_contain fl NO_EXECUTE)"

definition segment_hits :: "u64 \<Rightarrow> load_segment \<Rightarrow> bool" where
  "segment_hits page seg \<longleftrightarrow> ls_virtual_address seg < saturating_add page 4096 \<and> page < segment_end seg"

lemma user_flag_words:
  "user_data_page_flags = 0x8000000000000007" "user_page_flags = 7" "user_code_page_flags = 5"
  by (simp_all add: user_data_page_flags_def user_page_flags_def user_code_page_flags_def)

lemma flag_words_or:
  "PRESENT OR USER_ACCESSIBLE OR (if w then WRITABLE else 0) OR (if \<not> x then NO_EXECUTE else 0) =
     (if w then if x then 7 else 0x8000000000000007 else if x then 5 else 0x8000000000000005)"
  by simp

lemma wx_ok_words: "wx_ok 0x8000000000000007" "wx_ok 0x8000000000000005" "wx_ok 5"
  by (simp_all add: wx_ok_def flag_bits_def flags_contain_def ADDR_MASK_def mask_numeral)

text \<open>
  The permissions of a page of an ELF program are those of the segments on it, and no page is both
  writable and executable.  \<^verbatim>\<open>elf_page_flags\<close> refuses just the pages that hold a part of a writable and a
  part of an executable segment; every other page is present and open to user mode, executable only if
  an executable segment reaches it, and writable if a writable segment does or no segment does.
\<close>

theorem elf_page_flags_exact:
  "case elf_page_flags page segs of
     Inl e \<Rightarrow> e = UserMappingNotAccessible \<and>
       list_ex (\<lambda>seg. segment_hits page seg \<and> ls_flags seg AND PF_W \<noteq> 0) segs \<and>
       list_ex (\<lambda>seg. segment_hits page seg \<and> ls_flags seg AND PF_X \<noteq> 0) segs
   | Inr fl \<Rightarrow> flags_contain fl PRESENT \<and> flags_contain fl USER_ACCESSIBLE \<and>
       (flags_contain fl WRITABLE \<longleftrightarrow>
          list_ex (\<lambda>seg. segment_hits page seg \<and> ls_flags seg AND PF_W \<noteq> 0) segs \<or> filter (segment_hits page) segs = []) \<and>
       (flags_contain fl NO_EXECUTE \<longleftrightarrow>
          list_all (\<lambda>seg. \<not> (segment_hits page seg \<and> ls_flags seg AND PF_X \<noteq> 0)) segs) \<and>
       \<not> (flags_contain fl WRITABLE \<and> \<not> flags_contain fl NO_EXECUTE)"
proof -
  define W where "W = list_ex (\<lambda>seg. segment_hits page seg \<and> ls_flags seg AND PF_W \<noteq> 0) segs"
  define X where "X = list_ex (\<lambda>seg. segment_hits page seg \<and> ls_flags seg AND PF_X \<noteq> 0) segs"
  have hits: "filter (\<lambda>seg. ls_virtual_address seg < saturating_add page 4096 \<and> segment_end seg > page) segs =
      filter (segment_hits page) segs"
    by (simp add: segment_hits_def[abs_def])
  have W: "list_ex (\<lambda>seg. ls_flags seg AND PF_W \<noteq> 0) (filter (segment_hits page) segs) = W"
    and X: "list_ex (\<lambda>seg. ls_flags seg AND PF_X \<noteq> 0) (filter (segment_hits page) segs) = X"
    by (auto simp: W_def X_def list_ex_iff)
  have nX: "list_all (\<lambda>seg. \<not> (segment_hits page seg \<and> ls_flags seg AND PF_X \<noteq> 0)) segs = (\<not> X)"
    by (auto simp: X_def list_all_iff list_ex_iff)
  have none: "\<not> W \<and> \<not> X" if "filter (segment_hits page) segs = []"
    using that W X by auto
  have "elf_page_flags page segs =
    (if W \<and> X then Inl UserMappingNotAccessible
     else if filter (segment_hits page) segs = [] then Inr 0x8000000000000007
     else Inr (if W then if X then 7 else 0x8000000000000007 else if X then 5 else 0x8000000000000005))"
    unfolding elf_page_flags_def Let_def hits W X flag_words_or user_flag_words by simp
  then show ?thesis
    unfolding W_def[symmetric] X_def[symmetric] nX using none
    by (cases W; cases X; cases "filter (segment_hits page) segs = []") (simp_all add: flags_contain_def)
qed

lemma elf_page_flags_wx: "elf_page_flags page segs = Inr fl \<Longrightarrow> wx_ok fl"
  unfolding elf_page_flags_def Let_def flag_words_or user_flag_words
  by (auto simp: wx_ok_words split: if_splits)

lemma leaf_table_Inr:
  "leaf_table pg m p4 va = Inr p1 \<longleftrightarrow>
     (\<exists>p3 p2. pg_frame pg (entry_at m p4 (pg_index pg 4 va)) = FrameAt p3 \<and>
        pg_frame pg (entry_at m p3 (pg_index pg 3 va)) = FrameAt p2 \<and>
        pg_frame pg (entry_at m p2 (pg_index pg 2 va)) = FrameAt p1)"
  by (auto simp: leaf_table_def child_table_frame_def split: frame_result.splits)

text \<open>A walk reaches the entry of a page, and the entry is not both writable and executable.\<close>

definition page_wx :: "paging \<Rightarrow> u64 \<Rightarrow> u64 \<Rightarrow> mem \<Rightarrow> bool" where
  "page_wx pg p4 va m \<longleftrightarrow>
     (case leaf_table pg m p4 va of Inl _ \<Rightarrow> False | Inr p1 \<Rightarrow> wx_ok (pg_flags pg (entry_at m p1 (pg_index pg 1 va))))"

lemma page_wx_iff:
  "page_wx pg p4 va m \<longleftrightarrow> (\<exists>p1. leaf_table pg m p4 va = Inr p1 \<and> wx_ok (pg_flags pg (entry_at m p1 (pg_index pg 1 va))))"
  by (simp add: page_wx_def sum_case_False)

context paging_spec
begin

lemma leaf_table_frame: "leaf_table pg m p4 va = Inr p1 \<Longrightarrow> frame_addr p1"
  by (auto simp: leaf_table_Inr dest: frame_is_frame)

lemma page_wx_page: "page_wx pg p4 (page_of va) m = page_wx pg p4 va m"
proof -
  have i: "pg_index pg 4 (page_of va) = pg_index pg 4 va" "pg_index pg 3 (page_of va) = pg_index pg 3 va"
    "pg_index pg 2 (page_of va) = pg_index pg 2 va" "pg_index pg 1 (page_of va) = pg_index pg 1 va"
    by (simp_all add: index_page)
  show ?thesis unfolding page_wx_def leaf_table_def i ..
qed

lemma set_flags_entry:
  assumes "set_user_page_flags pg p4 va fl m = (Inr (), m')" "frame_addr t" "j < 512"
  shows "entry_at m' t j = entry_at m t j \<or> entry_at m' t j = pg_with_flags pg (entry_at m t j) fl"
proof -
  obtain p1 where p1: "leaf_table pg m p4 va = Inr p1"
    and m': "m' = set_entry p1 (pg_index pg 1 va) (pg_with_flags pg (entry_at m p1 (pg_index pg 1 va)) fl) m"
    using assms(1) by (auto simp: set_user_page_flags_def Let_def split: sum.splits)
  show ?thesis unfolding m' entry_set_entry[OF leaf_table_frame[OF p1] assms(2) index_less assms(3)] by auto
qed

lemma set_flags_frame:
  assumes "set_user_page_flags pg p4 va fl m = (Inr (), m')" "wx_ok fl" "frame_addr t" "pg_frame pg (entry_at m t (pg_index pg l q)) = FrameAt f"
  shows "pg_frame pg (entry_at m' t (pg_index pg l q)) = FrameAt f"
  using set_flags_entry[OF assms(1,3) index_less, of l q] assms(2,4) with_flags_frame[OF assms(4), of fl]
  by (auto simp: wx_ok_def)

lemma set_flags_leaf:
  assumes "set_user_page_flags pg p4 va fl m = (Inr (), m')" "wx_ok fl" "frame_addr p4" "leaf_table pg m p4 q = Inr p1"
  shows "leaf_table pg m' p4 q = Inr p1"
proof -
  obtain p3 p2 where p: "pg_frame pg (entry_at m p4 (pg_index pg 4 q)) = FrameAt p3"
      "pg_frame pg (entry_at m p3 (pg_index pg 3 q)) = FrameAt p2" "pg_frame pg (entry_at m p2 (pg_index pg 2 q)) = FrameAt p1"
    using assms(4) by (auto simp: leaf_table_Inr)
  note s = set_flags_frame[OF assms(1,2)]
  show ?thesis
    unfolding leaf_table_Inr
    using s[OF assms(3) p(1)] s[OF frame_is_frame[OF p(1)] p(2)] s[OF frame_is_frame[OF p(2)] p(3)] by blast
qed

lemma set_flags_wx:
  assumes "set_user_page_flags pg p4 va fl m = (Inr (), m')" "wx_ok fl" "frame_addr p4"
  shows "page_wx pg p4 va m'" "page_wx pg p4 q m \<Longrightarrow> page_wx pg p4 q m'"
proof -
  obtain p1 where p1: "leaf_table pg m p4 va = Inr p1"
    and m': "m' = set_entry p1 (pg_index pg 1 va) (pg_with_flags pg (entry_at m p1 (pg_index pg 1 va)) fl) m"
    using assms(1) by (auto simp: set_user_page_flags_def Let_def split: sum.splits)
  have "entry_at m' p1 (pg_index pg 1 va) = pg_with_flags pg (entry_at m p1 (pg_index pg 1 va)) fl"
    unfolding m' entry_set_entry[OF leaf_table_frame[OF p1] leaf_table_frame[OF p1] index_less index_less] by simp
  then show "page_wx pg p4 va m'"
    using set_flags_leaf[OF assms p1] assms(2) with_flags_flags[of fl] by (simp add: page_wx_def wx_ok_def)
  assume "page_wx pg p4 q m"
  then obtain t where t: "leaf_table pg m p4 q = Inr t" "wx_ok (pg_flags pg (entry_at m t (pg_index pg 1 q)))"
    by (auto simp: page_wx_iff)
  then show "page_wx pg p4 q m'"
    using set_flags_leaf[OF assms t(1)] set_flags_entry[OF assms(1) leaf_table_frame[OF t(1)] index_less, of 1 q] assms(2)
      with_flags_flags[of fl]
    by (auto simp: page_wx_iff wx_ok_def)
qed

end

lemma for_each_all:
  assumes "for_each f xs m = (Inr (), m')"
    and "\<And>x m m'. x \<in> set xs \<Longrightarrow> f x m = (Inr (), m') \<Longrightarrow> Q x m'"
    and "\<And>x y m m'. x \<in> set xs \<Longrightarrow> f x m = (Inr (), m') \<Longrightarrow> Q y m \<Longrightarrow> Q y m'"
  shows "(\<forall>x\<in>set xs. Q x m') \<and> (\<forall>y. Q y m \<longrightarrow> Q y m')"
  using assms
proof (induction xs arbitrary: m)
  case (Cons x xs)
  obtain m1 where m1: "f x m = (Inr (), m1)" "for_each f xs m1 = (Inr (), m')"
    using Cons.prems(1) by (cases "f x m"; cases "fst (f x m)") auto
  have ih: "(\<forall>x\<in>set xs. Q x m') \<and> (\<forall>y. Q y m1 \<longrightarrow> Q y m')"
    using Cons.IH[OF m1(2)] Cons.prems(2,3) by (meson list.set_intros(2))
  have "Q x m1" "Q y m \<longrightarrow> Q y m1" for y
    using Cons.prems(2)[OF _ m1(1)] Cons.prems(3)[OF _ m1(1), of y] by simp_all
  then show ?case using ih by simp
qed simp

lemma pages_between_cover:
  assumes "a \<le> va" "va \<le> b"
  shows "page_of va \<in> set (pages_between a b)"
proof -
  have le: "unat (page_of a) \<le> unat (page_of va)" "unat (page_of va) \<le> unat (page_of b)"
    using assms unfolding unat_page_of word_le_nat_alt minus_mod_eq_mult_div by (simp_all add: div_le_mono)
  define i where "i = (unat (page_of va) - unat (page_of a)) div 4096"
  have "(unat (page_of va) - unat (page_of a)) mod 4096 = 0"
    using page_of_aligned[of va] page_of_aligned[of a] by (metis dvd_diff_nat mod_eq_0_iff_dvd)
  then have i: "unat (page_of va) = unat (page_of a) + 4096 * i"
    using le(1) mult_div_mod_eq[of 4096 "unat (page_of va) - unat (page_of a)"] by (simp add: i_def)
  then have "of_nat (unat (page_of va)) = (of_nat (unat (page_of a) + 4096 * i) :: u64)" by simp
  then have "page_of va = page_of a + of_nat (4096 * i)" by simp
  moreover have "4096 * Suc i \<le> unat (page_of b) + 4096 - unat (page_of a)" using le i by simp
  then have "i < (unat (page_of b) + 4096 - unat (page_of a)) div 4096"
    by (simp add: less_eq_div_iff_mult_less_eq Suc_le_eq[symmetric] mult.commute)
  ultimately show ?thesis by (auto simp: pages_between_def)
qed

lemma saturating_sub_below: "a < b \<Longrightarrow> a \<le> saturating_sub b 1" for a b :: u64
  by (simp add: saturating_sub_def word_le_nat_alt word_less_nat_alt unat_sub)


definition example_layout :: user_memory_layout where
  "example_layout = \<lparr>l_program_start = 0x1000000, l_program_end = 0x1001000, l_stack_start = 0x1001000, l_stack_top = 0x1002000\<rparr>"

definition protected_tables :: mem where
  "protected_tables = set_entry 0x4000 1 0x8000000000000007 (set_entry 0x4000 0 0x5005 example_tables)"

lemma example_frames: "frame_addr 0x1000" "frame_addr 0x2000" "frame_addr 0x3000" "frame_addr 0x4000"
  by (simp_all add: frame_addr_def ADDR_MASK_def mask_numeral)

lemma example_entry_unset: "entry_at example_tables 0x4000 1 = 0"
proof -
  have "load64 (\<lambda>_. 0) a = 0" for a by (simp add: load64_def load_bytes_def u64_of_le_def upt_conv_Cons)
  then show ?thesis
    by (simp add: entry_at_def example_tables_def set_entry_def table_slot_def load64_store64_apart apart_def)
qed

lemma example_leaf:
  assumes "entry_at m 0x1000 0 = 0x2007" "entry_at m 0x2000 0 = 0x3007" "entry_at m 0x3000 8 = 0x4007"
  shows "leaf_table x86_paging m 0x1000 0x1000000 = Inr 0x4000" "leaf_table x86_paging m 0x1000 0x1001000 = Inr 0x4000"
  using assms by (simp_all add: leaf_table_def child_table_frame_def x86_paging_def flags_contain_def ADDR_MASK_def
      mask_numeral take_bit_eq_mod)

lemma example_protect:
  "protect_private_user_memory x86_paging 0x1000 example_layout example_elf example_tables = (Inr (), protected_tables)"
proof -
  have fl: "elf_page_flags 0x1000000 [example_segment] = Inr 5"
    by (simp add: elf_page_flags_def example_segment_def segment_end_def saturating_add_def PF_W_def PF_X_def)
  have pb: "pages_between 0x1000000 0x1000FFF = [0x1000000]" "pages_between 0x1001000 0x1001FFF = [0x1001000]"
    by (simp_all add: pages_between_def page_of_def mask_numeral)
  have i: "pg_index x86_paging (Suc 0) 0x1000000 = 0" "pg_index x86_paging (Suc 0) 0x1001000 = 1"
    by (simp_all add: x86_paging_def take_bit_eq_mod)
  have w: "pg_with_flags x86_paging 0x5007 5 = 0x5005" "pg_with_flags x86_paging 0 0x8000000000000007 = 0x8000000000000007"
    by (simp_all add: x86_paging_def ADDR_MASK_def mask_numeral)
  have e: "entry_at (set_entry 0x4000 0 v example_tables) 0x1000 0 = 0x2007" "entry_at (set_entry 0x4000 0 v example_tables) 0x2000 0 = 0x3007"
    "entry_at (set_entry 0x4000 0 v example_tables) 0x3000 8 = 0x4007" "entry_at (set_entry 0x4000 0 v example_tables) 0x4000 (Suc 0) = 0" for v
    using example_entries example_entry_unset by (simp_all add: entry_set_entry example_frames)
  show ?thesis
    unfolding protect_private_user_memory_def Let_def example_elf_segments
    by (simp add: example_layout_def saturating_sub_def pb fl set_user_page_flags_def example_leaf example_entries e i w
        user_flag_words protected_tables_def)
qed


section \<open>Writing through private frames\<close>

text \<open>Where the byte at offset \<open>d\<close> of an area with the given frames lies in physical memory.\<close>

definition frame_byte :: "u64 list \<Rightarrow> nat \<Rightarrow> u64" where
  "frame_byte frames d = frames ! (d div 4096) + of_nat (d mod 4096)"

definition frames_ok :: "u64 list \<Rightarrow> bool" where
  "frames_ok frames \<longleftrightarrow> distinct frames \<and> list_all (\<lambda>f. unat f mod 4096 = 0) frames \<and> 4096 * length frames < 2 ^ 64"

lemma unat_aligned_plus:
  assumes "unat f mod 4096 = 0" "k < 4096"
  shows "unat (f + of_nat k :: u64) = unat f + k"
  using aligned_bound[OF assms(1)] assms(2) by (simp add: unat_word_ariths unat_of_nat)

lemma frame_byte_inject:
  assumes "frames_ok frames" "d < 4096 * length frames" "e < 4096 * length frames"
  shows "frame_byte frames d = frame_byte frames e \<longleftrightarrow> d = e"
proof
  assume eq: "frame_byte frames d = frame_byte frames e"
  have i: "d div 4096 < length frames" "e div 4096 < length frames"
    using assms(2,3) by (simp_all add: div_less_iff_less_mult mult.commute)
  have al: "unat (frames ! (d div 4096)) mod 4096 = 0" "unat (frames ! (e div 4096)) mod 4096 = 0"
    using assms(1) i by (simp_all add: frames_ok_def list_all_length)
  have u: "unat (frames ! (d div 4096)) + d mod 4096 = unat (frames ! (e div 4096)) + e mod 4096"
    using eq unat_aligned_plus[OF al(1), of "d mod 4096"] unat_aligned_plus[OF al(2), of "e mod 4096"]
    by (simp add: frame_byte_def)
  have "(unat (frames ! (d div 4096)) + d mod 4096) mod 4096 = d mod 4096"
    "(unat (frames ! (e div 4096)) + e mod 4096) mod 4096 = e mod 4096"
    using al by (simp_all add: mod_add_eq[symmetric])
  then have m: "d mod 4096 = e mod 4096" using u by simp
  then have "frames ! (d div 4096) = frames ! (e div 4096)" using u by (simp add: word_unat_eq_iff)
  then have "d div 4096 = e div 4096" using assms(1) i by (simp add: frames_ok_def nth_eq_iff_index_eq)
  with m show "d = e" by (metis div_mult_mod_eq)
qed simp

lemma unat_offset_plus:
  fixes a s :: u64
  assumes "unat (a - s) + c < 2 ^ 64"
  shows "unat (a + of_nat c - s) = unat (a - s) + c"
proof -
  have e: "a + of_nat c - s = (a - s) + of_nat c" by simp
  have "unat (of_nat c :: u64) = c" using assms by (simp add: unat_of_nat)
  then show ?thesis unfolding e unat_word_ariths(1) using assms by simp
qed

text \<open>One chunk inside a page.\<close>

lemma store_chunk:
  assumes "frames_ok frames" "d div 4096 < length frames" "length bs \<le> 4096 - d mod 4096"
  shows "(\<forall>k<length bs. store_bytes (frames ! (d div 4096) + of_nat (d mod 4096)) bs m (frame_byte frames (d + k)) = bs ! k)"
    "(\<forall>x. (\<forall>k<length bs. x \<noteq> frame_byte frames (d + k)) \<longrightarrow>
        store_bytes (frames ! (d div 4096) + of_nat (d mod 4096)) bs m x = m x)"
proof -
  let ?a = "frames ! (d div 4096) + of_nat (d mod 4096) :: u64"
  have "d mod 4096 < 4096" by simp
  then have fb: "frame_byte frames (d + k) = ?a + of_nat k" if "k < length bs" for k
  proof -
    have "d mod 4096 + k < 4096" using that assms(3) \<open>d mod 4096 < 4096\<close> by linarith
    then have "(4096 * q + (d mod 4096 + k)) div 4096 = q" "(4096 * q + (d mod 4096 + k)) mod 4096 = d mod 4096 + k" for q
      by simp_all
    moreover have "4096 * (d div 4096) + (d mod 4096 + k) = d + k" by simp
    ultimately have "(d + k) div 4096 = d div 4096" "(d + k) mod 4096 = d mod 4096 + k"
      by metis+
    then show ?thesis by (simp add: frame_byte_def)
  qed
  have lt: "k < 2 ^ 64" if "k < length bs" for k using that assms(3) by simp
  show "\<forall>k<length bs. store_bytes ?a bs m (frame_byte frames (d + k)) = bs ! k"
    using fb lt by (simp add: store_bytes_def unat_of_nat)
  show "\<forall>x. (\<forall>k<length bs. x \<noteq> frame_byte frames (d + k)) \<longrightarrow> store_bytes ?a bs m x = m x"
  proof (intro allI impI)
    fix x assume x: "\<forall>k<length bs. x \<noteq> frame_byte frames (d + k)"
    have "x = ?a + of_nat (unat (x - ?a))" by simp
    then have "\<not> unat (x - ?a) < length bs" using x fb by metis
    then show "store_bytes ?a bs m x = m x" by (simp add: store_bytes_def)
  qed
qed

definition index_of_area :: "u64 \<Rightarrow> u64 list \<Rightarrow> (u64 \<Rightarrow> address_space_error + nat) \<Rightarrow> bool" where
  "index_of_area start frames page_index \<longleftrightarrow>
     (\<forall>a i. page_index a = Inr i \<longrightarrow> i = unat (a - start) div 4096 \<and> i < length frames)"

lemma write_pages_exact:
  assumes "write_pages start frames page_index va bs m = (Inr (), m')"
    and "frames_ok frames" "index_of_area start frames page_index"
  shows "(bs \<noteq> [] \<longrightarrow> unat (va - start) + length bs \<le> 4096 * length frames) \<and>
    (\<forall>k<length bs. m' (frame_byte frames (unat (va - start) + k)) = bs ! k) \<and>
    (\<forall>x. (\<forall>k<length bs. x \<noteq> frame_byte frames (unat (va - start) + k)) \<longrightarrow> m' x = m x)"
  using assms
proof (induction start frames page_index va bs m rule: write_pages.induct)
  case (1 start frames page_index va bs m)
  let ?at = "frame_byte frames"
  show ?case
  proof (cases "bs = []")
    case True
    then show ?thesis using "1.prems"(1) by (simp add: write_pages.simps)
  next
    case False
    define d where "d = unat (va - start)"
    define c where "c = min (length bs) (4096 - d mod 4096)"
    define m1 where "m1 = store_bytes (frames ! (d div 4096) + of_nat (d mod 4096)) (take c bs) m"
    obtain i where pi: "page_index va = Inr i" using "1.prems"(1) False
      by (subst (asm) write_pages.simps) (auto split: sum.splits)
    then have i: "i = d div 4096" "d div 4096 < length frames"
      using "1.prems"(3) unfolding index_of_area_def d_def by blast+
    have rec: "write_pages start frames page_index (va + of_nat c) (drop c bs) m1 = (Inr (), m')"
      using "1.prems"(1) False pi by (subst (asm) write_pages.simps) (simp add: d_def c_def m1_def i Let_def)
    have "d mod 4096 < 4096" by simp
    then have c: "0 < c" "c \<le> length bs" "c \<le> 4096 - d mod 4096" using False by (simp_all add: c_def)
    have "4096 * (d div 4096) + 4096 \<le> 4096 * length frames" using i(2) by simp
    then have dc: "d + c \<le> 4096 * length frames"
      using c(3) \<open>d mod 4096 < 4096\<close> mult_div_mod_eq[of 4096 d] by linarith
    then have "d + c < 2 ^ 64" using "1.prems"(2) by (simp add: frames_ok_def)
    then have off: "unat (va + of_nat c - start) = d + c"
      unfolding d_def by (rule unat_offset_plus)
    have ih: "(drop c bs \<noteq> [] \<longrightarrow> d + c + (length bs - c) \<le> 4096 * length frames) \<and>
        (\<forall>k<length bs - c. m' (?at (d + c + k)) = bs ! (c + k)) \<and>
        (\<forall>x. (\<forall>k<length bs - c. x \<noteq> ?at (d + c + k)) \<longrightarrow> m' x = m1 x)"
      using "1.IH"[OF False pi refl refl, folded d_def i(1), folded c_def, OF _ "1.prems"(2,3)] rec off c(2)
      by (simp add: m1_def i(1))
    have lenc: "length (take c bs) = c" using c(2) by simp
    note ch = store_chunk[OF "1.prems"(2) i(2), of "take c bs" m, folded m1_def, unfolded lenc, OF c(3)]
    have total: "d + length bs \<le> 4096 * length frames" using ih dc c(2) by (cases "drop c bs = []") auto
    have "m' (?at (d + k)) = bs ! k" if k: "k < length bs" for k
    proof (cases "k < c")
      case True
      have "?at (d + k) \<noteq> ?at (d + c + k')" if "k' < length bs - c" for k'
        using frame_byte_inject[OF "1.prems"(2), of "d + k" "d + c + k'"] total k that True by simp
      then show ?thesis using ih ch(1) True by simp
    next
      case False
      then have "k - c < length bs - c" using k by simp
      then have "m' (?at (d + c + (k - c))) = bs ! (c + (k - c))" using ih by blast
      then show ?thesis using False by simp
    qed
    moreover have "m' x = m x" if x: "\<forall>k<length bs. x \<noteq> ?at (d + k)" for x
    proof -
      have "x \<noteq> ?at (d + c + k)" if "k < length bs - c" for k
        using x[rule_format, of "c + k"] that by (simp add: add.assoc)
      then have "m' x = m1 x" using ih by blast
      then show ?thesis using ch(2) x c(2) by simp
    qed
    ultimately show ?thesis unfolding d_def[symmetric] using total by simp
  qed
qed

lemma write_pages_total:
  assumes "\<And>k. k < length bs \<Longrightarrow> \<exists>i. page_index (va + of_nat k) = Inr i"
  shows "fst (write_pages start frames page_index va bs m) = Inr ()"
  using assms
proof (induction start frames page_index va bs m rule: write_pages.induct)
  case (1 start frames page_index va bs m)
  show ?case
  proof (cases "bs = []")
    case False
    define c where "c = min (length bs) (4096 - unat (va - start) mod 4096)"
    obtain i where pi: "page_index va = Inr i" using "1.prems"[of 0] False by auto
    have "\<exists>i. page_index (va + of_nat c + of_nat k) = Inr i" if "k < length (drop c bs)" for k
      using "1.prems"[of "c + k"] that by (simp add: add.assoc)
    from "1.IH"[OF False pi refl refl, folded c_def, OF this]
    show ?thesis using False pi by (subst write_pages.simps) (simp add: c_def Let_def)
  qed (simp add: write_pages.simps)
qed

lemma write_pages_take:
  assumes "\<And>a i. page_index a = Inr i \<Longrightarrow> i < n"
  shows "write_pages start frames page_index va bs m = write_pages start (take n frames) page_index va bs m"
  using assms
proof (induction start frames page_index va bs m rule: write_pages.induct)
  case (1 start frames page_index va bs m)
  show ?case
  proof (cases "bs = [] \<or> (\<exists>e. page_index va = Inl e)")
    case True
    then show ?thesis by (subst (1 2) write_pages.simps) auto
  next
    case False
    then obtain i where i: "page_index va = Inr i" "bs \<noteq> []" by (cases "page_index va") auto
    then show ?thesis
      using "1.IH"[OF i(2,1) refl refl "1.prems"] "1.prems"[OF i(1)]
      by (subst (1 2) write_pages.simps) (simp add: Let_def)
  qed
qed

definition slot_frames_ok :: "p4_slot \<Rightarrow> bool" where
  "slot_frames_ok slot \<longleftrightarrow> s_program_frame_count slot \<le> MAX_PRIVATE_PROGRAM_PAGE_COUNT \<and>
     s_program_frame_count slot \<le> length (s_program_frames slot) \<and>
     frames_ok (take (s_program_frame_count slot) (s_program_frames slot))"

lemma program_page_index_Inr:
  "private_program_page_index va slot = Inr i \<longleftrightarrow>
     FIRST_USER_ENTRY \<le> va \<and> i = unat (va - FIRST_USER_ENTRY) div 4096 \<and> i < s_program_frame_count slot"
  by (auto simp: private_program_page_index_def Let_def unat_div not_less)

lemma program_range_index:
  assumes "FIRST_USER_ENTRY \<le> va" "unat (va - FIRST_USER_ENTRY) + k < 4096 * s_program_frame_count slot"
    "s_program_frame_count slot \<le> MAX_PRIVATE_PROGRAM_PAGE_COUNT"
  shows "\<exists>i. private_program_page_index (va + of_nat k) slot = Inr i"
proof -
  have lt: "unat (va - FIRST_USER_ENTRY) + k < 4096 * 64"
    using assms(2,3) by (simp add: MAX_PRIVATE_PROGRAM_PAGE_COUNT_def)
  then have off: "unat (va + of_nat k - FIRST_USER_ENTRY) = unat (va - FIRST_USER_ENTRY) + k"
    by (intro unat_offset_plus) simp
  have "unat va = unat (va - FIRST_USER_ENTRY) + unat FIRST_USER_ENTRY"
    using assms(1) by (simp add: unat_sub word_le_nat_alt)
  then have "unat va + k < 2 ^ 64" using lt by (simp add: layout_consts)
  then have "FIRST_USER_ENTRY \<le> va + of_nat k"
    using assms(1) by (simp add: word_le_nat_alt unat_word_ariths unat_of_nat)
  then show ?thesis
    unfolding program_page_index_Inr off using assms(2) by (simp add: div_less_iff_less_mult mult.commute)
qed

text \<open>
  C36: writing program memory through the private frames.  \<^verbatim>\<open>write_private_user_bytes\<close> succeeds just when
  the range lies in the pages of the slot; then every byte of the range is in the frame of its page, and
  no other byte of physical memory has changed, although the frames need not be adjacent.
\<close>

theorem write_private_user_bytes_exact:
  assumes "slot_frames_ok slot" "bs \<noteq> []" "write_private_user_bytes slot va bs m = (r, m')"
  shows "(r = Inr () \<longleftrightarrow>
      FIRST_USER_ENTRY \<le> va \<and> unat (va - FIRST_USER_ENTRY) + length bs \<le> 4096 * s_program_frame_count slot) \<and>
    (r = Inr () \<longrightarrow>
      (\<forall>k<length bs. m' (frame_byte (s_program_frames slot) (unat (va - FIRST_USER_ENTRY) + k)) = bs ! k) \<and>
      (\<forall>x. (\<forall>k<length bs. x \<noteq> frame_byte (s_program_frames slot) (unat (va - FIRST_USER_ENTRY) + k)) \<longrightarrow> m' x = m x))"
proof -
  let ?n = "s_program_frame_count slot" and ?d = "unat (va - FIRST_USER_ENTRY)"
  let ?fs = "take ?n (s_program_frames slot)"
  have len: "length ?fs = ?n" and n: "?n \<le> MAX_PRIVATE_PROGRAM_PAGE_COUNT" and ok: "frames_ok ?fs"
    using assms(1) by (simp_all add: slot_frames_ok_def)
  have w: "write_pages FIRST_USER_ENTRY ?fs (\<lambda>va. private_program_page_index va slot) va bs m = (r, m')"
    using assms(3) write_pages_take[of "\<lambda>va. private_program_page_index va slot" ?n FIRST_USER_ENTRY "s_program_frames slot" va bs m]
    by (simp add: write_private_user_bytes_def program_page_index_Inr)
  have area: "index_of_area FIRST_USER_ENTRY ?fs (\<lambda>va. private_program_page_index va slot)"
    by (simp only: index_of_area_def program_page_index_Inr len) blast
  have start: "FIRST_USER_ENTRY \<le> va" if "r = Inr ()"
    using w assms(2) that by (subst (asm) write_pages.simps) (auto simp: program_page_index_Inr split: sum.splits)
  have exact: "?d + length bs \<le> 4096 * ?n \<and> (\<forall>k<length bs. m' (frame_byte ?fs (?d + k)) = bs ! k) \<and>
      (\<forall>x. (\<forall>k<length bs. x \<noteq> frame_byte ?fs (?d + k)) \<longrightarrow> m' x = m x)" if "r = Inr ()"
    using write_pages_exact[OF w[unfolded that] ok area] assms(2) len by simp
  have "frame_byte ?fs (?d + k) = frame_byte (s_program_frames slot) (?d + k)" if "?d + length bs \<le> 4096 * ?n" "k < length bs" for k
    using that by (simp add: frame_byte_def div_less_iff_less_mult mult.commute)
  moreover have "r = Inr ()" if "FIRST_USER_ENTRY \<le> va" "?d + length bs \<le> 4096 * ?n"
    using write_pages_total[of bs "\<lambda>va. private_program_page_index va slot" va FIRST_USER_ENTRY ?fs m]
      program_range_index[OF that(1) _ n] that(2) w by simp
  ultimately show ?thesis using start exact by auto
qed

definition two_frame_slot :: p4_slot where
  "two_frame_slot = p4_slot_EMPTY\<lparr>s_p4_frame := 0x1000, s_program_frames := [0x9000, 0x7000], s_program_frame_count := 2\<rparr>"

theorem write_private_user_bytes_exact_witness:
  "slot_frames_ok two_frame_slot \<and> snd (write_private_user_bytes two_frame_slot 0x1000FFF [1, 2] (\<lambda>_. 0)) 0x9FFF = 1 \<and>
   snd (write_private_user_bytes two_frame_slot 0x1000FFF [1, 2] (\<lambda>_. 0)) 0x7000 = 2 \<and>
   snd (write_private_user_bytes two_frame_slot 0x1000FFF [1, 2] (\<lambda>_. 0)) 0xA000 = 0"
proof -
  have ok: "slot_frames_ok two_frame_slot"
    by (simp add: slot_frames_ok_def two_frame_slot_def frames_ok_def MAX_PRIVATE_PROGRAM_PAGE_COUNT_def)
  have fb: "frame_byte (s_program_frames two_frame_slot) 4095 = 0x9FFF" "frame_byte (s_program_frames two_frame_slot) 4096 = 0x7000"
    by (simp_all add: frame_byte_def two_frame_slot_def)
  have s: "s_program_frame_count two_frame_slot = 2" by (simp add: two_frame_slot_def)
  have two: "(\<forall>k<Suc (Suc 0). P k) \<longleftrightarrow> P 0 \<and> P 1" for P :: "nat \<Rightarrow> bool" by (auto simp: less_Suc_eq)
  show ?thesis
    using write_private_user_bytes_exact[OF ok, of "[1, 2]" "0x1000FFF" "\<lambda>_. 0", OF _ prod.collapse[symmetric]] ok
    by (simp add: fb s layout_consts two)
qed

end
