(* ===== verification/Text_Output.thy ===== *)
theory Text_Output
  imports Bounded_Fifo Vfs_Path
begin

text \<open>
  Formatting of numbers and text into fixed buffers: the decimal and hexadecimal digits the listings of
  the kernel share, the \<^verbatim>\<open>BufferWriter\<close> of \<^verbatim>\<open>kernel/src/drivers/pci.rs\<close>, \<^verbatim>\<open>network.rs\<close> and \<^verbatim>\<open>status.rs\<close>
  that stops at the end of its buffer, the one of \<^verbatim>\<open>kernel/src/user/process.rs\<close> that goes on counting,
  and the ring of recent output of \<^verbatim>\<open>kernel/src/serial.rs\<close>.
\<close>

section \<open>Digits\<close>

text \<open>The loop over \<^verbatim>\<open>value % 10\<close>: least significant digit first.\<close>

function dec_digits :: "u64 \<Rightarrow> bytes" where
  "dec_digits v = (if v = 0 then [] else (0x30 + ucast (v mod 10)) # dec_digits (v div 10))"
  by pat_completeness auto
termination
proof (relation "measure unat")
  fix v :: u64
  assume "v \<noteq> 0"
  then have "0 < unat v" by (simp add: word_unat_eq_iff)
  then show "(v div 10, v) \<in> measure unat" by (simp add: unat_div)
qed simp

declare dec_digits.simps [simp del]

definition decimal :: "u64 \<Rightarrow> bytes" where
  "decimal v = (if v = 0 then [0x30] else rev (dec_digits v))"

definition decimal_len :: "u64 \<Rightarrow> nat" where
  "decimal_len v = (if v = 0 then 1 else length (dec_digits v))"

text \<open>\<^verbatim>\<open>format_u64_decimal\<close>: the digits go to the front of an array of twenty bytes.\<close>

definition format_u64_decimal :: "u64 \<Rightarrow> bytes \<Rightarrow> nat \<times> bytes" where
  "format_u64_decimal value out = (length (decimal value), splice 0 (decimal value) out)"

definition hex_nibble :: "u8 \<Rightarrow> u8" where
  "hex_nibble n = (let n = n AND 0x0F in if n \<le> 9 then 0x30 + n else 0x61 + (n - 10))"

definition hex_u8 :: "u8 \<Rightarrow> bytes" where
  "hex_u8 v = [hex_nibble (drop_bit 4 v), hex_nibble v]"

definition hex_u16 :: "u16 \<Rightarrow> bytes" where
  "hex_u16 v = hex_u8 (ucast (drop_bit 8 v)) @ hex_u8 (ucast v)"

definition hex_u32 :: "u32 \<Rightarrow> bytes" where
  "hex_u32 v = hex_u16 (ucast (drop_bit 16 v)) @ hex_u16 (ucast v)"

definition spaces :: "nat \<Rightarrow> nat \<Rightarrow> bytes" where
  "spaces len width = replicate (width - len) 0x20"

text \<open>Left-aligned and right-aligned fields.\<close>

definition padded :: "bytes \<Rightarrow> nat \<Rightarrow> bytes" where
  "padded cs width = cs @ spaces (length cs) width"

definition right_dec :: "u64 \<Rightarrow> nat \<Rightarrow> bytes" where
  "right_dec v width = spaces (decimal_len v) width @ decimal v"

section \<open>Writers\<close>

record buffer_writer =
  bw_out :: bytes
  bw_len :: nat

definition bw_new :: "bytes \<Rightarrow> buffer_writer" where
  "bw_new out = \<lparr>bw_out = out, bw_len = 0\<rparr>"

definition write_byte :: "u8 \<Rightarrow> buffer_writer \<Rightarrow> buffer_writer" where
  "write_byte b w =
     (if bw_len w < length (bw_out w)
      then w\<lparr>bw_out := (bw_out w)[bw_len w := b], bw_len := bw_len w + 1\<rparr> else w)"

definition write_str :: "bytes \<Rightarrow> buffer_writer \<Rightarrow> buffer_writer" where
  "write_str cs w = fold write_byte cs w"

text \<open>The writer of the process listing counts every byte, also those that no longer fit.\<close>

definition count_byte :: "u8 \<Rightarrow> buffer_writer \<Rightarrow> buffer_writer" where
  "count_byte b w =
     (if bw_len w < length (bw_out w)
      then w\<lparr>bw_out := (bw_out w)[bw_len w := b], bw_len := bw_len w + 1\<rparr> else w\<lparr>bw_len := bw_len w + 1\<rparr>)"

definition count_str :: "bytes \<Rightarrow> buffer_writer \<Rightarrow> buffer_writer" where
  "count_str cs w = fold count_byte cs w"

section \<open>The ring of recent output\<close>

definition UART_RING_CAPACITY :: nat where "UART_RING_CAPACITY = 8192"

record uart_ring =
  ur_bytes :: bytes
  ur_write_index :: nat
  ur_len :: nat

definition uart_new :: uart_ring where
  "uart_new = \<lparr>ur_bytes = replicate UART_RING_CAPACITY 0, ur_write_index = 0, ur_len = 0\<rparr>"

definition uart_push :: "u8 \<Rightarrow> uart_ring \<Rightarrow> uart_ring" where
  "uart_push b r =
     \<lparr>ur_bytes = (ur_bytes r)[ur_write_index r := b],
      ur_write_index = (ur_write_index r + 1) mod UART_RING_CAPACITY,
      ur_len = min (ur_len r + 1) UART_RING_CAPACITY\<rparr>"

definition uart_write_str :: "bytes \<Rightarrow> uart_ring \<Rightarrow> uart_ring" where
  "uart_write_str cs r = fold uart_push cs r"

definition copy_recent :: "uart_ring \<Rightarrow> bytes \<Rightarrow> nat \<times> bytes" where
  "copy_recent r out =
     (let cnt = min (ur_len r) (length out);
          oldest = (ur_write_index r + UART_RING_CAPACITY - ur_len r) mod UART_RING_CAPACITY;
          skip = ur_len r - cnt
      in (cnt, splice 0 (map (\<lambda>i. ur_bytes r ! ((oldest + skip + i) mod UART_RING_CAPACITY)) [0..<cnt]) out))"

definition copy_recent_log :: "uart_ring \<Rightarrow> bytes \<Rightarrow> nat \<times> bytes" where
  "copy_recent_log r out = (if out = [] then (0, out) else copy_recent r out)"

section \<open>Numbers read back\<close>

text \<open>The number a string of decimal digits denotes.\<close>

definition decimal_value :: "bytes \<Rightarrow> nat" where
  "decimal_value ds = foldl (\<lambda>a d. 10 * a + (unat d - 0x30)) 0 ds"

definition is_digit :: "u8 \<Rightarrow> bool" where
  "is_digit d \<longleftrightarrow> 0x30 \<le> d \<and> d \<le> 0x39"

lemma unat_mod10: "unat (v mod 10 :: u64) = unat v mod 10"
  by (simp add: unat_mod_distrib)

lemma digit_value:
  shows "unat (0x30 + ucast (v mod 10 :: u64) :: u8) = 0x30 + unat v mod 10"
proof -
  have "unat (v mod 10) < 10" by (simp add: unat_mod10)
  then have "unat (ucast (v mod 10) :: u8) = unat v mod 10"
    by (simp add: unsigned_ucast_eq unat_mod10 take_bit_eq_mod)
  then show ?thesis by (simp add: unat_word_ariths)
qed

lemma foldl_rev_digits:
  "foldl (\<lambda>a d. 10 * a + (unat d - 0x30)) 0 (rev (dec_digits v)) = unat v"
proof (induction v rule: dec_digits.induct)
  case (1 v)
  show ?case
  proof (cases "v = 0")
    case False
    from 1[OF False] show ?thesis
      using False by (subst dec_digits.simps) (simp add: digit_value unat_div)
  qed (simp add: dec_digits.simps)
qed

lemma dec_digits_bound: "unat v < 10 ^ n \<Longrightarrow> length (dec_digits v) \<le> n"
proof (induction n arbitrary: v)
  case 0
  then have "v = 0" by (simp add: word_unat_eq_iff)
  then show ?case by (simp add: dec_digits.simps)
next
  case (Suc n)
  have "unat (v div 10) < 10 ^ n" using Suc.prems by (simp add: unat_div less_mult_imp_div_less mult.commute)
  from Suc.IH[OF this] show ?case by (subst dec_digits.simps) simp
qed

lemma dec_digits_are_digits: "list_all is_digit (dec_digits v)"
proof (induction v rule: dec_digits.induct)
  case (1 v)
  have "is_digit (0x30 + ucast (v mod 10))"
    unfolding is_digit_def word_le_nat_alt digit_value by simp
  with 1 show ?case by (subst dec_digits.simps) simp
qed

lemma unat_less_10_20: "unat (v :: u64) < 10 ^ 20"
proof -
  have "unat v < 2 ^ 64" using unsigned_less[of v] by simp
  then show ?thesis by simp
qed

text \<open>
  Numbers are printed so that they can be read back, and always fit.  The digits
  \<^verbatim>\<open>format_u64_decimal\<close> leaves in its array of twenty bytes are decimal digits that denote the number, for
  every 64-bit number, and the bytes behind them are those of the array.
\<close>

theorem format_u64_decimal_roundtrip:
  assumes "length out = 20" "format_u64_decimal v out = (n, out')"
  shows "n \<le> 20 \<and> length out' = 20 \<and> decimal_value (take n out') = unat v \<and> list_all is_digit (take n out') \<and>
    drop n out' = drop n out"
proof -
  have len: "length (decimal v) \<le> 20"
    using dec_digits_bound[OF unat_less_10_20, of v] by (simp add: decimal_def)
  have eq: "n = length (decimal v)" "out' = decimal v @ drop (length (decimal v)) out"
    using assms(2) unfolding format_u64_decimal_def splice_def by auto
  have "decimal_value (decimal v) = unat v"
    using foldl_rev_digits[of v] by (simp add: decimal_value_def decimal_def)
  moreover have "list_all is_digit (decimal v)"
    using dec_digits_are_digits[of v] by (simp add: decimal_def is_digit_def)
  ultimately show ?thesis using len assms(1) by (simp add: eq)
qed

theorem format_u64_decimal_roundtrip_witness:
  "length (replicate 20 (0 :: u8)) = 20 \<and>
   decimal_value (take (fst (format_u64_decimal 1024 (replicate 20 0))) (snd (format_u64_decimal 1024 (replicate 20 0)))) = 1024"
  using format_u64_decimal_roundtrip[of "replicate 20 0" 1024 "fst (format_u64_decimal 1024 (replicate 20 0))"
      "snd (format_u64_decimal 1024 (replicate 20 0))"] by simp

section \<open>Writers cut their cs\<close>

lemma write_str_Cons: "write_str (b # bs) w = write_str bs (write_byte b w)"
  by (simp add: write_str_def)

lemma write_str_full: "length (bw_out w) \<le> bw_len w \<Longrightarrow> write_str cs w = w"
  by (induction cs) (simp_all add: write_str_def write_byte_def)

lemma write_str_cut:
  "bw_len w \<le> length (bw_out w) \<Longrightarrow>
   write_str cs w =
     w\<lparr>bw_out := splice (bw_len w) (take (length (bw_out w) - bw_len w) cs) (bw_out w),
       bw_len := bw_len w + min (length cs) (length (bw_out w) - bw_len w)\<rparr>"
proof (induction cs arbitrary: w)
  case Nil
  then show ?case by (simp add: write_str_def splice_def)
next
  case (Cons b cs)
  show ?case
  proof (cases "bw_len w < length (bw_out w)")
    case False
    then show ?thesis using Cons.prems by (simp add: write_str_full splice_def)
  next
    case True
    let ?w = "write_byte b w"
    have w: "bw_out ?w = (bw_out w)[bw_len w := b]" "bw_len ?w = bw_len w + 1" using True by (simp_all add: write_byte_def)
    have "splice (bw_len w + 1) ts ((bw_out w)[bw_len w := b]) = splice (bw_len w) (b # ts) (bw_out w)" for ts
      using True by (simp add: splice_def take_Suc_conv_app_nth take_update_swap list_update_append)
    moreover have "take (length (bw_out w) - bw_len w) (b # cs) = b # take (length (bw_out w) - (bw_len w + 1)) cs"
      using True Suc_diff_Suc[of "bw_len w" "length (bw_out w)"] by (metis Suc_eq_plus1 take_Suc_Cons)
    moreover have "write_str (b # cs) w = ?w\<lparr>bw_out := splice (bw_len ?w) (take (length (bw_out ?w) - bw_len ?w) cs) (bw_out ?w),
        bw_len := bw_len ?w + min (length cs) (length (bw_out ?w) - bw_len ?w)\<rparr>"
      unfolding write_str_Cons using True by (intro Cons.IH) (simp add: w)
    ultimately show ?thesis using True by (simp add: write_byte_def)
  qed
qed

lemma write_new_str:
  "write_str cs (bw_new out) = \<lparr>bw_out = take (length out) cs @ drop (length cs) out, bw_len = min (length cs) (length out)\<rparr>"
  by (subst write_str_cut) (auto simp: bw_new_def splice_def min_def)

lemma count_byte_write: "bw_out (count_byte b w) = bw_out (write_byte b w)"
  by (simp add: count_byte_def write_byte_def)

lemma count_str_cut:
  "bw_len w \<le> length (bw_out w) \<Longrightarrow>
   bw_out (count_str cs w) = bw_out (write_str cs w) \<and> bw_len (count_str cs w) = bw_len w + length cs"
proof (induction cs arbitrary: w)
  case (Cons b cs)
  show ?case
  proof (cases "bw_len w < length (bw_out w)")
    case True
    then have "count_byte b w = write_byte b w" by (simp add: count_byte_def write_byte_def)
    moreover have "bw_len (write_byte b w) = bw_len w + 1" "bw_len (write_byte b w) \<le> length (bw_out (write_byte b w))"
      using True by (simp_all add: write_byte_def)
    ultimately show ?thesis using Cons.IH[of "write_byte b w"] by (simp add: count_str_def write_str_def)
  next
    case False
    have "length (bw_out w) \<le> bw_len w \<Longrightarrow>
        bw_out (count_str cs w) = bw_out w \<and> bw_len (count_str cs w) = bw_len w + length cs" for cs w
      by (induction cs arbitrary: w) (simp_all add: count_str_def count_byte_def)
    then show ?thesis using False write_str_full[of w "b # cs"] by (simp add: not_less)
  qed
qed (simp add: count_str_def write_str_def)

section \<open>The ring keeps the latest output\<close>

definition uart_ok :: "uart_ring \<Rightarrow> bool" where
  "uart_ok r \<longleftrightarrow> length (ur_bytes r) = UART_RING_CAPACITY \<and> ur_write_index r < UART_RING_CAPACITY \<and> ur_len r \<le> UART_RING_CAPACITY"

definition uart_oldest :: "uart_ring \<Rightarrow> nat" where
  "uart_oldest r = (ur_write_index r + UART_RING_CAPACITY - ur_len r) mod UART_RING_CAPACITY"

definition uart_contents :: "uart_ring \<Rightarrow> bytes" where
  "uart_contents r = ring_contents (ur_bytes r) (uart_oldest r) (ur_len r)"

definition latest :: "nat \<Rightarrow> 'a list \<Rightarrow> 'a list" where
  "latest n xs = drop (length xs - n) xs"

lemma length_latest [simp]: "length (latest n xs) = min n (length xs)"
  by (simp add: latest_def)

lemma latest_snoc: "0 < n \<Longrightarrow> latest n (latest n xs @ [x]) = latest n (xs @ [x])"
  by (cases "length xs \<le> n") (auto simp: latest_def intro: arg_cong2[of _ _ _ _ drop])

lemma latest_latest: "k \<le> n \<Longrightarrow> latest k (latest n xs) = latest k xs"
  by (cases "length xs \<le> n") (auto simp: latest_def intro: arg_cong2[of _ _ _ _ drop])

lemma uart_capacity: "0 < UART_RING_CAPACITY" by (simp add: UART_RING_CAPACITY_def)

lemma uart_push_ok: "uart_ok r \<Longrightarrow> uart_ok (uart_push b r)"
  using uart_capacity by (simp add: uart_ok_def uart_push_def)

lemma uart_write_position:
  assumes "uart_ok r"
  shows "(uart_oldest r + ur_len r) mod UART_RING_CAPACITY = ur_write_index r"
proof -
  have "ur_len r \<le> UART_RING_CAPACITY" "ur_write_index r < UART_RING_CAPACITY" using assms by (simp_all add: uart_ok_def)
  then have "(uart_oldest r + ur_len r) mod UART_RING_CAPACITY = (ur_write_index r + UART_RING_CAPACITY) mod UART_RING_CAPACITY"
    unfolding uart_oldest_def mod_add_left_eq by simp
  then show ?thesis using \<open>ur_write_index r < UART_RING_CAPACITY\<close> by simp
qed

lemma uart_push_oldest:
  assumes "uart_ok r"
  shows "uart_oldest (uart_push b r) =
    (if ur_len r < UART_RING_CAPACITY then uart_oldest r else (uart_oldest r + 1) mod UART_RING_CAPACITY)"
proof (cases "ur_len r < UART_RING_CAPACITY")
  case True
  have "((ur_write_index r + 1) mod UART_RING_CAPACITY + (UART_RING_CAPACITY - (ur_len r + 1))) mod UART_RING_CAPACITY =
      (ur_write_index r + 1 + (UART_RING_CAPACITY - (ur_len r + 1))) mod UART_RING_CAPACITY"
    by (rule mod_add_left_eq)
  moreover have "ur_write_index r + 1 + (UART_RING_CAPACITY - (ur_len r + 1)) = ur_write_index r + UART_RING_CAPACITY - ur_len r"
    using True by simp
  ultimately show ?thesis using True by (simp add: uart_oldest_def uart_push_def)
next
  case False
  then have "ur_len r = UART_RING_CAPACITY" "ur_write_index r < UART_RING_CAPACITY" using assms by (simp_all add: uart_ok_def)
  then show ?thesis using False by (simp add: uart_oldest_def uart_push_def)
qed

lemma uart_push_contents:
  assumes "uart_ok r"
  shows "uart_contents (uart_push b r) = latest UART_RING_CAPACITY (uart_contents r @ [b])"
proof -
  let ?C = UART_RING_CAPACITY and ?o = "uart_oldest r"
  have len: "length (ur_bytes r) = ?C" and n: "ur_len r \<le> ?C" using assms by (simp_all add: uart_ok_def)
  have o: "?o < ?C" using uart_capacity by (simp add: uart_oldest_def)
  note wp = uart_write_position[OF assms, symmetric]
  show ?thesis
  proof (cases "ur_len r < ?C")
    case True
    then show ?thesis
      using ring_put[of "ur_len r" "ur_bytes r" ?o b] len uart_push_oldest[OF assms, of b]
      by (simp add: uart_contents_def uart_push_def latest_def flip: wp)
  next
    case False
    then have full: "ur_len r = ?C" using n by simp
    have "((?o + 1) mod ?C + (?C - 1)) mod ?C = (?o + 1 + (?C - 1)) mod ?C" by (rule mod_add_left_eq)
    then have at: "((?o + 1) mod ?C + (?C - 1)) mod ?C = ur_write_index r" using wp full uart_capacity by simp
    have "ring_contents ((ur_bytes r)[ur_write_index r := b]) ((?o + 1) mod ?C) ?C =
        ring_contents (ur_bytes r) ((?o + 1) mod ?C) (?C - 1) @ [b]"
      using ring_put[of "?C - 1" "ur_bytes r" "(?o + 1) mod ?C" b] len uart_capacity unfolding len at by simp
    moreover have "ring_contents (ur_bytes r) ?o ?C = ur_bytes r ! ?o # ring_contents (ur_bytes r) ((?o + 1) mod ?C) (?C - 1)"
      using ring_get[of ?C ?o "ur_bytes r"] len o uart_capacity by simp
    ultimately show ?thesis
      using uart_push_oldest[OF assms, of b] full
        Suc_pred[OF uart_capacity] by (simp add: uart_contents_def uart_push_def latest_def)
  qed
qed

lemma uart_write_contents:
  "uart_ok r \<Longrightarrow> uart_ok (uart_write_str cs r) \<and>
    uart_contents (uart_write_str cs r) = latest UART_RING_CAPACITY (uart_contents r @ cs)"
proof (induction cs rule: rev_induct)
  case Nil
  then show ?case by (simp add: uart_write_str_def uart_contents_def latest_def uart_ok_def)
next
  case (snoc b cs)
  then show ?case
    using uart_push_contents[of "uart_write_str cs r" b] uart_push_ok[of "uart_write_str cs r" b]
      latest_snoc[OF uart_capacity, of "uart_contents r @ cs" b]
    by (simp add: uart_write_str_def)
qed

lemma copy_recent_latest:
  assumes "uart_ok r"
  shows "copy_recent r out = (min (ur_len r) (length out),
    latest (min (ur_len r) (length out)) (uart_contents r) @ drop (min (ur_len r) (length out)) out)"
proof -
  let ?c = "min (ur_len r) (length out)"
  have len: "length (ur_bytes r) = UART_RING_CAPACITY" using assms by (simp add: uart_ok_def)
  have "map (\<lambda>i. ur_bytes r ! ((uart_oldest r + (ur_len r - ?c) + i) mod UART_RING_CAPACITY)) [0..<?c] =
      drop (ur_len r - ?c) (uart_contents r)"
  proof (rule nth_equalityI)
    fix i assume "i < length (map (\<lambda>i. ur_bytes r ! ((uart_oldest r + (ur_len r - ?c) + i) mod UART_RING_CAPACITY)) [0..<?c])"
    then have i: "i < ?c" by simp
    define j where "j = ur_len r - ?c + i"
    have "j < ur_len r" using i unfolding j_def by linarith
    then have "uart_contents r ! j = ur_bytes r ! ((uart_oldest r + j) mod UART_RING_CAPACITY)"
      by (simp add: uart_contents_def ring_contents_def len)
    then have "drop (ur_len r - ?c) (uart_contents r) ! i = ur_bytes r ! ((uart_oldest r + (ur_len r - ?c + i)) mod UART_RING_CAPACITY)"
      using \<open>j < ur_len r\<close> unfolding j_def by (subst nth_drop) (simp_all add: uart_contents_def)
    then show "map (\<lambda>i. ur_bytes r ! ((uart_oldest r + (ur_len r - ?c) + i) mod UART_RING_CAPACITY)) [0..<?c] ! i =
        drop (ur_len r - ?c) (uart_contents r) ! i"
      using i by (simp only: add.assoc nth_map_upt length_upt nth_map nth_upt) simp
  qed (simp add: uart_contents_def)
  then show ?thesis
    by (simp add: copy_recent_def Let_def uart_oldest_def[symmetric] latest_def uart_contents_def splice_def)
qed

text \<open>
  C37: the kernel log holds the latest output.  Whatever was printed, reading the log fills the front
  of the buffer with the most recent bytes, in order and without a gap: as many as fit the buffer, were
  printed, and fit the ring of 8192 bytes; the rest of the buffer keeps its bytes.
\<close>

theorem copy_recent_log_latest:
  "copy_recent_log (uart_write_str cs uart_new) out =
     (let n = min (min (length cs) UART_RING_CAPACITY) (length out) in (n, latest n cs @ drop n out))"
proof -
  let ?r = "uart_write_str cs uart_new"
  have "uart_ok uart_new" "uart_contents uart_new = []"
    using uart_capacity by (simp_all add: uart_new_def uart_ok_def uart_contents_def)
  then have r: "uart_ok ?r" "uart_contents ?r = latest UART_RING_CAPACITY cs"
    using uart_write_contents[of uart_new cs] by simp_all
  have "ur_len ?r = length (uart_contents ?r)" by (simp add: uart_contents_def)
  then have "ur_len ?r = min (length cs) UART_RING_CAPACITY" using r(2) by (simp add: min.commute)
  then show ?thesis
    using copy_recent_latest[OF r(1), of out] latest_latest[of _ UART_RING_CAPACITY cs]
    by (auto simp: copy_recent_log_def Let_def r(2) latest_def)
qed

end
