(* ===== verification/Ramfs.thy ===== *)
theory Ramfs
  imports Fs_Tree
begin

text \<open>
  The RAM filesystem (\<^verbatim>\<open>kernel/src/fs/ramfs.rs\<close>): the built-in files, the userland images and the
  writable store under \<^verbatim>\<open>/tmp\<close>.  The table of userland images is generated by the build
  (\<^verbatim>\<open>kernel/src/user/images.rs\<close> includes it), so it is an argument of the definitions that use it.
\<close>

section \<open>Userland images\<close>

record userland_image =
  img_path :: bytes
  img_name :: bytes
  img_data :: bytes

text \<open>\<^verbatim>\<open>USERLAND_IMAGES\<close> and \<^verbatim>\<open>USERLAND_IMAGE_NAMES\<close>.\<close>

record userland =
  ul_images :: "userland_image list"
  ul_names :: "bytes list"

definition image_find :: "userland \<Rightarrow> bytes \<Rightarrow> userland_image option" where
  "image_find u path = find (\<lambda>i. img_path i = path) (ul_images u)"

definition find_path_by_name :: "userland \<Rightarrow> bytes \<Rightarrow> bytes" where
  "find_path_by_name u name =
     (case find (\<lambda>i. img_name i = name) (ul_images u) of None \<Rightarrow> [] | Some i \<Rightarrow> img_path i)"

definition image_normalize_path :: "userland \<Rightarrow> bytes \<Rightarrow> bytes option" where
  "image_normalize_path u path =
     (let nonempty = (\<lambda>p. if p = [] then None else Some p)
      in case image_find u path of
           Some i \<Rightarrow> Some (img_path i)
         | None \<Rightarrow>
             (case strip_prefix (str ''bin/'') path of
                Some name \<Rightarrow>
                  (case image_find u path of
                     Some i \<Rightarrow> Some (img_path i)
                   | None \<Rightarrow> nonempty (find_path_by_name u name))
              | None \<Rightarrow> nonempty (find_path_by_name u path)))"

definition default_image :: "userland \<Rightarrow> userland_image option" where
  "default_image u =
     (case image_find u (str ''/bin/demo'') of
        Some i \<Rightarrow> Some i
      | None \<Rightarrow> (case ul_images u of [] \<Rightarrow> None | i # _ \<Rightarrow> Some i))"

section \<open>Built-in files\<close>

definition MAX_WRITABLE_NODES :: nat where "MAX_WRITABLE_NODES = 32"
definition MAX_FILE_NAME_LEN :: nat where "MAX_FILE_NAME_LEN = 32"
definition MAX_FILE_SIZE :: nat where "MAX_FILE_SIZE = 1024"
definition ROOT_INODE :: u64 where "ROOT_INODE = 1"
definition BIN_INODE :: u64 where "BIN_INODE = 2"
definition TMP_INODE :: u64 where "TMP_INODE = 3"
definition FIRST_WRITABLE_INODE :: u64 where "FIRST_WRITABLE_INODE = 10000"

record file_entry =
  fe_inode :: u64
  fe_path :: bytes
  fe_data :: bytes

definition FILES :: "file_entry list" where
  "FILES =
     [\<lparr>fe_inode = 10, fe_path = str ''/README'',
       fe_data = str ''Vantara OS RAM filesystem'' @ [10, 10] @
         str ''This filesystem has read-only system files and writable /tmp storage.'' @ [10]\<rparr>,
      \<lparr>fe_inode = 11, fe_path = str ''/VERSION'', fe_data = str ''0.1.0''\<rparr>,
      \<lparr>fe_inode = 12, fe_path = str ''/MOTD'',
       fe_data = str ''Welcome to Vantara OS.'' @ [10] @
         str ''Try: help, uptime, mem, tasks, pci, ls, cat, stat.'' @ [10]\<rparr>]"

datatype static_ref = BuiltIn file_entry | Userland userland_image

definition userland_inode :: "userland \<Rightarrow> bytes \<Rightarrow> u64" where
  "userland_inode u path =
     (case position (\<lambda>i. img_path i = path) (ul_images u) of
        None \<Rightarrow> 0
      | Some index \<Rightarrow> 1000 + of_nat index)"

fun static_inode :: "userland \<Rightarrow> static_ref \<Rightarrow> u64" where
  "static_inode u (BuiltIn e) = fe_inode e"
| "static_inode u (Userland i) = userland_inode u (img_path i)"

fun static_data :: "static_ref \<Rightarrow> bytes" where
  "static_data (BuiltIn e) = fe_data e"
| "static_data (Userland i) = img_data i"

definition find_static :: "userland \<Rightarrow> bytes \<Rightarrow> static_ref option" where
  "find_static u path =
     (case find (\<lambda>e. fe_path e = path) FILES of
        Some e \<Rightarrow> Some (BuiltIn e)
      | None \<Rightarrow> map_option Userland (image_find u path))"

definition static_by_inode :: "userland \<Rightarrow> u64 \<Rightarrow> static_ref option" where
  "static_by_inode u inode =
     (case find (\<lambda>e. fe_inode e = inode) FILES of
        Some e \<Rightarrow> Some (BuiltIn e)
      | None \<Rightarrow> map_option Userland (find (\<lambda>i. userland_inode u (img_path i) = inode) (ul_images u)))"

section \<open>The writable store\<close>

record writable_node =
  wn_inode :: u64
  wn_parent :: u64
  wn_name_bytes :: bytes
  wn_name_len :: nat
  wn_file_type :: file_type
  wn_data :: bytes
  wn_len :: nat

definition node_new :: "u64 \<Rightarrow> u64 \<Rightarrow> bytes \<Rightarrow> file_type \<Rightarrow> writable_node" where
  "node_new inode parent name ft =
     \<lparr>wn_inode = inode, wn_parent = parent,
      wn_name_bytes = splice 0 name (replicate MAX_FILE_NAME_LEN 0), wn_name_len = length name,
      wn_file_type = ft, wn_data = replicate MAX_FILE_SIZE 0, wn_len = 0\<rparr>"

definition node_name :: "writable_node \<Rightarrow> bytes" where
  "node_name n =
     (let name = take (wn_name_len n) (wn_name_bytes n) in if utf8_valid name then name else [])"

record writable_store =
  ws_nodes :: "writable_node list"
  ws_next_inode :: u64

definition store_new :: writable_store where
  "store_new = \<lparr>ws_nodes = [], ws_next_inode = FIRST_WRITABLE_INODE\<rparr>"

definition store_child :: "writable_store \<Rightarrow> u64 \<Rightarrow> bytes \<Rightarrow> writable_node option" where
  "store_child s parent name = find (\<lambda>n. wn_parent n = parent \<and> node_name n = name) (ws_nodes s)"

definition find_inode :: "writable_store \<Rightarrow> u64 \<Rightarrow> writable_node option" where
  "find_inode s inode = find (\<lambda>n. wn_inode n = inode) (ws_nodes s)"

definition modify_inode :: "u64 \<Rightarrow> (writable_node \<Rightarrow> writable_node) \<Rightarrow> writable_store \<Rightarrow> writable_store" where
  "modify_inode inode f s = s\<lparr>ws_nodes := update_first (\<lambda>n. wn_inode n = inode) f (ws_nodes s)\<rparr>"

text \<open>\<^verbatim>\<open>resolve_path\<close> walks the components behind \<^verbatim>\<open>/tmp/\<close>.\<close>

definition store_lookup :: "writable_store \<Rightarrow> bytes list \<Rightarrow> u64 option" where
  "store_lookup s = resolve_components (\<lambda>p n. map_option wn_inode (store_child s p n)) TMP_INODE"

definition store_resolve_path :: "writable_store \<Rightarrow> bytes \<Rightarrow> u64 option" where
  "store_resolve_path s path =
     (if path = str ''/tmp'' then Some TMP_INODE
      else case strip_prefix (str ''/tmp/'') path of
             None \<Rightarrow> None
           | Some relative \<Rightarrow> store_lookup s (split_on SLASH relative))"

definition tmp_split_parent_name :: "bytes \<Rightarrow> fs_error + (bytes \<times> bytes)" where
  "tmp_split_parent_name path =
     (if strip_prefix (str ''/tmp/'') path = None then Inl ReadOnly
      else case rfind SLASH path of
             None \<Rightarrow> Inl InvalidPath
           | Some split \<Rightarrow>
               let parent = (if split = 0 then [SLASH] else take split path);
                   name = drop (split + 1) path
               in if name = [] then Inl InvalidPath
                  else if length name > MAX_FILE_NAME_LEN then Inl NameTooLong
                  else Inr (parent, name))"

text \<open>The directory check every operation that takes a parent makes.\<close>

definition is_store_directory :: "writable_store \<Rightarrow> u64 \<Rightarrow> bool" where
  "is_store_directory s inode \<longleftrightarrow>
     inode = TMP_INODE \<or>
     (case find_inode s inode of None \<Rightarrow> False | Some n \<Rightarrow> wn_file_type n = Directory)"

definition store_create :: "bytes \<Rightarrow> file_type \<Rightarrow> writable_store \<Rightarrow> (fs_error + u64) \<times> writable_store" where
  "store_create path ft s =
     (case tmp_split_parent_name path of
        Inl e \<Rightarrow> (Inl e, s)
      | Inr (parent_path, name) \<Rightarrow>
     (case store_resolve_path s parent_path of
        None \<Rightarrow> (Inl NotFound, s)
      | Some parent \<Rightarrow>
          if \<not> is_store_directory s parent then (Inl NotDirectory, s)
          else if store_child s parent name \<noteq> None then (Inl AlreadyExists, s)
          else if length (ws_nodes s) = MAX_WRITABLE_NODES then (Inl NoSpace, s)
          else (case checked_add (ws_next_inode s) 1 of
                 None \<Rightarrow> (Inl NoSpace, s)
               | Some next \<Rightarrow>
                   (Inr (ws_next_inode s),
                    \<lparr>ws_nodes = ws_nodes s @ [node_new (ws_next_inode s) parent name ft],
                     ws_next_inode = next\<rparr>))))"

definition store_write :: "u64 \<Rightarrow> nat \<Rightarrow> bytes \<Rightarrow> writable_store \<Rightarrow> (fs_error + nat) \<times> writable_store" where
  "store_write inode offset source s =
     (case find_inode s inode of
        None \<Rightarrow> (Inl NotFound, s)
      | Some n \<Rightarrow>
          if wn_file_type n \<noteq> File then (Inl IsDirectory, s)
          else let end = offset + length source
               in if end > length (wn_data n) then (Inl FileTooLarge, s)
                  else (Inr (length source),
                        modify_inode inode
                          (\<lambda>n. n\<lparr>wn_data := splice offset source (wn_data n), wn_len := max (wn_len n) end\<rparr>) s))"

definition store_remove_path :: "bytes \<Rightarrow> file_type \<Rightarrow> writable_store \<Rightarrow> (fs_error + u64) \<times> writable_store" where
  "store_remove_path path expected s =
     (case store_resolve_path s path of
        None \<Rightarrow> (Inl NotFound, s)
      | Some inode \<Rightarrow>
          if inode = TMP_INODE then (Inl ReadOnly, s)
          else (case find_inode s inode of
                 None \<Rightarrow> (Inl NotFound, s)
               | Some n \<Rightarrow>
                   if wn_file_type n \<noteq> expected
                   then (Inl (if expected = File then IsDirectory else NotDirectory), s)
                   else if expected = Directory \<and> list_ex (\<lambda>m. wn_parent m = inode) (ws_nodes s)
                   then (Inl DirectoryNotEmpty, s)
                   else (Inr (wn_inode n), s\<lparr>ws_nodes := remove_first (\<lambda>m. wn_inode m = inode) (ws_nodes s)\<rparr>)))"

definition store_parent_of :: "writable_store \<Rightarrow> u64 \<Rightarrow> u64 option" where
  "store_parent_of s i = map_option wn_parent (find_inode s i)"

definition is_descendant :: "writable_store \<Rightarrow> u64 \<Rightarrow> u64 \<Rightarrow> bool option" where
  "is_descendant s candidate ancestor = climb (store_parent_of s) TMP_INODE candidate ancestor"

text \<open>\<^term>\<open>None\<close> when the climb of \<^verbatim>\<open>is_descendant\<close> does not return.\<close>

definition store_rename :: "bytes \<Rightarrow> bytes \<Rightarrow> writable_store \<Rightarrow> ((fs_error + u64) \<times> writable_store) option" where
  "store_rename old_path new_path s =
     (case store_resolve_path s old_path of
        None \<Rightarrow> Some (Inl NotFound, s)
      | Some inode \<Rightarrow>
          if inode = TMP_INODE then Some (Inl ReadOnly, s)
          else (case tmp_split_parent_name new_path of
                 Inl e \<Rightarrow> Some (Inl e, s)
               | Inr (new_parent_path, new_name) \<Rightarrow>
          (case store_resolve_path s new_parent_path of
             None \<Rightarrow> Some (Inl NotFound, s)
           | Some new_parent \<Rightarrow>
               if \<not> is_store_directory s new_parent then Some (Inl NotDirectory, s)
               else if store_child s new_parent new_name \<noteq> None then Some (Inl AlreadyExists, s)
               else (case is_descendant s new_parent inode of
                      None \<Rightarrow> None
                    | Some True \<Rightarrow> Some (Inl InvalidPath, s)
                    | Some False \<Rightarrow>
                        (case find_inode s inode of
                           None \<Rightarrow> Some (Inl NotFound, s)
                         | Some n \<Rightarrow>
                             Some (Inr (wn_inode n),
                               modify_inode inode
                                 (\<lambda>n. n\<lparr>wn_parent := new_parent,
                                        wn_name_bytes := splice 0 new_name (replicate (length (wn_name_bytes n)) 0),
                                        wn_name_len := length new_name\<rparr>) s))))))"

section \<open>The backend\<close>

definition ramfs_list :: "userland \<Rightarrow> writable_store \<Rightarrow> bytes \<Rightarrow> bytes \<Rightarrow> (fs_error + nat) \<times> bytes" where
  "ramfs_list u s path out =
     (if path = [SLASH]
      then append_lines [str ''README'', str ''VERSION'', str ''MOTD'', str ''bin'', str ''tmp''] out 0
      else if path = str ''/bin'' then append_lines (ul_names u) out 0
      else case store_resolve_path s path of
             None \<Rightarrow> (Inl NotFound, out)
           | Some directory \<Rightarrow>
               if \<not> is_store_directory s directory then (Inl NotDirectory, out)
               else append_lines (map node_name (filter (\<lambda>n. wn_parent n = directory) (ws_nodes s))) out 0)"

definition count_children :: "writable_store \<Rightarrow> u64 \<Rightarrow> nat" where
  "count_children s inode = length (filter (\<lambda>n. wn_parent n = inode) (ws_nodes s))"

definition ramfs_stat :: "userland \<Rightarrow> writable_store \<Rightarrow> bytes \<Rightarrow> fs_error + backend_stat" where
  "ramfs_stat u s path =
     (if path = [SLASH]
      then Inr \<lparr>bs_file_type = Directory, bs_size = 5, bs_readonly = True, bs_inode = ROOT_INODE\<rparr>
      else if path = str ''/bin''
      then Inr \<lparr>bs_file_type = Directory, bs_size = length (ul_names u), bs_readonly = True, bs_inode = BIN_INODE\<rparr>
      else if path = str ''/tmp''
      then Inr \<lparr>bs_file_type = Directory, bs_size = count_children s TMP_INODE, bs_readonly = False,
                bs_inode = TMP_INODE\<rparr>
      else case find_static u path of
             Some e \<Rightarrow> Inr \<lparr>bs_file_type = File, bs_size = length (static_data e), bs_readonly = True,
                            bs_inode = static_inode u e\<rparr>
           | None \<Rightarrow>
               (case store_resolve_path s path of
                  None \<Rightarrow> Inl NotFound
                | Some inode \<Rightarrow>
                    (case find_inode s inode of
                       None \<Rightarrow> Inl NotFound
                     | Some n \<Rightarrow>
                         Inr \<lparr>bs_file_type = wn_file_type n,
                              bs_size = (if wn_file_type n = Directory then count_children s (wn_inode n)
                                         else wn_len n),
                              bs_readonly = False, bs_inode = wn_inode n\<rparr>)))"

definition ramfs_read :: "userland \<Rightarrow> writable_store \<Rightarrow> u64 \<Rightarrow> nat \<Rightarrow> bytes \<Rightarrow> (fs_error + nat) \<times> bytes" where
  "ramfs_read u s inode offset out =
     (case static_by_inode u inode of
        Some e \<Rightarrow>
          (let (count, out) = copy_out (static_data e) (length (static_data e)) offset out in (Inr count, out))
      | None \<Rightarrow>
          (case find_inode s inode of
             None \<Rightarrow> (Inl NotFound, out)
           | Some n \<Rightarrow>
               if wn_file_type n \<noteq> File then (Inl IsDirectory, out)
               else let (count, out) = copy_out (wn_data n) (wn_len n) offset out in (Inr count, out)))"

text \<open>\<^verbatim>\<open>create\<close> and \<^verbatim>\<open>mkdir\<close>.\<close>

definition ramfs_create ::
    "file_type \<Rightarrow> bytes \<Rightarrow> writable_store \<Rightarrow> (fs_error + backend_stat) \<times> writable_store"
where
  "ramfs_create ft path s =
     (case store_create path ft s of
        (Inl e, s) \<Rightarrow> (Inl e, s)
      | (Inr inode, s) \<Rightarrow>
          (Inr \<lparr>bs_file_type = ft, bs_size = 0, bs_readonly = False, bs_inode = inode\<rparr>, s))"

section \<open>Well-formed stores\<close>

definition node_view :: "writable_node \<Rightarrow> tnode" where
  "node_view n = \<lparr>tn_inode = wn_inode n, tn_parent = wn_parent n, tn_name = node_name n, tn_type = wn_file_type n\<rparr>"

lemma node_view_simps [simp]:
  "tn_inode (node_view n) = wn_inode n" "tn_parent (node_view n) = wn_parent n"
  "tn_name (node_view n) = node_name n" "tn_type (node_view n) = wn_file_type n"
  by (simp_all add: node_view_def)

definition store_tree :: "writable_store \<Rightarrow> tnode list" where
  "store_tree s = map node_view (ws_nodes s)"

definition node_ok :: "writable_node \<Rightarrow> bool" where
  "node_ok n \<longleftrightarrow> length (wn_name_bytes n) = MAX_FILE_NAME_LEN \<and> wn_name_len n \<le> MAX_FILE_NAME_LEN \<and>
     length (wn_data n) = MAX_FILE_SIZE \<and> wn_len n \<le> MAX_FILE_SIZE \<and> FIRST_WRITABLE_INODE \<le> wn_inode n \<and>
     drop (wn_len n) (wn_data n) = replicate (MAX_FILE_SIZE - wn_len n) 0"

definition store_ok :: "writable_store \<Rightarrow> bool" where
  "store_ok s \<longleftrightarrow> tree_ok TMP_INODE (store_tree s) \<and>
     (\<forall>n\<in>set (ws_nodes s). node_ok n \<and> wn_inode n < ws_next_inode s) \<and>
     length (ws_nodes s) \<le> MAX_WRITABLE_NODES \<and> FIRST_WRITABLE_INODE \<le> ws_next_inode s"

lemma store_okD:
  assumes "store_ok s"
  shows "tree_ok TMP_INODE (store_tree s)" "n \<in> set (ws_nodes s) \<Longrightarrow> node_ok n"
    "n \<in> set (ws_nodes s) \<Longrightarrow> wn_inode n < ws_next_inode s" "length (ws_nodes s) \<le> MAX_WRITABLE_NODES"
    "FIRST_WRITABLE_INODE \<le> ws_next_inode s"
  using assms unfolding store_ok_def by blast+

lemma store_new_ok: "store_ok store_new"
  by (simp add: store_ok_def store_new_def store_tree_def tree_ok_def)

lemma store_child_tree: "map_option wn_inode (store_child s p c) = tree_child (store_tree s) p c"
  by (simp add: store_child_def tree_child_def store_tree_def find_map option.map_comp comp_def)

lemma store_parent_tree: "store_parent_of s i = tree_parent (store_tree s) i"
  by (simp add: store_parent_of_def find_inode_def tree_parent_def store_tree_def find_map option.map_comp comp_def)

interpretation tmp_store: tree_store TMP_INODE store_ok store_tree store_lookup store_parent_of
  by unfold_locales (simp_all add: store_okD(1) store_lookup_def store_child_tree store_parent_tree)

lemma find_inode_eq:
  assumes "store_ok s"
  shows "find_inode s i = Some n \<longleftrightarrow> n \<in> set (ws_nodes s) \<and> wn_inode n = i"
proof -
  have "distinct (map wn_inode (ws_nodes s))"
    using tree_okD(1)[OF store_okD(1)[OF assms]] by (simp add: store_tree_def comp_def)
  then show ?thesis unfolding find_inode_def by (rule find_key_eq)
qed

lemma is_store_directory_tree:
  assumes "store_ok s"
  shows "is_store_directory s i \<longleftrightarrow> tree_dir TMP_INODE (store_tree s) i"
proof (cases "find_inode s i")
  case None
  then have "\<forall>n\<in>set (ws_nodes s). wn_inode n \<noteq> i" by (simp add: find_inode_def find_None_iff_all)
  with None show ?thesis by (simp add: is_store_directory_def tree_dir_def store_tree_def)
next
  case (Some n)
  then have n: "n \<in> set (ws_nodes s)" "wn_inode n = i" using find_inode_eq[OF assms] by auto
  have "m = n" if "m \<in> set (ws_nodes s)" "wn_inode m = i" for m
    using that Some find_inode_eq[OF assms, of i m] by simp
  with n have "(\<exists>m\<in>set (ws_nodes s). wn_inode m = i \<and> wn_file_type m = Directory) \<longleftrightarrow> wn_file_type n = Directory"
    by blast
  then show ?thesis using Some by (simp add: is_store_directory_def tree_dir_def store_tree_def)
qed

lemma writable_not_tmp: "node_ok n \<Longrightarrow> wn_inode n \<noteq> TMP_INODE"
  by (auto simp: node_ok_def FIRST_WRITABLE_INODE_def TMP_INODE_def)

section \<open>Paths below /tmp\<close>

definition tmp_path :: "bytes list \<Rightarrow> bytes" where
  "tmp_path cs = str ''/tmp'' @ join cs"

lemma str_tmp_slash: "str ''/tmp/'' = str ''/tmp'' @ [SLASH]"
  by (simp add: str_def)

lemma resolve_tmp_path:
  assumes "slash_free cs"
  shows "store_resolve_path s (tmp_path cs) = store_lookup s cs"
proof (cases cs)
  case (Cons c ds)
  then have "SLASH \<notin> set c" "slash_free ds" using assms by (simp_all add: slash_free_def)
  then have "split_on SLASH (c @ join ds) = cs" using split_join Cons by simp
  moreover have "strip_prefix (str ''/tmp/'') (tmp_path cs) = Some (c @ join ds)"
    by (simp add: str_tmp_slash tmp_path_def Cons)
  moreover have "tmp_path cs \<noteq> str ''/tmp''" by (simp add: tmp_path_def Cons)
  ultimately show ?thesis by (simp add: store_resolve_path_def)
qed (simp add: store_resolve_path_def tmp_path_def store_lookup_def)

lemma resolve_SomeD:
  assumes "store_resolve_path s path = Some i"
  obtains cs where "path = tmp_path cs" "slash_free cs" "store_lookup s cs = Some i"
proof (cases "path = str ''/tmp''")
  case True
  then show ?thesis using assms that[of "[]"]
    by (simp add: store_resolve_path_def tmp_path_def store_lookup_def slash_free_def)
next
  case False
  then obtain rel where r: "strip_prefix (str ''/tmp/'') path = Some rel" "store_lookup s (split_on SLASH rel) = Some i"
    using assms by (auto simp: store_resolve_path_def split: option.splits)
  then have "path = tmp_path (split_on SLASH rel)" by (simp add: tmp_path_def str_tmp_slash flip: join_split)
  with r(2) that show ?thesis by simp
qed

lemma tmp_split_join:
  assumes "SLASH \<notin> set c" and "c \<noteq> []" and "length c \<le> MAX_FILE_NAME_LEN"
  shows "tmp_split_parent_name (tmp_path (cs @ [c])) = Inr (tmp_path cs, c)"
proof -
  have p: "tmp_path (cs @ [c]) = tmp_path cs @ SLASH # c" by (simp add: tmp_path_def)
  have "rfind SLASH (tmp_path (cs @ [c])) = Some (length (tmp_path cs))" unfolding p using assms(1) by simp
  moreover have "strip_prefix (str ''/tmp/'') (tmp_path (cs @ [c])) \<noteq> None"
    by (cases cs) (simp_all add: tmp_path_def str_tmp_slash)
  moreover have "tmp_path cs \<noteq> []" by (simp add: tmp_path_def str_def)
  ultimately show ?thesis using assms by (simp add: tmp_split_parent_name_def Let_def p)
qed

lemma tmp_split_InrD:
  assumes "tmp_split_parent_name path = Inr (parent, c)" and "utf8_valid path"
  shows "utf8_valid c" "c \<noteq> []" "length c \<le> MAX_FILE_NAME_LEN" "SLASH \<notin> set c" "path = parent @ SLASH # c"
proof -
  from assms(1) obtain i where i: "rfind SLASH path = Some i" "c = drop (i + 1) path" "c \<noteq> []"
    "length c \<le> MAX_FILE_NAME_LEN" "parent = (if i = 0 then [SLASH] else take i path)"
    "strip_prefix (str ''/tmp/'') path \<noteq> None"
    by (auto simp: tmp_split_parent_name_def Let_def split: if_splits option.splits)
  note d = rfind_SomeD[OF i(1)]
  show "utf8_valid c" using d(1) assms(2) utf8_valid_cut[of SLASH "take i path" "drop (i + 1) path"] i(2) by simp
  show "c \<noteq> []" "length c \<le> MAX_FILE_NAME_LEN" "SLASH \<notin> set c" using i d(2) by auto
  from i(6) obtain rel where "path = str ''/tmp'' @ SLASH # rel" by (auto simp: str_tmp_slash)
  then have "i \<noteq> 0" using d(2) by (cases i) (simp_all add: str_def)
  with d(1) i show "path = parent @ SLASH # c" by simp
qed

section \<open>Every operation keeps the store well formed\<close>

lemma node_name_new:
  "utf8_valid c \<Longrightarrow> length c \<le> MAX_FILE_NAME_LEN \<Longrightarrow> node_name (node_new i p c ft) = c"
  by (simp add: node_name_def node_new_def splice_def Let_def)

lemma node_new_view:
  "utf8_valid c \<Longrightarrow> length c \<le> MAX_FILE_NAME_LEN \<Longrightarrow>
   node_view (node_new i p c ft) = \<lparr>tn_inode = i, tn_parent = p, tn_name = c, tn_type = ft\<rparr>"
  using node_name_new[of c i p ft] by (simp add: node_view_def) (simp add: node_new_def)

lemma checked_inc_less: "checked_add a 1 = Some b \<Longrightarrow> a < b" for a b :: u64
  unfolding word_less_nat_alt using checked_add_SomeD[of a 1 b] by fastforce

lemma store_create_InrD:
  assumes "store_create path ft s = (Inr i, s')"
  obtains parent_path c p where "tmp_split_parent_name path = Inr (parent_path, c)"
    "store_resolve_path s parent_path = Some p" "is_store_directory s p" "store_child s p c = None"
    "length (ws_nodes s) \<noteq> MAX_WRITABLE_NODES" "i = ws_next_inode s"
    "checked_add i 1 = Some (ws_next_inode s')" "ws_nodes s' = ws_nodes s @ [node_new i p c ft]"
  using assms that by (auto simp: store_create_def split: sum.splits prod.splits option.splits if_splits)

lemma store_ok_create:
  assumes ok: "store_ok s" and v: "utf8_valid path" and c: "store_create path ft s = (r, s')"
  shows "store_ok s'"
proof (cases r)
  case (Inl e)
  then have "s' = s" using c by (auto simp: store_create_def split: sum.splits prod.splits option.splits if_splits)
  with ok show ?thesis by simp
next
  case (Inr i)
  with c have "store_create path ft s = (Inr i, s')" by simp
  then obtain pp c p where f: "tmp_split_parent_name path = Inr (pp, c)" "is_store_directory s p"
    "store_child s p c = None" "length (ws_nodes s) \<noteq> MAX_WRITABLE_NODES" "i = ws_next_inode s"
    "checked_add i 1 = Some (ws_next_inode s')" "ws_nodes s' = ws_nodes s @ [node_new i p c ft]"
    by (rule store_create_InrD)
  note n = tmp_split_InrD[OF f(1) v]
  let ?x = "\<lparr>tn_inode = i, tn_parent = p, tn_name = c, tn_type = ft\<rparr>"
  have view: "store_tree s' = store_tree s @ [?x]"
    using f(7) n by (simp add: store_tree_def node_new_view)
  have lt: "ws_next_inode s < ws_next_inode s'" using checked_inc_less[OF f(6)] f(5) by simp
  have fresh: "i \<notin> tn_inode ` set (store_tree s)"
    using store_okD(3)[OF ok] f(5) by (fastforce simp: store_tree_def)
  have "i \<noteq> TMP_INODE" using store_okD(5)[OF ok] f(5) by (auto simp: FIRST_WRITABLE_INODE_def TMP_INODE_def)
  then have "tree_ok TMP_INODE (?x # store_tree s)"
    using f(2,3) n(2) fresh is_store_directory_tree[OF ok] store_child_tree[of s p c]
    by (intro tree_ok_insert[OF store_okD(1)[OF ok]]) simp_all
  then have t: "tree_ok TMP_INODE (store_tree s')" by (rule tree_ok_perm) (simp add: view)
  have "node_ok (node_new i p c ft)" using n(3) store_okD(5)[OF ok] f(5)
    by (simp add: node_ok_def node_new_def)
  moreover have "wn_inode m < ws_next_inode s'" if "m \<in> set (ws_nodes s)" for m
    using store_okD(3)[OF ok that] lt by simp
  moreover have "FIRST_WRITABLE_INODE \<le> ws_next_inode s'" using store_okD(5)[OF ok] lt by simp
  moreover have "wn_inode (node_new i p c ft) = ws_next_inode s" using f(5) by (simp add: node_new_def)
  ultimately show ?thesis
    using t store_okD(2,4)[OF ok] f(4) lt unfolding store_ok_def f(7) by auto
qed

lemma modify_inode_split:
  assumes "find_inode s i = Some n"
  obtains us vs where "ws_nodes s = us @ n # vs" "ws_nodes (modify_inode i f s) = us @ f n # vs"
  using update_first_split[of "\<lambda>n. wn_inode n = i" "ws_nodes s" n f] assms that
  by (auto simp: find_inode_def modify_inode_def)

lemma store_write_InrD:
  assumes "store_write i offset source s = (Inr cnt, s')"
  obtains n where "find_inode s i = Some n" "wn_file_type n = File" "offset + length source \<le> length (wn_data n)"
    "cnt = length source"
    "s' = modify_inode i (\<lambda>n. n\<lparr>wn_data := splice offset source (wn_data n),
       wn_len := max (wn_len n) (offset + length source)\<rparr>) s"
  using assms that by (auto simp: store_write_def Let_def split: option.splits if_splits)

lemma store_write_InlD: "store_write i offset source s = (Inl e, s') \<Longrightarrow> s' = s"
  by (auto simp: store_write_def Let_def split: option.splits if_splits)

lemma drop_splice:
  "at + length src \<le> k \<Longrightarrow> at + length src \<le> length dst \<Longrightarrow> drop k (splice at src dst) = drop k dst"
  by (simp add: splice_def)

lemma node_ok_write:
  assumes "node_ok n" and "offset + length source \<le> length (wn_data n)"
  shows "node_ok (n\<lparr>wn_data := splice offset source (wn_data n), wn_len := max (wn_len n) (offset + length source)\<rparr>)"
proof -
  let ?l = "max (wn_len n) (offset + length source)"
  have "drop ?l (splice offset source (wn_data n)) = drop (?l - wn_len n) (drop (wn_len n) (wn_data n))"
    using assms(2) by (simp add: drop_splice)
  also have "\<dots> = replicate (MAX_FILE_SIZE - ?l) 0" using assms by (simp add: node_ok_def)
  finally show ?thesis using assms by (simp add: node_ok_def)
qed

lemma store_ok_write:
  assumes ok: "store_ok s" and w: "store_write i offset source s = (r, s')"
  shows "store_ok s'"
proof (cases r)
  case (Inl e)
  then have "s' = s" using w store_write_InlD by simp
  with ok show ?thesis by simp
next
  case (Inr cnt)
  let ?f = "\<lambda>n. n\<lparr>wn_data := splice offset source (wn_data n), wn_len := max (wn_len n) (offset + length source)\<rparr>"
  from w Inr have "store_write i offset source s = (Inr cnt, s')" by simp
  then obtain n where n: "find_inode s i = Some n" "offset + length source \<le> length (wn_data n)"
    "s' = modify_inode i ?f s" by (rule store_write_InrD)
  obtain us vs where "ws_nodes s = us @ n # vs" "ws_nodes (modify_inode i ?f s) = us @ ?f n # vs"
    by (rule modify_inode_split[OF n(1), of ?f])
  then have s: "ws_nodes s = us @ n # vs" "ws_nodes s' = us @ ?f n # vs" using n(3) by simp_all
  have "node_name (?f n) = node_name n" by (simp add: node_name_def)
  then have "store_tree s' = store_tree s" using s by (simp add: store_tree_def node_view_def)
  moreover have "node_ok (?f n)" using node_ok_write[OF store_okD(2)[OF ok, of n] n(2)] s(1) by simp
  moreover have "ws_next_inode s' = ws_next_inode s" using n(3) by (simp add: modify_inode_def)
  ultimately show ?thesis using ok s unfolding store_ok_def by simp
qed

lemma store_remove_InrD:
  assumes "store_remove_path path ft s = (Inr i, s')"
  obtains n where "store_resolve_path s path = Some i" "i \<noteq> TMP_INODE" "find_inode s i = Some n"
    "wn_file_type n = ft" "ft = Directory \<longrightarrow> (\<forall>m\<in>set (ws_nodes s). wn_parent m \<noteq> i)"
    "s' = s\<lparr>ws_nodes := remove_first (\<lambda>m. wn_inode m = i) (ws_nodes s)\<rparr>"
proof -
  from assms obtain inode n where *: "store_resolve_path s path = Some inode" "inode \<noteq> TMP_INODE"
    "find_inode s inode = Some n" "wn_file_type n = ft" "i = wn_inode n"
    "\<not> (ft = Directory \<and> list_ex (\<lambda>m. wn_parent m = inode) (ws_nodes s))"
    "s' = s\<lparr>ws_nodes := remove_first (\<lambda>m. wn_inode m = inode) (ws_nodes s)\<rparr>"
    by (auto simp: store_remove_path_def split: option.splits if_splits)
  have "wn_inode n = inode" using *(3) find_SomeD[of _ "ws_nodes s" n] by (auto simp: find_inode_def)
  with * show ?thesis by (intro that) (auto simp: list_ex_iff)
qed

lemma store_remove_InlD: "store_remove_path path ft s = (Inl e, s') \<Longrightarrow> s' = s"
  by (auto simp: store_remove_path_def split: option.splits if_splits)

text \<open>A file has no children: every parent is a directory.\<close>

lemma removed_is_leaf:
  assumes ok: "store_ok s" and n: "find_inode s i = Some n"
    and leaf: "wn_file_type n = Directory \<Longrightarrow> \<forall>m\<in>set (ws_nodes s). wn_parent m \<noteq> i"
  shows "\<forall>y\<in>set (store_tree s). tn_parent y \<noteq> i"
proof (cases "wn_file_type n")
  case File
  have i: "n \<in> set (ws_nodes s)" "wn_inode n = i" using n find_inode_eq[OF ok] by auto
  show ?thesis
  proof
    fix y assume y: "y \<in> set (store_tree s)"
    show "tn_parent y \<noteq> i"
    proof
      assume "tn_parent y = i"
      moreover have "i \<noteq> TMP_INODE" using writable_not_tmp store_okD(2)[OF ok] i by blast
      ultimately obtain m where "m \<in> set (ws_nodes s)" "wn_inode m = i" "wn_file_type m = Directory"
        using tree_okD(5)[OF store_okD(1)[OF ok] y] by (auto simp: store_tree_def)
      then show False using File n find_inode_eq[OF ok, of i m] by simp
    qed
  qed
qed (use leaf in \<open>simp add: store_tree_def\<close>)

lemma store_remove_effect:
  assumes ok: "store_ok s" and r: "store_remove_path path ft s = (Inr i, s')"
  obtains x where "store_ok s'" "mset (store_tree s) = add_mset x (mset (store_tree s'))" "tn_inode x = i"
    "\<forall>y\<in>set (store_tree s). tn_parent y \<noteq> i" "store_resolve_path s path = Some i"
proof -
  from r obtain n where n: "store_resolve_path s path = Some i" "find_inode s i = Some n" "wn_file_type n = ft"
    "ft = Directory \<longrightarrow> (\<forall>m\<in>set (ws_nodes s). wn_parent m \<noteq> i)"
    "s' = s\<lparr>ws_nodes := remove_first (\<lambda>m. wn_inode m = i) (ws_nodes s)\<rparr>"
    by (rule store_remove_InrD)
  obtain us vs where s: "ws_nodes s = us @ n # vs" "ws_nodes s' = us @ vs"
    using remove_first_split[of "\<lambda>m. wn_inode m = i" "ws_nodes s" n] n by (auto simp: find_inode_def)
  have leaf: "\<forall>y\<in>set (store_tree s). tn_parent y \<noteq> i" using removed_is_leaf[OF ok n(2)] n(3,4) by blast
  have m: "mset (store_tree s) = mset (node_view n # store_tree s')" using s by (simp add: store_tree_def)
  have i: "wn_inode n = i" using n(2) find_inode_eq[OF ok] by auto
  have e: "set (store_tree s) = set (node_view n # store_tree s')" using mset_eq_setD[OF m] .
  have t: "tree_ok TMP_INODE (node_view n # store_tree s')" by (rule tree_ok_perm[OF store_okD(1)[OF ok] m])
  have "\<forall>y\<in>set (node_view n # store_tree s'). tn_parent y \<noteq> tn_inode (node_view n)"
    unfolding e[symmetric] using leaf i by simp
  then have "tree_ok TMP_INODE (store_tree s')" by (rule tree_ok_remove[OF t])
  moreover have "set (ws_nodes s') \<subseteq> set (ws_nodes s)" "length (ws_nodes s') \<le> length (ws_nodes s)"
    "ws_next_inode s' = ws_next_inode s"
    using s n(5) by auto
  ultimately have "store_ok s'" using ok unfolding store_ok_def by auto
  with m i leaf n(1) show ?thesis by (intro that[of "node_view n"]) simp_all
qed

section \<open>Renaming\<close>

text \<open>The climb of \<^verbatim>\<open>is_descendant\<close> returns on a well-formed store.\<close>

lemma is_descendant_returns:
  assumes "store_ok s" and "store_resolve_path s path = Some p" and "a \<noteq> TMP_INODE"
  shows "is_descendant s p a = Some (rooted (store_tree s) a p)"
  unfolding is_descendant_def using assms(2) tmp_store.climb_returns[OF assms(1) _ assms(3)]
  by (rule resolve_SomeD) auto

abbreviation renamed :: "u64 \<Rightarrow> bytes \<Rightarrow> writable_node \<Rightarrow> writable_node" where
  "renamed p c \<equiv> \<lambda>n. n\<lparr>wn_parent := p, wn_name_bytes := splice 0 c (replicate (length (wn_name_bytes n)) 0),
     wn_name_len := length c\<rparr>"

lemma store_rename_cases:
  assumes ok: "store_ok s"
  obtains e where "store_rename old new s = Some (Inl e, s)"
  | i pp c p n where "store_rename old new s = Some (Inr i, modify_inode i (renamed p c) s)"
    "store_resolve_path s old = Some i" "i \<noteq> TMP_INODE" "tmp_split_parent_name new = Inr (pp, c)"
    "store_resolve_path s pp = Some p" "is_store_directory s p" "store_child s p c = None"
    "\<not> rooted (store_tree s) i p" "find_inode s i = Some n"
proof (cases "\<exists>e. store_rename old new s = Some (Inl e, s)")
  case False
  from False obtain i where i: "store_resolve_path s old = Some i" "i \<noteq> TMP_INODE"
    by (cases "store_resolve_path s old") (auto simp: store_rename_def split: if_splits)
  from False i obtain pp c where c: "tmp_split_parent_name new = Inr (pp, c)"
    by (cases "tmp_split_parent_name new") (auto simp: store_rename_def)
  from False i c obtain p where p: "store_resolve_path s pp = Some p"
    by (cases "store_resolve_path s pp") (auto simp: store_rename_def)
  from False i c p have d: "is_store_directory s p" "store_child s p c = None"
    by (auto simp: store_rename_def split: if_splits)
  have k: "is_descendant s p i = Some (rooted (store_tree s) i p)" by (rule is_descendant_returns[OF ok p i(2)])
  from False i c p d k have r: "\<not> rooted (store_tree s) i p" by (auto simp: store_rename_def)
  from False i c p d k r obtain n where n: "find_inode s i = Some n"
    by (cases "find_inode s i") (auto simp: store_rename_def)
  then have "wn_inode n = i" using find_inode_eq[OF ok] by auto
  then have "store_rename old new s = Some (Inr i, modify_inode i (renamed p c) s)"
    using i c p d k r n by (simp add: store_rename_def)
  then show ?thesis by (rule that(2)[OF _ i c p d r n])
next
  case True
  then obtain e where "store_rename old new s = Some (Inl e, s)" ..
  then show ?thesis by (rule that(1))
qed

lemma store_rename_effect:
  assumes ok: "store_ok s" and v: "utf8_valid new"
    and r: "store_rename old new s = Some (Inr i, s')"
  obtains x ns p pp c where "store_ok s'" "mset (store_tree s) = mset (x # ns)" "tn_inode x = i"
    "mset (store_tree s') = mset (move p c x # ns)" "movable TMP_INODE x ns p c"
    "store_resolve_path s old = Some i" "store_resolve_path s pp = Some p" "new = pp @ SLASH # c" "SLASH \<notin> set c"
proof -
  from ok obtain pp c p n where
    f: "s' = modify_inode i (renamed p c) s" "store_resolve_path s old = Some i"
      "tmp_split_parent_name new = Inr (pp, c)" "store_resolve_path s pp = Some p" "is_store_directory s p"
      "store_child s p c = None" "\<not> rooted (store_tree s) i p" "find_inode s i = Some n"
  proof (cases rule: store_rename_cases[where old = old and new = new])
    case (1 e)
    with r show ?thesis by simp
  next
    case (2 j pp c p n)
    from 2(1) r have j: "j = i" by simp
    moreover from 2(1) r have "s' = modify_inode i (renamed p c) s" unfolding j by simp
    ultimately show ?thesis using 2 by (intro that[where pp = pp and c = c and p = p and n = n]) simp_all
  qed
  note c = tmp_split_InrD[OF f(3) v]
  have i: "wn_inode n = i" "n \<in> set (ws_nodes s)" using f(8) find_inode_eq[OF ok] by auto
  obtain us vs where "ws_nodes s = us @ n # vs" "ws_nodes (modify_inode i (renamed p c) s) = us @ renamed p c n # vs"
    by (rule modify_inode_split[OF f(8)])
  then have s: "ws_nodes s = us @ n # vs" "ws_nodes s' = us @ renamed p c n # vs" using f(1) by simp_all
  have "length (wn_name_bytes n) = MAX_FILE_NAME_LEN" using store_okD(2)[OF ok i(2)] by (simp add: node_ok_def)
  then have name: "node_name (renamed p c n) = c" using c(1,3) by (simp add: node_name_def splice_def Let_def)
  then have view: "node_view (renamed p c n) = move p c (node_view n)" by (simp add: node_view_def move_def)
  let ?ns = "map node_view (us @ vs)"
  have m: "mset (store_tree s) = mset (node_view n # ?ns)" using s by (simp add: store_tree_def)
  have m': "mset (store_tree s') = mset (move p c (node_view n) # ?ns)" using s view by (simp add: store_tree_def)
  have t: "tree_ok TMP_INODE (node_view n # ?ns)" by (rule tree_ok_perm[OF store_okD(1)[OF ok] m])
  have e: "set (node_view n # ?ns) = set (store_tree s)" using mset_eq_setD[OF m] by simp
  have "tree_child (node_view n # ?ns) p c = None"
  proof -
    have "tree_child (store_tree s) p c = None" using f(6) store_child_tree[of s p c] by simp
    then show ?thesis using tree_child_iff[OF t, of p c] tree_child_iff[OF store_okD(1)[OF ok], of p c]
      unfolding e by (metis not_Some_eq)
  qed
  moreover have "tree_dir TMP_INODE (node_view n # ?ns) p"
    using f(5) is_store_directory_tree[OF ok] unfolding tree_dir_def e by simp
  moreover have "\<not> rooted (node_view n # ?ns) (tn_inode (node_view n)) p"
    using f(7) i rooted_cong[OF e] by simp
  ultimately have mv: "movable TMP_INODE (node_view n) ?ns p c" using t c(2) unfolding movable_def by blast
  have "tree_ok TMP_INODE (store_tree s')" by (rule tree_ok_perm[OF tree_ok_move[OF mv] m'[symmetric]])
  moreover have "node_ok (renamed p c n)" using store_okD(2)[OF ok i(2)] c(3) by (simp add: node_ok_def)
  moreover have "ws_next_inode s' = ws_next_inode s" using f(1) by (simp add: modify_inode_def)
  ultimately have "store_ok s'" using ok s unfolding store_ok_def by simp
  with m m' mv i f c show ?thesis by (intro that[of "node_view n" ?ns p c pp]) simp_all
qed

section \<open>Reachable stores\<close>

text \<open>The stores the operations of the backend produce, one call after the other.\<close>

inductive store_reachable :: "writable_store \<Rightarrow> bool" where
  reach_new: "store_reachable store_new"
| reach_create: "store_reachable s \<Longrightarrow> utf8_valid path \<Longrightarrow> store_reachable (snd (store_create path ft s))"
| reach_write: "store_reachable s \<Longrightarrow> store_reachable (snd (store_write inode offset source s))"
| reach_remove: "store_reachable s \<Longrightarrow> store_reachable (snd (store_remove_path path ft s))"
| reach_rename: "store_reachable s \<Longrightarrow> utf8_valid new \<Longrightarrow> store_rename old new s = Some (r, s') \<Longrightarrow> store_reachable s'"

lemma store_ok_remove:
  assumes "store_ok s"
  shows "store_ok (snd (store_remove_path path ft s))"
proof (cases "store_remove_path path ft s")
  case (Pair r s')
  show ?thesis
  proof (cases r)
    case (Inl e)
    then show ?thesis using Pair store_remove_InlD[of path ft s e s'] assms by simp
  next
    case (Inr i)
    then have "store_remove_path path ft s = (Inr i, s')" using Pair by simp
    from store_remove_effect[OF assms this] have "store_ok s'" .
    then show ?thesis using Pair by simp
  qed
qed

lemma store_ok_rename:
  assumes "store_ok s" and "utf8_valid new" and r: "store_rename old new s = Some (r, s')"
  shows "store_ok s'"
proof (cases r)
  case (Inr i)
  with r have "store_rename old new s = Some (Inr i, s')" by simp
  from store_rename_effect[OF assms(1,2) this] show ?thesis .
next
  case (Inl e)
  have "s' = s"
    by (rule store_rename_cases[OF assms(1), of old new]) (use r Inl in auto)
  with assms(1) show ?thesis by simp
qed

lemma reachable_ok: "store_reachable s \<Longrightarrow> store_ok s"
proof (induction rule: store_reachable.induct)
  case (reach_create s path ft)
  then show ?case using store_ok_create[of s path ft] by (metis prod.collapse)
next
  case (reach_write s inode offset source)
  then show ?case using store_ok_write[of s inode offset source] by (metis prod.collapse)
qed (simp_all add: store_new_ok store_ok_remove store_ok_rename)

text \<open>
  C25: renaming always returns.  In every store the backend can reach, the loop that climbs from the
  new parent to the root ends, so \<^verbatim>\<open>rename\<close> returns a result for all paths, and the store is again a
  tree: no directory is ever moved below itself.
\<close>

theorem rename_returns:
  assumes "store_reachable s" and "utf8_valid new"
  shows "\<exists>r s'. store_rename old new s = Some (r, s') \<and> tree_ok TMP_INODE (store_tree s')"
proof -
  note ok = reachable_ok[OF assms(1)]
  obtain r s' where r: "store_rename old new s = Some (r, s')"
    by (rule store_rename_cases[OF ok, of old new]) blast+
  from store_okD(1)[OF store_ok_rename[OF ok assms(2) r]] r show ?thesis by blast
qed

text \<open>
  C26: renaming moves a subtree.  When a rename succeeds, the paths below the new name lead where
  the paths below the old name led, nothing is left at the old name, and every other path leads
  where it led before.
\<close>

theorem rename_moves_subtree:
  assumes ok: "store_ok s" and v: "utf8_valid (tmp_path (qs @ [c]))" and f: "slash_free (c # qs @ old)"
    and r: "store_rename (tmp_path old) (tmp_path (qs @ [c])) s = Some (Inr i, s')"
  shows "store_lookup s' ds =
    (if prefix (qs @ [c]) ds then store_lookup s (old @ drop (length (qs @ [c])) ds)
     else if prefix old ds then None else store_lookup s ds)"
proof -
  have sf: "slash_free old" "slash_free qs" "SLASH \<notin> set c" using f by (simp_all add: slash_free_def)
  from store_rename_effect[OF ok v r] obtain x ns p pp d where
    e: "store_ok s'" "mset (store_tree s) = mset (x # ns)" "tn_inode x = i"
      "mset (store_tree s') = mset (move p d x # ns)" "movable TMP_INODE x ns p d"
      "store_resolve_path s (tmp_path old) = Some i" "store_resolve_path s pp = Some p"
      "tmp_path (qs @ [c]) = pp @ SLASH # d" "SLASH \<notin> set d" .
  have "tmp_path qs @ SLASH # c = pp @ SLASH # d" using e(8) by (simp add: tmp_path_def)
  then have "pp = tmp_path qs \<and> d = c"
    using e(9) sf(3) rfind_last[of SLASH c "tmp_path qs"] rfind_last[of SLASH d pp]
    by (metis append_eq_append_conv option.inject list.inject)
  then have "store_lookup s qs = Some p" "store_lookup s old = Some (tn_inode x)" "d = c"
    using e resolve_tmp_path sf by simp_all
  with tmp_store.lookup_move[OF ok e(1,2,4,5)] show ?thesis by simp
qed

section \<open>Creation, removal and the contents of files\<close>

text \<open>
  C27: creating a node binds exactly one path.  The path was free, the inode number is new, and path
  resolution changes at that path and nowhere else; removing a node unbinds exactly its path.
\<close>

theorem create_remove_bind_one_path:
  assumes ok: "store_ok s" and v: "utf8_valid (tmp_path cs)" and f: "slash_free cs"
  shows "(store_create (tmp_path cs) ft s = (Inr i, s') \<longrightarrow>
      store_lookup s cs = None \<and> (\<forall>ds. store_lookup s ds \<noteq> Some i) \<and> store_lookup s' = (store_lookup s)(cs \<mapsto> i)) \<and>
    (store_remove_path (tmp_path cs) ft s = (Inr i, s') \<longrightarrow>
      store_lookup s cs = Some i \<and> store_lookup s' = (store_lookup s)(cs := None))"
proof (intro conjI impI)
  assume c: "store_create (tmp_path cs) ft s = (Inr i, s')"
  then obtain pp c p where e: "tmp_split_parent_name (tmp_path cs) = Inr (pp, c)"
    "store_resolve_path s pp = Some p" "store_child s p c = None" "i = ws_next_inode s"
    "ws_nodes s' = ws_nodes s @ [node_new i p c ft]"
    by (rule store_create_InrD)
  note n = tmp_split_InrD[OF e(1) v]
  from e(2) obtain qs where q: "pp = tmp_path qs" "slash_free qs" "store_lookup s qs = Some p"
    by (rule resolve_SomeD)
  have "join cs = join (qs @ [c])" using n(5) q(1) by (simp add: tmp_path_def)
  then have cs: "cs = qs @ [c]"
    using split_join[of "[]" cs] split_join[of "[]" "qs @ [c]"] f q(2) n(4) by (simp add: slash_free_def)
  have view: "mset (store_tree s') = add_mset \<lparr>tn_inode = i, tn_parent = p, tn_name = c, tn_type = ft\<rparr> (mset (store_tree s))"
    using e(5) n by (simp add: store_tree_def node_new_view)
  have fresh: "tree_walk (store_tree s) TMP_INODE ds \<noteq> Some i" for ds
  proof
    assume "tree_walk (store_tree s) TMP_INODE ds = Some i"
    from walk_range[OF store_okD(1)[OF ok] this] show False
      using store_okD(3,5)[OF ok] e(4)
      by (fastforce simp: store_tree_def FIRST_WRITABLE_INODE_def TMP_INODE_def)
  qed
  then show "\<forall>ds. store_lookup s ds \<noteq> Some i" using tmp_store.lookup[OF ok] by simp
  show "store_lookup s' = (store_lookup s)(cs \<mapsto> i)"
    using tmp_store.lookup_insert[OF ok store_ok_create[OF ok v c] view] q(3) cs by simp
  have "tree_child (store_tree s) p c = None" using e(3) store_child_tree[of s p c] by simp
  then show "store_lookup s cs = None"
    using q(3) unfolding cs tmp_store.lookup[OF ok] by (simp add: walk_append)
next
  assume "store_remove_path (tmp_path cs) ft s = (Inr i, s')"
  with ok obtain x where x: "store_ok s'" "mset (store_tree s) = add_mset x (mset (store_tree s'))" "tn_inode x = i"
    "\<forall>y\<in>set (store_tree s). tn_parent y \<noteq> i" "store_resolve_path s (tmp_path cs) = Some i"
    by (rule store_remove_effect)
  then show l: "store_lookup s cs = Some i" using resolve_tmp_path[OF f] by simp
  show "store_lookup s' = (store_lookup s)(cs := None)"
    using tmp_store.lookup_remove[OF ok x(1,2)] x(3,4) l by simp
qed

definition file_content :: "writable_store \<Rightarrow> u64 \<Rightarrow> bytes option" where
  "file_content s i =
     (case find_inode s i of
        None \<Rightarrow> None
      | Some n \<Rightarrow> (if wn_file_type n = File then Some (take (wn_len n) (wn_data n)) else None))"

text \<open>Overwriting bytes of a file; a gap in front of them is filled with zeros.\<close>

definition overwrite :: "nat \<Rightarrow> bytes \<Rightarrow> bytes \<Rightarrow> bytes" where
  "overwrite offset source c =
     take offset (c @ replicate (offset - length c) 0) @ source @ drop (offset + length source) c"

lemma take_splice_overwrite:
  assumes l: "len \<le> length data" "offset + length source \<le> length data"
    and z: "drop len data = replicate (length data - len) 0"
  shows "take (max len (offset + length source)) (splice offset source data) = overwrite offset source (take len data)"
proof -
  let ?e = "offset + length source"
  have t: "take offset (take len data @ replicate (offset - length (take len data)) 0) = take offset data"
  proof (cases "offset \<le> len")
    case False
    then have "take offset data = take len data @ take (offset - len) (drop len data)"
      using take_add[of len "offset - len" data] by simp
    also have "\<dots> = take len data @ replicate (offset - len) 0" using z l by simp
    finally show ?thesis using False l by simp
  qed (use l in simp)
  have a: "take (offset + (length source + k)) (splice offset source data) = take offset data @ source @ take k (drop ?e data)" for k
    using l by (simp add: splice_def)
  have "max len ?e = offset + (length source + (len - ?e))" by linarith
  then show ?thesis unfolding overwrite_def t using a[of "len - ?e"] by (simp add: drop_take)
qed

text \<open>
  C28: files keep what is written.  A successful write replaces exactly the written bytes of that
  file, zero-filling a gap, and changes no other file; a read returns the bytes of the file from the
  offset on, as many as there are and fit, and leaves the rest of the buffer alone.
\<close>

theorem write_then_read:
  assumes ok: "store_ok s" and u: "static_by_inode u i = None"
    and w: "store_write i offset source s = (Inr cnt, s')"
  shows "\<exists>c. file_content s i = Some c \<and> cnt = length source \<and>
    file_content s' i = Some (overwrite offset source c) \<and> (\<forall>j. j \<noteq> i \<longrightarrow> file_content s' j = file_content s j) \<and>
    ramfs_read u s' i at out =
      (let bs = take (length out) (drop at (overwrite offset source c)) in (Inr (length bs), bs @ drop (length bs) out))"
proof -
  let ?f = "\<lambda>n. n\<lparr>wn_data := splice offset source (wn_data n), wn_len := max (wn_len n) (offset + length source)\<rparr>"
  from w obtain n where n: "find_inode s i = Some n" "wn_file_type n = File" "offset + length source \<le> length (wn_data n)"
    "cnt = length source" "s' = modify_inode i ?f s" by (rule store_write_InrD)
  let ?c = "overwrite offset source (take (wn_len n) (wn_data n))"
  have nok: "node_ok n" using n(1) find_inode_eq[OF ok] store_okD(2)[OF ok] by blast
  then have c: "take (wn_len (?f n)) (wn_data (?f n)) = ?c"
    using take_splice_overwrite[of "wn_len n" "wn_data n"] n(3) by (simp add: node_ok_def)
  have find: "find_inode s' j = (if j = i then map_option ?f (find_inode s i) else find_inode s j)" for j
    unfolding n(5) modify_inode_def find_inode_def by (simp add: find_key_update_first)
  have "wn_len (?f n) \<le> length (wn_data (?f n))" using node_ok_write[OF nok n(3)] by (simp add: node_ok_def)
  from copy_out_eq[OF this, of at out, unfolded c]
  have "ramfs_read u s' i at out =
      (let bs = take (length out) (drop at ?c) in (Inr (length bs), bs @ drop (length bs) out))"
    using n(1,2) u find by (simp add: ramfs_read_def Let_def)
  then show ?thesis
    using n c find by (simp add: file_content_def)
qed

section \<open>Examples\<close>

definition example_store :: "file_type \<Rightarrow> writable_store" where
  "example_store ft = snd (store_create (tmp_path [str ''a'']) ft store_new)"

lemma example_store_eq:
  "store_create (tmp_path [str ''a'']) ft store_new =
   (Inr 10000, \<lparr>ws_nodes = [node_new 10000 TMP_INODE (str ''a'') ft], ws_next_inode = 10001\<rparr>)"
proof -
  have "tmp_split_parent_name (tmp_path ([] @ [str ''a''])) = Inr (tmp_path [], str ''a'')"
    by (rule tmp_split_join) (simp_all add: str_def MAX_FILE_NAME_LEN_def)
  moreover have "store_resolve_path store_new (tmp_path []) = Some TMP_INODE"
    by (simp add: resolve_tmp_path slash_free_def store_lookup_def)
  moreover have "checked_add 10000 (1 :: u64) = Some 10001" by (simp add: checked_add_def)
  ultimately show ?thesis
    by (simp add: store_create_def is_store_directory_def store_child_def store_new_def
        MAX_WRITABLE_NODES_def FIRST_WRITABLE_INODE_def)
qed

lemma example_store_valid: "utf8_valid (tmp_path [str ''a''])" "utf8_valid (tmp_path [str ''b''])"
  by (simp_all add: tmp_path_def str_def utf8_valid_def)

lemma example_store_ok: "store_ok (example_store ft)" "store_reachable (example_store ft)"
proof -
  show r: "store_reachable (example_store ft)"
    unfolding example_store_def by (rule reach_create[OF reach_new example_store_valid(1)])
  show "store_ok (example_store ft)" by (rule reachable_ok[OF r])
qed

lemma example_lookup: "store_lookup (example_store ft) [str ''a''] = Some 10000"
  unfolding example_store_def example_store_eq
  by (simp add: store_lookup_def store_child_def node_name_new) (simp add: node_new_def str_def utf8_valid_def node_name_def splice_def MAX_FILE_NAME_LEN_def Let_def)

theorem rename_returns_witness:
  "\<exists>r s'. store_rename (tmp_path [str ''a'']) (tmp_path [str ''b'']) (example_store Directory) = Some (r, s') \<and>
     tree_ok TMP_INODE (store_tree s')"
  by (rule rename_returns[OF example_store_ok(2) example_store_valid(2)])

lemma example_rename:
  "map_option fst (store_rename (tmp_path [str ''a'']) (tmp_path [str ''b'']) (example_store Directory)) = Some (Inr 10000)"
proof -
  have n: "node_name (node_new 10000 TMP_INODE (str ''a'') Directory) = str ''a''"
    by (rule node_name_new) (simp_all add: str_def utf8_valid_def MAX_FILE_NAME_LEN_def)
  have "store_resolve_path (example_store Directory) (tmp_path [str ''a'']) = Some 10000"
    using resolve_tmp_path[of "[str ''a'']"] example_lookup by (simp add: slash_free_def str_def)
  moreover have "store_resolve_path (example_store Directory) (tmp_path []) = Some TMP_INODE"
    by (simp add: resolve_tmp_path slash_free_def store_lookup_def)
  moreover have "tmp_split_parent_name (tmp_path ([] @ [str ''b''])) = Inr (tmp_path [], str ''b'')"
    by (rule tmp_split_join) (simp_all add: str_def MAX_FILE_NAME_LEN_def)
  moreover have "store_child (example_store Directory) TMP_INODE (str ''b'') = None"
    unfolding example_store_def example_store_eq using n by (simp add: store_child_def) (simp add: str_def)
  moreover have "is_descendant (example_store Directory) TMP_INODE 10000 = Some False"
    unfolding is_descendant_def by (subst climb.simps) simp
  moreover have "find_inode (example_store Directory) 10000 = Some (node_new 10000 TMP_INODE (str ''a'') Directory)"
    unfolding example_store_def example_store_eq by (simp add: find_inode_def node_new_def)
  ultimately show ?thesis
    by (simp add: store_rename_def is_store_directory_def TMP_INODE_def) (simp add: node_new_def)
qed

theorem rename_moves_subtree_witness:
  "\<exists>i s'. store_rename (tmp_path [str ''a'']) (tmp_path [str ''b'']) (example_store Directory) = Some (Inr i, s') \<and>
     store_lookup s' [str ''b''] = Some 10000 \<and> store_lookup s' [str ''a''] = None"
proof -
  obtain s' where r: "store_rename (tmp_path [str ''a'']) (tmp_path ([] @ [str ''b''])) (example_store Directory) = Some (Inr 10000, s')"
    using example_rename by auto
  have f: "slash_free (str ''b'' # [] @ [str ''a''])" by (simp add: slash_free_def str_def)
  have v: "utf8_valid (tmp_path ([] @ [str ''b'']))" using example_store_valid by simp
  note m = rename_moves_subtree[OF example_store_ok(1) v f r]
  have ne: "str ''a'' \<noteq> str ''b''" by (simp add: str_def)
  from m[of "[str ''b'']"] m[of "[str ''a'']"] r example_lookup ne show ?thesis by simp
qed

theorem create_remove_bind_one_path_witness:
  "store_lookup (example_store File) = (store_lookup store_new)([str ''a''] \<mapsto> 10000)"
proof -
  have f: "slash_free [str ''a'']" by (simp add: slash_free_def str_def)
  have c: "store_create (tmp_path [str ''a'']) File store_new = (Inr 10000, example_store File)"
    by (simp add: example_store_def example_store_eq)
  from create_remove_bind_one_path[OF store_new_ok example_store_valid(1) f, of File 10000 "example_store File"] c
  show ?thesis by blast
qed

theorem write_then_read_witness:
  "\<exists>s'. store_write 10000 3 [1, 2] (example_store File) = (Inr 2, s') \<and>
     ramfs_read \<lparr>ul_images = [], ul_names = []\<rparr> s' 10000 2 [9, 9, 9, 9] = (Inr 3, [0, 1, 2, 9])"
proof -
  let ?u = "\<lparr>ul_images = [], ul_names = []\<rparr>"
  have s: "static_by_inode ?u 10000 = None" by (simp add: static_by_inode_def FILES_def)
  have n: "find_inode (example_store File) 10000 = Some (node_new 10000 TMP_INODE (str ''a'') File)"
    unfolding example_store_def example_store_eq by (simp add: find_inode_def node_new_def)
  then have "fst (store_write 10000 3 [1, 2] (example_store File)) = Inr 2"
    by (simp add: store_write_def node_new_def MAX_FILE_SIZE_def)
  then obtain s' where w: "store_write 10000 3 [1, 2] (example_store File) = (Inr 2, s')" by (metis prod.collapse)
  have "file_content (example_store File) 10000 = Some []" using n by (simp add: file_content_def node_new_def)
  with write_then_read[OF example_store_ok(1) s w, of 2 "[9, 9, 9, 9]"] w show ?thesis
    by (simp add: overwrite_def numeral_eq_Suc Let_def)
qed

end
