(* ===== verification/Process_Globals.thy ===== *)
theory Process_Globals
  imports Kernel_State Private_Space Text_Output Ramfs
begin

text \<open>
  The functions of \<^verbatim>\<open>kernel/src/user/process.rs\<close> that work on the global process table and the current user
  thread, with the descriptors and address spaces they release, and the queue of programs of
  \<^verbatim>\<open>kernel/src/user/program.rs\<close>.  A report that is only printed is a tuple of its fields.
\<close>

section \<open>The current user thread\<close>

definition set_current_user :: "pid option \<Rightarrow> tid option \<Rightarrow> kproc \<Rightarrow> kproc" where
  "set_current_user p t k =
     (let k = k\<lparr>k_current_process := p, k_current_thread := t,
                k_cur_pid := (case p of None \<Rightarrow> 0 | Some p \<Rightarrow> p), k_cur_tid := (case t of None \<Rightarrow> 0 | Some t \<Rightarrow> t)\<rparr>
      in if p = None then k\<lparr>k_preempt_pending := False\<rparr> else k)"

definition take_current_user :: "kproc \<Rightarrow> (pid \<times> tid) option \<times> kproc" where
  "take_current_user k =
     (case (k_current_process k, k_current_thread k) of (Some p, Some t) \<Rightarrow> Some (p, t) | _ \<Rightarrow> None,
      k\<lparr>k_current_process := None, k_current_thread := None, k_cur_pid := 0, k_cur_tid := 0, k_preempt_pending := False\<rparr>)"

definition current_process :: "kproc \<Rightarrow> process option" where
  "current_process k = (case k_current_process k of None \<Rightarrow> None | Some p \<Rightarrow> get_process k p)"

definition init_process_table :: "kproc \<Rightarrow> kproc" where
  "init_process_table k =
     (if k_processes k \<noteq> [] then k
      else let (p, k) = create_reserved_process_with_job_mode 0 None (str ''kernel'') (str ''kernel'') arg_empty Foreground
                          (as_kernel_placeholder 0) k
           in mark_ready p k)"

section \<open>Preemption by the timer\<close>

definition USER_PREEMPT_QUANTUM_TICKS :: u64 where "USER_PREEMPT_QUANTUM_TICKS = 10"

definition record_timer_preemption_check :: "u64 \<Rightarrow> kproc \<Rightarrow> kproc" where
  "record_timer_preemption_check now k =
     (let k = k\<lparr>k_preempt_checks := k_preempt_checks k + 1\<rparr>
      in if k_cur_pid k = 0 \<or> saturating_sub now (k_last_preempt_tick k) < USER_PREEMPT_QUANTUM_TICKS then k
         else k\<lparr>k_last_preempt_tick := now, k_preempt_requests := k_preempt_requests k + 1, k_preempt_pending := True\<rparr>)"

definition consume_timer_preempt_request_for_yield :: "kproc \<Rightarrow> bool \<times> kproc" where
  "consume_timer_preempt_request_for_yield k =
     (if k_preempt_pending k
      then (True, k\<lparr>k_preempt_pending := False, k_preempt_yields := k_preempt_yields k + 1\<rparr>) else (False, k))"

definition preempt_current_user :: "u64 \<Rightarrow> user_resume_context \<Rightarrow> kproc \<Rightarrow> scheduled_user_resume option \<times> kproc" where
  "preempt_current_user now ctx k =
     (if \<not> k_preempt_pending k \<or> k_cur_tid k = 0 then (None, k)
      else case preempt_running_thread now (k_cur_tid k) ctx k of
             (None, k) \<Rightarrow> (None, k)
           | (Some r, k) \<Rightarrow>
               (Some r,
                k\<lparr>k_current_process := Some (sur_pid r), k_current_thread := Some (sur_tid r), k_cur_pid := sur_pid r,
                  k_cur_tid := sur_tid r, k_preempt_pending := False, k_preempt_yields := k_preempt_yields k + 1\<rparr>))"

section \<open>Leaving the processor\<close>

definition mark_current_thread_exited :: "u64 \<Rightarrow> kproc \<Rightarrow> (pid \<times> tid) option \<times> kproc" where
  "mark_current_thread_exited now k =
     (case take_current_user k of
        (None, k) \<Rightarrow> (None, k)
      | (Some (p, t), k) \<Rightarrow>
          (case mark_thread_exited now t k of
             (None, k) \<Rightarrow> (None, set_current_user (Some p) (Some t) k)
           | (Some _, k) \<Rightarrow> (Some (p, t), k)))"

definition checkout_current_user_if_blocked ::
    "kproc \<Rightarrow> (pid \<times> tid \<times> bytes \<times> pid option \<times> tid option \<times> user_resume_context option) option \<times> kproc"
where
  "checkout_current_user_if_blocked k =
     (case (k_current_process k, k_current_thread k) of
        (Some p, Some t) \<Rightarrow>
          (case get_process k p of
             None \<Rightarrow> (None, k)
           | Some q \<Rightarrow>
          (case threads_get (p_threads q) t of
             None \<Rightarrow> (None, k)
           | Some th \<Rightarrow>
               if t_state th \<noteq> TBlocked then (None, k)
               else (Some (p, t, p_name q, p_waiting_for q, t_waiting_for th, t_resume_context th),
                     set_current_user None None k)))
      | _ \<Rightarrow> (None, k))"

definition checkout_current_user_if_yielded ::
    "u64 \<Rightarrow> user_resume_context \<Rightarrow> kproc \<Rightarrow> (pid \<times> bytes \<times> user_resume_context) option \<times> kproc"
where
  "checkout_current_user_if_yielded now ctx k =
     (case take_current_user k of
        (None, k) \<Rightarrow> (None, k)
      | (Some (p, t), k) \<Rightarrow>
          (case mark_thread_yielded now t ctx k of
             (False, k) \<Rightarrow> (None, set_current_user (Some p) (Some t) k)
           | (True, k) \<Rightarrow> (map_option (\<lambda>q. (p, p_name q, ctx)) (get_process k p), k)))"

definition schedule_user :: "u64 \<Rightarrow> kproc \<Rightarrow> scheduled_user_resume option \<times> kproc" where
  "schedule_user now k =
     (case schedule_next_ready_user now k of
        (None, k) \<Rightarrow> (None, k)
      | (Some r, k) \<Rightarrow> (Some r, set_current_user (Some (sur_pid r)) (Some (sur_tid r)) k))"

definition resume_parent :: "u64 \<Rightarrow> pid \<Rightarrow> pid \<Rightarrow> kproc \<Rightarrow> wait_resume option \<times> kproc" where
  "resume_parent now parent_pid child_pid k =
     (case resume_waiting_parent now parent_pid child_pid k of
        (None, k) \<Rightarrow> (None, k)
      | (Some r, k) \<Rightarrow>
          (Some r, set_current_user (Some parent_pid) (map_option main_tid (get_process k parent_pid)) k))"

definition checkout_current_user_for_signal_handler ::
    "u64 \<Rightarrow> u64 \<Rightarrow> u64 \<Rightarrow> user_resume_context \<Rightarrow> kproc \<Rightarrow> (pid \<times> tid) option \<times> kproc"
where
  "checkout_current_user_for_signal_handler now signal handler original k =
     (case (k_current_process k, k_current_thread k) of
        (Some p, Some t) \<Rightarrow>
          (case activate_running_signal_handler now p t signal handler original k of
             (False, k) \<Rightarrow> (None, k)
           | (True, k) \<Rightarrow> take_current_user k)
      | _ \<Rightarrow> (None, k))"

definition checkout_current_user_after_sigreturn :: "u64 \<Rightarrow> kproc \<Rightarrow> (pid \<times> tid) option \<times> kproc" where
  "checkout_current_user_after_sigreturn now k =
     (case (k_current_process k, k_current_thread k) of
        (Some p, Some t) \<Rightarrow>
          (case restore_signal_context now p t k of
             (False, k) \<Rightarrow> (None, k)
           | (True, k) \<Rightarrow> take_current_user k)
      | _ \<Rightarrow> (None, k))"

section \<open>Ending a process\<close>

definition release_frame :: "u64 option \<Rightarrow> kproc \<Rightarrow> kproc" where
  "release_frame f k = (case f of None \<Rightarrow> k | Some f \<Rightarrow> k\<lparr>k_mm := snd (release_prepared_p4_frame f (k_mm k))\<rparr>)"

definition mark_current_user_exited :: "u64 \<Rightarrow> u64 \<Rightarrow> 's ks \<Rightarrow> pid option \<times> 's ks" where
  "mark_current_user_exited now status s =
     (case take_current_user (ks_proc s) of
        (None, k) \<Rightarrow> (None, s\<lparr>ks_proc := k\<rparr>)
      | (Some (p, _), k) \<Rightarrow>
          let s = close_process_files p (s\<lparr>ks_proc := k\<rparr>);
              p4_frame = p4_frame_for k p;
              k = (mark_exited now p status k)\<lparr>k_last_exited := Some p\<rparr>
          in (Some p, s\<lparr>ks_proc := release_frame p4_frame k\<rparr>))"

definition user_terminate ::
    "u64 \<Rightarrow> pid \<Rightarrow> pid \<Rightarrow> u64 \<Rightarrow> 's ks \<Rightarrow> (signal_error + signal_termination_report) \<times> 's ks"
where
  "user_terminate now caller_pid target_pid status s =
     (case terminate_user_process now caller_pid target_pid status (ks_proc s) of
        (Inl e, k) \<Rightarrow> (Inl e, s\<lparr>ks_proc := k\<rparr>)
      | (Inr report, k) \<Rightarrow>
          let s = close_process_files target_pid (s\<lparr>ks_proc := k\<rparr>)
          in (Inr report, s\<lparr>ks_proc := release_frame (str_p4_frame report) k\<rparr>))"

definition user_send_signal ::
    "u64 \<Rightarrow> pid \<Rightarrow> pid \<Rightarrow> u64 \<Rightarrow> 's ks \<Rightarrow> (signal_error + signal_delivery) \<times> 's ks"
where
  "user_send_signal now caller_pid target_pid signal s =
     (case send_signal now caller_pid target_pid signal (ks_proc s) of
        (Inl e, k) \<Rightarrow> (Inl e, s\<lparr>ks_proc := k\<rparr>)
      | (Inr (Terminated report), k) \<Rightarrow>
          let s = close_process_files target_pid (s\<lparr>ks_proc := k\<rparr>)
          in (Inr (Terminated report), s\<lparr>ks_proc := release_frame (str_p4_frame report) k\<rparr>)
      | (Inr delivery, k) \<Rightarrow> (Inr delivery, s\<lparr>ks_proc := k\<rparr>))"

datatype user_fault_kind = FaultNull | FaultKernelSpace | FaultStackGuard | FaultUserRange | FaultOutsideUserRange

definition classify_user_fault :: "u64 \<Rightarrow> user_memory_layout \<Rightarrow> user_fault_kind" where
  "classify_user_fault addr layout =
     (if addr = 0 then FaultNull
      else if addr \<ge> 0xFFFF800000000000 then FaultKernelSpace
      else if addr \<ge> saturating_sub (l_stack_start layout) USER_STACK_GUARD_SIZE \<and> addr < l_stack_start layout then FaultStackGuard
      else if addr \<ge> l_program_start layout \<and> addr < l_program_end layout
           \<or> addr \<ge> l_stack_start layout \<and> addr < l_stack_top layout then FaultUserRange
      else FaultOutsideUserRange)"

text \<open>
  \<^verbatim>\<open>mark_current_user_fault\<close> and \<^verbatim>\<open>mark_current_user_exception\<close> end the process the same way; the first also
  classifies the address.
\<close>

definition end_faulting_user :: "u64 \<Rightarrow> u64 \<Rightarrow> 's ks \<Rightarrow> (pid \<times> process) option \<times> 's ks" where
  "end_faulting_user now status s =
     (case take_current_user (ks_proc s) of
        (None, k) \<Rightarrow> (None, s\<lparr>ks_proc := k\<rparr>)
      | (Some (p, _), k) \<Rightarrow>
          let s = close_process_files p (s\<lparr>ks_proc := k\<rparr>)
          in (case get_process k p of
                None \<Rightarrow> (None, s)
              | Some q \<Rightarrow>
                  (Some (p, q),
                   s\<lparr>ks_proc := release_frame (as_p4_frame (p_address_space q))
                                 ((mark_exited now p status k)\<lparr>k_last_exited := Some p\<rparr>)\<rparr>)))"

definition mark_current_user_fault ::
    "u64 \<Rightarrow> u64 \<Rightarrow> u64 \<Rightarrow> u64 \<Rightarrow> 's ks \<Rightarrow> (pid \<times> bytes \<times> u64 \<times> u64 \<times> user_fault_kind \<times> u64) option \<times> 's ks"
where
  "mark_current_user_fault now addr rip status s =
     (case end_faulting_user now status s of
        (r, s) \<Rightarrow>
          (map_option (\<lambda>(p, q). (p, p_name q, addr, rip, classify_user_fault addr (as_layout (p_address_space q)), status)) r, s))"

definition mark_current_user_exception ::
    "u64 \<Rightarrow> u64 \<Rightarrow> u64 \<Rightarrow> 's ks \<Rightarrow> (pid \<times> bytes \<times> u64 \<times> u64) option \<times> 's ks"
where
  "mark_current_user_exception now rip status s =
     (case end_faulting_user now status s of (r, s) \<Rightarrow> (map_option (\<lambda>(p, q). (p, p_name q, rip, status)) r, s))"

section \<open>Programs\<close>

definition default_arg_for :: "bytes \<Rightarrow> bytes" where
  "default_arg_for name = (if name = str ''cat'' then str ''/README'' else str ''/'')"

definition queue_program ::
    "userland_image \<Rightarrow> pid \<Rightarrow> pid option \<Rightarrow> user_program_arg \<Rightarrow> job_mode \<Rightarrow> 's ks \<Rightarrow> 's ks"
where
  "queue_program img p parent_pid arg jm s =
     s\<lparr>ks_pending := ks_pending s @
         [\<lparr>up_pid = p, up_parent_pid = parent_pid, up_name = img_name img, up_path = img_path img,
           up_entry = FIRST_USER_ENTRY, up_stack_top = FIRST_USER_STACK_TOP, up_arg = arg, up_job_mode = jm\<rparr>]\<rparr>"

definition request_path_with_arg_and_mode ::
    "userland \<Rightarrow> bytes \<Rightarrow> bytes option \<Rightarrow> job_mode \<Rightarrow> 's ks \<Rightarrow> (program_error + pid) \<times> 's ks"
where
  "request_path_with_arg_and_mode u path arg jm s =
     (case (case image_normalize_path u path of None \<Rightarrow> None | Some path \<Rightarrow> image_find u path) of
        None \<Rightarrow> (Inl ProgramNotFound, s)
      | Some img \<Rightarrow>
     (case arg_from_path (case arg of None \<Rightarrow> default_arg_for (img_name img) | Some a \<Rightarrow> a) of
        Inl e \<Rightarrow> (Inl e, s)
      | Inr a \<Rightarrow>
          let (p, k) = reserve_pid (ks_proc s);
              parent_pid = (case k_current_process k of None \<Rightarrow> Some 1 | Some c \<Rightarrow> Some c)
          in (Inr p, queue_program img p parent_pid a jm (s\<lparr>ks_proc := k\<rparr>))))"

definition request_boot_init :: "userland \<Rightarrow> 's ks \<Rightarrow> (program_error + pid) \<times> 's ks" where
  "request_boot_init u s =
     (case (case image_normalize_path u (str ''init'') of None \<Rightarrow> None | Some path \<Rightarrow> image_find u path) of
        None \<Rightarrow> (Inl ProgramNotFound, s)
      | Some img \<Rightarrow>
          let (p, k) = reserve_pid (ks_proc s); s = s\<lparr>ks_proc := k\<rparr>
          in (case arg_from_path (default_arg_for (img_name img)) of
                Inl e \<Rightarrow> (Inl e, s)
              | Inr a \<Rightarrow> (Inr p, queue_program img p None a Foreground s)))"

definition take_pending :: "'s ks \<Rightarrow> user_program option \<times> 's ks" where
  "take_pending s = (case ks_pending s of [] \<Rightarrow> (None, s) | p # ps \<Rightarrow> (Some p, s\<lparr>ks_pending := ps\<rparr>))"

definition pending_pid :: "'s ks \<Rightarrow> pid option" where
  "pending_pid s = (case ks_pending s of [] \<Rightarrow> None | p # _ \<Rightarrow> Some (up_pid p))"

definition request_user_shell_wait :: "pid \<Rightarrow> pid \<Rightarrow> 's ks \<Rightarrow> 's ks" where
  "request_user_shell_wait shell_pid child_pid s =
     s\<lparr>ks_proc := (ks_proc s)\<lparr>k_terminal_foreground := child_pid\<rparr>,
       ks_wait_requests := ks_wait_requests s @ [\<lparr>wr_shell_pid = shell_pid, wr_child_pid = child_pid\<rparr>]\<rparr>"

definition take_user_shell_wait_request_for_child :: "pid \<Rightarrow> 's ks \<Rightarrow> user_shell_wait_request option \<times> 's ks" where
  "take_user_shell_wait_request_for_child child_pid s =
     (case position (\<lambda>r. wr_child_pid r = child_pid) (ks_wait_requests s) of
        None \<Rightarrow> (None, s)
      | Some i \<Rightarrow>
          (Some (ks_wait_requests s ! i),
           s\<lparr>ks_wait_requests := take i (ks_wait_requests s) @ drop (Suc i) (ks_wait_requests s)\<rparr>))"

section \<open>The terminal\<close>

definition clear_terminal_foreground_job :: "pid \<Rightarrow> kproc \<Rightarrow> kproc" where
  "clear_terminal_foreground_job p k =
     (if k_terminal_foreground k = p then k\<lparr>k_terminal_foreground := 0\<rparr> else k)"

definition deliver_terminal_signal :: "u64 \<Rightarrow> u64 \<Rightarrow> 's ks \<Rightarrow> terminal_signal_report option \<times> 's ks" where
  "deliver_terminal_signal now signal s =
     (let p = k_terminal_foreground (ks_proc s);
          settle = (\<lambda>s. snd (take_user_shell_wait_request_for_child p
                                (s\<lparr>ks_proc := clear_terminal_foreground_job p (ks_proc s)\<rparr>)))
      in if p = 0 then (None, s)
         else if signal = SIGINT
         then (let caller_pid = (case get_process (ks_proc s) p of
                                   None \<Rightarrow> 1
                                 | Some q \<Rightarrow> (case p_parent_pid q of None \<Rightarrow> 1 | Some c \<Rightarrow> c))
               in case user_terminate now caller_pid p (128 + SIGINT) s of
                    (Inl _, s) \<Rightarrow> (None, s)
                  | (Inr report, s) \<Rightarrow>
                      (Some \<lparr>tsr_pid = p, tsr_name = str_name report, tsr_signal = signal, tsr_status = 128 + signal,
                             tsr_stopped = False, tsr_parent_woken = str_parent_woken report\<rparr>, settle s))
         else if signal = SIGTSTP
         then (case stop_user_process now p signal (ks_proc s) of
                 (None, k) \<Rightarrow> (None, s\<lparr>ks_proc := k\<rparr>)
               | (Some report, k) \<Rightarrow> (Some report, settle (s\<lparr>ks_proc := k\<rparr>)))
         else (None, s))"

section \<open>What the current process may touch\<close>

definition current_user_range_owned :: "kproc \<Rightarrow> u64 \<Rightarrow> u64 \<Rightarrow> bool" where
  "current_user_range_owned k ptr e =
     (case current_process k of
        None \<Rightarrow> False
      | Some q \<Rightarrow>
          let layout = as_layout (p_address_space q)
          in ptr \<ge> l_program_start layout \<and> e \<le> l_program_end layout
             \<or> list_ex (\<lambda>t. case (t_user_stack_start t, t_user_stack_top t) of
                              (Some start, Some stack_top) \<Rightarrow> ptr \<ge> start \<and> e \<le> stack_top
                            | _ \<Rightarrow> False) (ts_items (p_threads q)))"

definition change_current_working_directory ::
    "'s mount list \<Rightarrow> bytes \<Rightarrow> 's ks \<Rightarrow> (fs_error + normalized_path) \<times> 's ks"
where
  "change_current_working_directory mounts path s =
     (case k_current_process (ks_proc s) of
        None \<Rightarrow> (Inl NotFound, s)
      | Some p \<Rightarrow>
          let cwd = (case cwd_for (ks_proc s) p of None \<Rightarrow> np_root | Some c \<Rightarrow> c)
          in (case normalize_path_from (np_as_str cwd) path of
                Inl e \<Rightarrow> (Inl e, s)
              | Inr next \<Rightarrow>
             (case fs_stat mounts (ks_fs s) (np_as_str next) of
                Inl e \<Rightarrow> (Inl e, s)
              | Inr st \<Rightarrow>
                  if fst_file_type st \<noteq> Directory then (Inl NotDirectory, s)
                  else (Inr next, s\<lparr>ks_proc := snd (set_cwd p next (ks_proc s))\<rparr>))))"

definition last_exit_summary :: "kproc \<Rightarrow> (pid \<times> bytes \<times> u64) option" where
  "last_exit_summary k =
     (case k_last_exited k of
        None \<Rightarrow> None
      | Some p \<Rightarrow>
          map_option (\<lambda>q. (p, p_name q, case p_exit_status q of None \<Rightarrow> 0 | Some st \<Rightarrow> st)) (get_process k p))"

section \<open>Starting a program\<close>

record loaded_program =
  lp_path :: bytes
  lp_entry :: u64
  lp_stack_top :: u64
  lp_image_len :: nat

record exec_context =
  ec_pid :: pid
  ec_entry_point :: u64
  ec_user_stack_top :: u64
  ec_program_path :: bytes
  ec_arg :: user_program_arg
  ec_layout :: user_memory_layout
  ec_p4_frame :: "u64 option"
  ec_p4_verified :: bool

definition first_stack :: "user_memory_layout \<Rightarrow> user_memory_layout" where
  "first_stack layout =
     layout\<lparr>l_stack_top := FIRST_USER_STACK_TOP, l_stack_start := FIRST_USER_STACK_TOP - USER_STACK_SIZE\<rparr>"

definition register_exec :: "u64 \<Rightarrow> user_program \<Rightarrow> loaded_program \<Rightarrow> kproc \<Rightarrow> exec_context \<times> kproc" where
  "register_exec now program loaded k =
     (let layout = memory_layout_for_pid_with_program_size (up_pid program) (of_nat (lp_image_len loaded));
          (frame, m) = take_prepared_p4_frame (k_mm k);
          k = k\<lparr>k_mm := m\<rparr>;
          (layout, space) =
            (case frame of
               Some p4_frame \<Rightarrow> (layout, as_verified_prepared_user (lp_entry loaded) layout p4_frame)
             | None \<Rightarrow> (first_stack layout, as_kernel_shared_user (lp_entry loaded) (first_stack layout)));
          (layout, space) =
            (if \<not> as_p4_verified space \<and> as_p4_frame space = None
             then (first_stack layout, as_kernel_shared_user (lp_entry loaded) (first_stack layout))
             else (layout, space));
          initial_stack =
            (case build_user_initial_stack layout (up_path program) (arg_as_bytes (up_arg program)) of
               Inl _ \<Rightarrow> l_stack_top layout | Inr st \<Rightarrow> is_stack_pointer st);
          (p, k) = create_reserved_process_with_job_mode (up_pid program) (up_parent_pid program) (up_name program)
                     (up_path program) (up_arg program) (up_job_mode program) space k;
          k = mark_running_fresh now p k;
          k = set_current_user (Some p) (map_option main_tid (get_process k p)) k
      in (\<lparr>ec_pid = p, ec_entry_point = lp_entry loaded, ec_user_stack_top = initial_stack,
           ec_program_path = up_path program, ec_arg = up_arg program, ec_layout = layout,
           ec_p4_frame = as_p4_frame space, ec_p4_verified = as_p4_verified space\<rparr>, k))"

section \<open>The process listing\<close>

definition process_state_name :: "process_state \<Rightarrow> bytes" where
  "process_state_name st =
     (case st of PCreated \<Rightarrow> str ''Created'' | PReady \<Rightarrow> str ''Ready'' | PRunning \<Rightarrow> str ''Running''
      | PBlocked \<Rightarrow> str ''Blocked'' | PStopped \<Rightarrow> str ''Stopped'' | PExited \<Rightarrow> str ''Exited''
      | PZombie \<Rightarrow> str ''Zombie'' | PReaped \<Rightarrow> str ''Reaped'')"

definition process_kind_name :: "process_kind \<Rightarrow> bytes" where
  "process_kind_name kind = (case kind of KernelTask \<Rightarrow> str ''KERN'' | UserProcess \<Rightarrow> str ''USER'')"

definition job_mode_name :: "job_mode \<Rightarrow> bytes" where
  "job_mode_name jm = (case jm of Foreground \<Rightarrow> str ''FG'' | Background \<Rightarrow> str ''BG'')"

text \<open>A number at the right of its field, or a dash: \<^verbatim>\<open>write_opt_u32_padded\<close>, \<^verbatim>\<open>write_exit_status\<close>.\<close>

definition optional_dec :: "u64 option \<Rightarrow> nat \<Rightarrow> bytes" where
  "optional_dec v width = (case v of Some v \<Rightarrow> right_dec v width | None \<Rightarrow> spaces 1 width @ str ''-'')"

definition arg_text :: "user_program_arg \<Rightarrow> bytes" where
  "arg_text a = (if utf8_valid (arg_as_bytes a) then arg_as_bytes a else str ''<invalid>'')"

definition stats_line :: "process_stats \<Rightarrow> nat \<Rightarrow> u64 \<Rightarrow> u64 \<Rightarrow> bytes" where
  "stats_line st pending traps yields =
     (let n = (\<lambda>label v. label @ decimal (of_nat v)); w = (\<lambda>label v. label @ decimal v)
      in n (str ''procs total='') (ps_process_count st) @ n (str '' threads='') (ps_thread_count st)
         @ n (str '' kern='') (ps_kernel_task_count st) @ n (str '' user='') (ps_user_process_count st)
         @ n (str '' fg='') (ps_foreground_user_count st) @ n (str '' bg='') (ps_background_user_count st)
         @ n (str '' uready='') (ps_ready_user_count st) @ n (str '' urun='') (ps_running_user_count st)
         @ n (str '' ublock='') (ps_blocked_user_count st) @ n (str '' ready='') (ps_ready_count st)
         @ n (str '' rq='') (ps_ready_queue_count st) @ w (str '' rqskip='') (ps_ready_queue_skips st)
         @ n (str '' running='') (ps_running_count st) @ n (str '' done='') (ps_exited_count st)
         @ w (str '' next='') (ucast (ps_next_pid st)) @ n (str '' pending='') pending
         @ w (str '' traps='') traps @ w (str '' yields='') yields
         @ w (str '' ctx='') (ps_user_context_switches st) @ w (str '' preempt='') (ps_timer_preempt_checks st)
         @ w (str '' preq='') (ps_timer_preempt_requests st) @ w (str '' py='') (ps_timer_preempt_yields st)
         @ w (str '' pp='') (if ps_timer_preempt_pending st then 1 else 0)
         @ w (str '' q='') USER_PREEMPT_QUANTUM_TICKS @ [0x0A])"

definition process_line :: "u64 \<Rightarrow> kproc \<Rightarrow> process \<Rightarrow> bytes" where
  "process_line now k q =
     (let sp = str '' ''; main_switches = (case threads_main (p_threads q) of None \<Rightarrow> 0 | Some t \<Rightarrow> t_context_switches t)
      in right_dec (ucast (p_pid q)) 4 @ sp @ right_dec (ucast (main_tid q)) 4 @ sp
         @ padded (decimal (of_nat (threads_len (p_threads q)))) 3 @ sp
         @ optional_dec (map_option ucast (p_parent_pid q)) 4 @ sp @ right_dec (ucast (p_process_group_id q)) 4 @ sp
         @ right_dec (ucast (p_session_id q)) 4 @ sp @ process_kind_name (p_kind q) @ sp @ job_mode_name (p_job_mode q) @ sp
         @ padded (process_state_name (p_state q)) 7 @ sp @ optional_dec (p_exit_status q) 4 @ sp
         @ optional_dec (map_option ucast (p_waiting_for q)) 4 @ sp
         @ optional_dec (map_option of_nat (ready_queue_position k (p_pid q))) 3 @ sp
         @ right_dec main_switches 5 @ sp @ right_dec (case runtime_ticks_snapshot q now of None \<Rightarrow> 0 | Some v \<Rightarrow> v) 5 @ sp
         @ padded (p_name q) 10 @ arg_text (p_arg q) @ [0x0A])"

definition write_processes_to_buffer :: "u64 \<Rightarrow> kproc \<Rightarrow> bytes \<Rightarrow> u64 \<Rightarrow> u64 \<Rightarrow> nat \<Rightarrow> nat \<times> bytes" where
  "write_processes_to_buffer now k out traps yields pending =
     (let w = count_str (stats_line (stats k) pending traps yields) (bw_new out);
          w = count_str (str ''PID  TID  THR PPID PGID SID  KIND MODE STATE   EXIT WAIT RQ  CTX   TICKS NAME       ARG'' @ [0x0A]) w;
          w = fold (\<lambda>q. count_str (process_line now k q)) (k_processes k) w
      in (bw_len w, bw_out w))"

end
