(* ===== verification/Devices.thy ===== *)
theory Devices
  imports Text_Output
begin

text \<open>
  The device registries of \<^verbatim>\<open>kernel/src/drivers/pci.rs\<close>, \<^verbatim>\<open>network.rs\<close> and \<^verbatim>\<open>status.rs\<close>.  The configuration
  space is a function from the address written to port 0xcf8 to the value then read from port 0xcfc.
\<close>

section \<open>Driver status\<close>

datatype driver_state = DriverReady | DriverDegraded | DriverMissing | DriverError

record driver_status =
  ds_name :: bytes
  ds_state :: driver_state
  ds_detail :: bytes

definition MAX_DRIVER_STATUSES :: nat where "MAX_DRIVER_STATUSES = 16"

type_synonym statuses = "driver_status option list"

definition no_statuses :: statuses where
  "no_statuses = replicate MAX_DRIVER_STATUSES None"

definition has_name :: "bytes \<Rightarrow> driver_status option \<Rightarrow> bool" where
  "has_name name s = (case s of Some s \<Rightarrow> ds_name s = name | None \<Rightarrow> False)"

definition report :: "bytes \<Rightarrow> driver_state \<Rightarrow> bytes \<Rightarrow> statuses \<Rightarrow> statuses" where
  "report name state detail ss =
     (case position (has_name name) ss of
        Some i \<Rightarrow> ss[i := map_option (\<lambda>s. s\<lparr>ds_state := state, ds_detail := detail\<rparr>) (ss ! i)]
      | None \<Rightarrow>
     (case position Option.is_none ss of
        None \<Rightarrow> ss
      | Some i \<Rightarrow> ss[i := Some \<lparr>ds_name = name, ds_state = state, ds_detail = detail\<rparr>]))"

definition state_name :: "driver_state \<Rightarrow> bytes" where
  "state_name s =
     (case s of DriverReady \<Rightarrow> str ''ready'' | DriverDegraded \<Rightarrow> str ''degraded''
      | DriverMissing \<Rightarrow> str ''missing'' | DriverError \<Rightarrow> str ''error'')"

definition status_line :: "driver_status \<Rightarrow> bytes" where
  "status_line s = padded (ds_name s) 12 @ padded (state_name (ds_state s)) 11 @ ds_detail s @ [0x0A]"

definition flatten_options :: "'a option list \<Rightarrow> 'a list" where
  "flatten_options xs = map the (filter (\<lambda>x. x \<noteq> None) xs)"

definition write_to_buffer :: "statuses \<Rightarrow> bytes \<Rightarrow> nat \<times> bytes" where
  "write_to_buffer ss out =
     (let w = write_str (str ''DRIVER       STATE      DETAIL'' @ [0x0A]) (bw_new out);
          w = fold (\<lambda>s. write_str (status_line s)) (flatten_options ss) w
      in (bw_len w, bw_out w))"

section \<open>The PCI bus\<close>

record pci_device =
  pci_bus :: u8
  pci_slot :: u8
  pci_function :: u8
  pci_vendor_id :: u16
  pci_device_id :: u16
  pci_class_code :: u8
  pci_subclass :: u8
  pci_prog_if :: u8
  pci_header_type :: u8

definition INVALID_VENDOR_ID :: u16 where "INVALID_VENDOR_ID = 0xFFFF"

type_synonym config_space = "u32 \<Rightarrow> u32"

definition config_address :: "u8 \<Rightarrow> u8 \<Rightarrow> u8 \<Rightarrow> u8 \<Rightarrow> u32" where
  "config_address bus slot function offset =
     0x80000000 OR push_bit 16 (ucast bus) OR push_bit 11 (ucast slot) OR push_bit 8 (ucast function)
       OR (ucast offset AND 0xFC)"

definition read_config_u32 :: "config_space \<Rightarrow> u8 \<Rightarrow> u8 \<Rightarrow> u8 \<Rightarrow> u8 \<Rightarrow> u32" where
  "read_config_u32 cfg bus slot function offset = cfg (config_address bus slot function offset)"

definition read_vendor_id :: "config_space \<Rightarrow> u8 \<Rightarrow> u8 \<Rightarrow> u8 \<Rightarrow> u16" where
  "read_vendor_id cfg bus slot function = ucast (read_config_u32 cfg bus slot function 0)"

definition read_header_type :: "config_space \<Rightarrow> u8 \<Rightarrow> u8 \<Rightarrow> u8 \<Rightarrow> u8" where
  "read_header_type cfg bus slot function = ucast (drop_bit 16 (read_config_u32 cfg bus slot function 0x0C))"

definition device_at :: "config_space \<Rightarrow> u8 \<Rightarrow> u8 \<Rightarrow> u8 \<Rightarrow> pci_device" where
  "device_at cfg bus slot function =
     (let id = read_config_u32 cfg bus slot function 0; cls = read_config_u32 cfg bus slot function 8
      in \<lparr>pci_bus = bus, pci_slot = slot, pci_function = function,
          pci_vendor_id = read_vendor_id cfg bus slot function, pci_device_id = ucast (drop_bit 16 id),
          pci_class_code = ucast (drop_bit 24 cls), pci_subclass = ucast (drop_bit 16 cls),
          pci_prog_if = ucast (drop_bit 8 cls), pci_header_type = read_header_type cfg bus slot function\<rparr>)"

definition scan_function :: "config_space \<Rightarrow> u8 \<Rightarrow> u8 \<Rightarrow> u8 \<Rightarrow> pci_device list \<Rightarrow> pci_device list" where
  "scan_function cfg bus slot function devices =
     (if read_vendor_id cfg bus slot function = INVALID_VENDOR_ID then devices
      else devices @ [device_at cfg bus slot function])"

definition scan_slot :: "config_space \<Rightarrow> u8 \<Rightarrow> u8 \<Rightarrow> pci_device list \<Rightarrow> pci_device list" where
  "scan_slot cfg bus slot devices =
     (if read_vendor_id cfg bus slot 0 = INVALID_VENDOR_ID then devices
      else let devices = scan_function cfg bus slot 0 devices
           in if read_header_type cfg bus slot 0 AND 0x80 \<noteq> 0
              then fold (\<lambda>function devices.
                     if read_vendor_id cfg bus slot function \<noteq> INVALID_VENDOR_ID
                     then scan_function cfg bus slot function devices else devices) (map of_nat [1..<8]) devices
              else devices)"

definition scan_bus :: "config_space \<Rightarrow> pci_device list" where
  "scan_bus cfg = fold (\<lambda>bus. fold (scan_slot cfg bus) (map of_nat [0..<32])) (map of_nat [0..<256]) []"

definition read_bar :: "config_space \<Rightarrow> pci_device \<Rightarrow> u8 \<Rightarrow> u32" where
  "read_bar cfg d bar_index =
     (if bar_index \<ge> 6 then 0
      else read_config_u32 cfg (pci_bus d) (pci_slot d) (pci_function d) (0x10 + bar_index * 4))"

definition devices_by_class :: "u8 \<Rightarrow> pci_device list \<Rightarrow> pci_device list" where
  "devices_by_class class_code = filter (\<lambda>d. pci_class_code d = class_code)"

definition find_device_by_class :: "u8 \<Rightarrow> u8 \<Rightarrow> u8 option \<Rightarrow> pci_device list \<Rightarrow> pci_device option" where
  "find_device_by_class class_code subclass prog_if =
     find (\<lambda>d. pci_class_code d = class_code \<and> pci_subclass d = subclass \<and>
               (case prog_if of None \<Rightarrow> True | Some expected \<Rightarrow> pci_prog_if d = expected))"

definition pci_name :: "pci_device \<Rightarrow> bytes" where
  "pci_name d = hex_u8 (pci_bus d) @ str '':'' @ hex_u8 (pci_slot d) @ str ''.'' @ decimal (ucast (pci_function d))"

definition pci_line :: "pci_device \<Rightarrow> bytes" where
  "pci_line d =
     pci_name d @ str ''  '' @ hex_u16 (pci_vendor_id d) @ str ''   '' @ hex_u16 (pci_device_id d) @ str ''   ''
       @ hex_u8 (pci_class_code d) @ str ''/'' @ hex_u8 (pci_subclass d) @ str ''/'' @ hex_u8 (pci_prog_if d) @ [0x0A]"

definition write_devices_to_buffer :: "pci_device list \<Rightarrow> bytes \<Rightarrow> nat \<times> bytes" where
  "write_devices_to_buffer devices out =
     (let w = write_str (str ''PCI devices: '' @ decimal (of_nat (length devices)) @ [0x0A]) (bw_new out);
          w = write_str (str ''BDF       VENDOR DEVICE CLASS'' @ [0x0A]) w;
          w = fold (\<lambda>d. write_str (pci_line d)) devices w
      in (bw_len w, bw_out w))"

section \<open>Network devices\<close>

datatype network_kind = Ethernet | OtherNetwork

datatype driver_candidate = IntelE1000 | Unsupported

record network_device =
  nd_pci :: pci_device
  nd_kind :: network_kind
  nd_driver :: driver_candidate
  nd_bar0 :: u32

definition network_device_of :: "config_space \<Rightarrow> pci_device \<Rightarrow> network_device" where
  "network_device_of cfg d =
     \<lparr>nd_pci = d,
      nd_kind = (if pci_subclass d = 0 then Ethernet else OtherNetwork),
      nd_driver = (if pci_vendor_id d = 0x8086 \<and> pci_device_id d = 0x100E then IntelE1000 else Unsupported),
      nd_bar0 = read_bar cfg d 0\<rparr>"

definition kind_name :: "network_kind \<Rightarrow> bytes" where
  "kind_name k = (case k of Ethernet \<Rightarrow> str ''ethernet'' | OtherNetwork \<Rightarrow> str ''other'')"

definition driver_name :: "driver_candidate \<Rightarrow> bytes" where
  "driver_name c = (case c of IntelE1000 \<Rightarrow> str ''e1000'' | Unsupported \<Rightarrow> str ''unsupported'')"

definition network_line :: "network_device \<Rightarrow> bytes" where
  "network_line d =
     pci_name (nd_pci d) @ str ''  '' @ hex_u16 (pci_vendor_id (nd_pci d)) @ str '':'' @ hex_u16 (pci_device_id (nd_pci d))
       @ str '' '' @ padded (kind_name (nd_kind d)) 9 @ str '' '' @ padded (driver_name (nd_driver d)) 12
       @ str '' 0x'' @ hex_u32 (nd_bar0 d) @ [0x0A]"

definition write_network_to_buffer :: "network_device list \<Rightarrow> bytes \<Rightarrow> nat \<times> bytes" where
  "write_network_to_buffer devices out =
     (let w = write_str (str ''Network devices: '' @ decimal (of_nat (length devices)) @ [0x0A]) (bw_new out);
          w = write_str (str ''BDF       VENDOR:DEVICE TYPE      DRIVER       BAR0'' @ [0x0A]) w;
          w = fold (\<lambda>d. write_str (network_line d)) devices w
      in (bw_len w, bw_out w))"

section \<open>Starting the drivers\<close>

text \<open>The registries and the log the start of a driver writes to.\<close>

record devices =
  dv_pci :: "pci_device list"
  dv_network :: "network_device list"
  dv_statuses :: statuses
  dv_log :: uart_ring

definition serial_println :: "bytes \<Rightarrow> devices \<Rightarrow> devices" where
  "serial_println cs s = s\<lparr>dv_log := uart_write_str (cs @ [0x0A]) (dv_log s)\<rparr>"

definition pci_init :: "config_space \<Rightarrow> devices \<Rightarrow> devices" where
  "pci_init cfg s =
     (let devices = scan_bus cfg;
          s = s\<lparr>dv_statuses := report (str ''pci'') DriverReady (str ''device registry available'') (dv_statuses s)\<rparr>;
          s = serial_println (str ''[PCI] Found '' @ decimal (of_nat (length devices)) @ str '' PCI device(s)'') s;
          s = fold (\<lambda>d. serial_println
                (str ''[PCI] '' @ pci_name d @ str '' vendor='' @ hex_u16 (pci_vendor_id d) @ str '' device=''
                   @ hex_u16 (pci_device_id d) @ str '' class='' @ hex_u8 (pci_class_code d) @ str ''/''
                   @ hex_u8 (pci_subclass d) @ str ''/'' @ hex_u8 (pci_prog_if d))) devices s
      in s\<lparr>dv_pci := devices\<rparr>)"

text \<open>\<^verbatim>\<open>{:#x}\<close>: hexadecimal without leading zeros; \<^verbatim>\<open>{:?}\<close>: the name of the constructor.\<close>

definition alternate_hex :: "u32 \<Rightarrow> bytes" where
  "alternate_hex v = str ''0x'' @ (if v = 0 then str ''0'' else dropWhile (\<lambda>b. b = 0x30) (hex_u32 v))"

definition network_status :: "network_device list \<Rightarrow> driver_state \<times> bytes" where
  "network_status devices =
     (if devices = [] then (DriverMissing, str ''no PCI network device'')
      else if list_ex (\<lambda>d. nd_driver d = IntelE1000) devices
      then (DriverDegraded, str ''e1000 detected; packet driver pending'')
      else (DriverDegraded, str ''unsupported network hardware''))"

definition network_init :: "config_space \<Rightarrow> devices \<Rightarrow> devices" where
  "network_init cfg s =
     (let devices = map (network_device_of cfg) (devices_by_class 0x02 (dv_pci s));
          s = serial_println (str ''[NET] detected '' @ decimal (of_nat (length devices)) @ str '' network device(s)'') s;
          (state, detail) = network_status devices;
          s = s\<lparr>dv_statuses := report (str ''network'') state detail (dv_statuses s)\<rparr>;
          s = fold (\<lambda>d. serial_println
                (str ''[NET] '' @ pci_name (nd_pci d) @ str '' vendor='' @ hex_u16 (pci_vendor_id (nd_pci d)) @ str '' device=''
                   @ hex_u16 (pci_device_id (nd_pci d))
                   @ str '' kind='' @ (case nd_kind d of Ethernet \<Rightarrow> str ''Ethernet'' | OtherNetwork \<Rightarrow> str ''Other'')
                   @ str '' driver='' @ (case nd_driver d of IntelE1000 \<Rightarrow> str ''IntelE1000'' | Unsupported \<Rightarrow> str ''Unsupported'')
                   @ str '' bar0='' @ alternate_hex (nd_bar0 d))) devices s
      in s\<lparr>dv_network := devices\<rparr>)"

section \<open>Listings\<close>

lemma write_str_append: "write_str ds (write_str cs w) = write_str (cs @ ds) w"
  by (simp add: write_str_def)

lemma fold_write_str: "fold (\<lambda>x. write_str (f x)) xs w = write_str (concat (map f xs)) w"
  by (induction xs arbitrary: w) (simp_all add: write_str_append, simp add: write_str_def)

lemma writer_result:
  "(let w = write_str cs (bw_new out) in (bw_len w, bw_out w)) =
     (min (length cs) (length out), take (length out) cs @ drop (length cs) out)"
  by (simp add: write_new_str)

lemma pci_listing_cut:
  "write_devices_to_buffer devices out =
     (let cs = str ''PCI devices: '' @ decimal (of_nat (length devices)) @ [0x0A] @
            str ''BDF       VENDOR DEVICE CLASS'' @ [0x0A] @ concat (map pci_line devices)
      in (min (length cs) (length out), take (length out) cs @ drop (length cs) out))"
  using writer_result by (simp add: write_devices_to_buffer_def fold_write_str write_str_append Let_def)

lemma status_listing_cut:
  "write_to_buffer ss out =
     (let cs = str ''DRIVER       STATE      DETAIL'' @ [0x0A] @ concat (map status_line (flatten_options ss))
      in (min (length cs) (length out), take (length out) cs @ drop (length cs) out))"
  using writer_result by (simp add: write_to_buffer_def fold_write_str write_str_append Let_def)

section \<open>The status registry as a map\<close>

definition status_of :: "statuses \<Rightarrow> bytes \<Rightarrow> driver_status option" where
  "status_of ss name = (case find (has_name name) ss of Some (Some s) \<Rightarrow> Some s | _ \<Rightarrow> None)"

lemma status_of_Cons:
  "status_of (x # ss) name = (if has_name name x then x else status_of ss name)"
  by (auto simp: status_of_def has_name_def split: option.splits)

lemma position_None_has_name: "position (has_name name) ss = None \<longleftrightarrow> status_of ss name = None"
  by (induction ss) (auto simp: status_of_Cons status_of_def has_name_def split: option.splits)

lemma report_known:
  assumes "position (has_name name) ss = Some i"
  shows "status_of (ss[i := map_option (\<lambda>s. s\<lparr>ds_state := state, ds_detail := detail\<rparr>) (ss ! i)]) other =
    (if other = name then Some \<lparr>ds_name = name, ds_state = state, ds_detail = detail\<rparr> else status_of ss other)"
  using assms
proof (induction ss arbitrary: i)
  case (Cons x ss)
  then show ?case
    by (auto simp: status_of_Cons has_name_def split: option.splits if_splits)
qed simp

lemma report_new:
  assumes "position (has_name name) ss = None" "position Option.is_none ss = Some i"
  shows "status_of (ss[i := Some \<lparr>ds_name = name, ds_state = state, ds_detail = detail\<rparr>]) other =
    (if other = name then Some \<lparr>ds_name = name, ds_state = state, ds_detail = detail\<rparr> else status_of ss other)"
  using assms
proof (induction ss arbitrary: i)
  case (Cons x ss)
  show ?case
  proof (cases x)
    case None
    then show ?thesis
      using Cons.prems position_None_has_name[of name ss] by (auto simp: status_of_Cons has_name_def)
  next
    case (Some y)
    then show ?thesis using Cons by (auto simp: status_of_Cons has_name_def split: if_splits)
  qed
qed simp

text \<open>A report is recorded unless the registry is full of other drivers, and changes no other record.\<close>

lemma report_effect:
  "status_of (report name state detail ss) other =
     (if other = name \<and> (status_of ss name \<noteq> None \<or> None \<in> set ss)
      then Some \<lparr>ds_name = name, ds_state = state, ds_detail = detail\<rparr> else status_of ss other)"
proof (cases "position (has_name name) ss")
  case None
  have "position Option.is_none ss = None \<longleftrightarrow> None \<notin> set ss"
    by (induction ss) (auto simp: Option.is_none_def)
  then show ?thesis
    using None position_None_has_name[of name ss] report_new[OF None]
    by (auto simp: report_def split: option.splits)
next
  case (Some i)
  then show ?thesis
    using position_None_has_name[of name ss] report_known[OF Some] by (auto simp: report_def)
qed

section \<open>The scan of the bus\<close>

definition function_present :: "config_space \<Rightarrow> u8 \<Rightarrow> u8 \<Rightarrow> u8 \<Rightarrow> bool" where
  "function_present cfg bus slot function \<longleftrightarrow>
     read_vendor_id cfg bus slot 0 \<noteq> INVALID_VENDOR_ID \<and> read_vendor_id cfg bus slot function \<noteq> INVALID_VENDOR_ID \<and>
     function < 8 \<and> (function = 0 \<or> read_header_type cfg bus slot 0 AND 0x80 \<noteq> 0)"

definition pci_location :: "pci_device \<Rightarrow> u8 \<times> u8 \<times> u8" where
  "pci_location d = (pci_bus d, pci_slot d, pci_function d)"

lemma fold_append: "(\<And>x ys. f x ys = ys @ g x) \<Longrightarrow> fold f xs ys = ys @ concat (map g xs)"
  by (induction xs arbitrary: ys) simp_all

definition slot_functions :: "config_space \<Rightarrow> u8 \<Rightarrow> u8 \<Rightarrow> u8 list" where
  "slot_functions cfg bus slot = filter (function_present cfg bus slot) (map of_nat [0..<8])"

lemma scan_functions_append:
  "fold (\<lambda>f devices. if read_vendor_id cfg bus slot f \<noteq> INVALID_VENDOR_ID then scan_function cfg bus slot f devices else devices) fs ds =
     ds @ map (device_at cfg bus slot) (filter (\<lambda>f. read_vendor_id cfg bus slot f \<noteq> INVALID_VENDOR_ID) fs)"
  by (induction fs arbitrary: ds) (simp_all add: scan_function_def)

lemma small_functions: "list_all (\<lambda>f. f < 8 \<and> f \<noteq> 0) (map of_nat [1..<8] :: u8 list)" "distinct (map of_nat [0..<8] :: u8 list)"
  by (simp_all add: upt_rec)

lemma scan_slot_append: "scan_slot cfg bus slot ds = ds @ map (device_at cfg bus slot) (slot_functions cfg bus slot)"
proof -
  have split: "map of_nat [0..<8] = (0 :: u8) # map of_nat [1..<8]" by (simp add: upt_rec)
  have "filter (function_present cfg bus slot) (map of_nat [1..<8]) =
      (if read_vendor_id cfg bus slot 0 \<noteq> INVALID_VENDOR_ID \<and> read_header_type cfg bus slot 0 AND 0x80 \<noteq> 0
       then filter (\<lambda>f. read_vendor_id cfg bus slot f \<noteq> INVALID_VENDOR_ID) (map of_nat [1..<8]) else [])"
    using small_functions(1) unfolding filter_empty_conv
    by (auto simp: function_present_def list_all_iff simp del: map_map intro!: filter_cong)
  then show ?thesis
    unfolding scan_slot_def slot_functions_def split Let_def
    by (simp add: scan_functions_append scan_function_def function_present_def)
qed

lemma scan_bus_eq:
  "scan_bus cfg = concat (map (\<lambda>bus. concat (map (\<lambda>slot. map (device_at cfg bus slot) (slot_functions cfg bus slot))
     (map of_nat [0..<32]))) (map of_nat [0..<256]))"
proof -
  have "fold (scan_slot cfg bus) xs ds = ds @ concat (map (\<lambda>slot. map (device_at cfg bus slot) (slot_functions cfg bus slot)) xs)"
    for bus xs ds by (rule fold_append) (rule scan_slot_append)
  from fold_append[of "\<lambda>bus. fold (scan_slot cfg bus) (map of_nat [0..<32])", OF this, of _ "[]"]
  show ?thesis unfolding scan_bus_def by simp
qed

lemma set_u8_upto: "n \<le> 256 \<Longrightarrow> set (map of_nat [0..<n]) = {x :: u8. unat x < n}"
proof -
  assume n: "n \<le> 256"
  have "x \<in> set (map of_nat [0..<n])" if "unat x < n" for x :: u8
    using that by (auto intro!: image_eqI[of _ _ "unat x"])
  then show ?thesis using n by (auto simp: unat_of_nat)
qed

lemma distinct_u8_upto: "n \<le> 256 \<Longrightarrow> distinct (map of_nat [0..<n] :: u8 list)"
  unfolding distinct_map inj_on_def
  by (auto simp: word_unat_eq_iff unat_of_nat)

lemma distinct_concat_keyed:
  assumes "distinct xs" "\<And>x. distinct (map h (g x))" "\<And>x y. y \<in> set (g x) \<Longrightarrow> k (h y) = x"
  shows "distinct (map h (concat (map g xs)))"
  using assms(1)
proof (induction xs)
  case (Cons x xs)
  have "h a \<noteq> h b" if "a \<in> set (g x)" "y \<in> set xs" "b \<in> set (g y)" for a b y
    using assms(3)[OF that(1)] assms(3)[OF that(3)] that(2) Cons.prems by auto
  then have "h ` set (g x) \<inter> h ` (\<Union>y\<in>set xs. set (g y)) = {}" by blast
  then show ?case using Cons assms(2)[of x] by simp
qed simp


lemma config_address_bits:
  assumes "slot < 32" "function < 8"
  shows "n < 8 \<Longrightarrow> bit (config_address bus slot function offset) (16 + n) \<longleftrightarrow> bit bus n"
    "n < 5 \<Longrightarrow> bit (config_address bus slot function offset) (11 + n) \<longleftrightarrow> bit slot n"
    "n < 3 \<Longrightarrow> bit (config_address bus slot function offset) (8 + n) \<longleftrightarrow> bit function n"
proof -
  have s: "\<not> bit slot k" if "5 \<le> k" for k
  proof -
    have "take_bit 5 slot = slot" using assms(1) by (simp add: word_unat_eq_iff unsigned_take_bit_eq word_less_nat_alt take_bit_nat_eq_self)
    then show ?thesis using that bit_take_bit_iff[of 5 slot k] by simp
  qed
  have f: "\<not> bit function k" if "3 \<le> k" for k
  proof -
    have "take_bit 3 function = function" using assms(2) by (simp add: word_unat_eq_iff unsigned_take_bit_eq word_less_nat_alt take_bit_nat_eq_self)
    then show ?thesis using that bit_take_bit_iff[of 3 "function" k] by simp
  qed
  have top: "(0x80000000 :: u32) = push_bit 31 1" by simp
  have off: "\<not> bit (ucast offset AND 0xFC :: u32) k" if "8 \<le> k" for k
    using that bit_imp_le_length[of offset k] by (auto simp: bit_and_iff bit_ucast_iff)
  note bits = config_address_def top bit_or_iff bit_push_bit_iff bit_ucast_iff bit_1_iff
  show "bit (config_address bus slot function offset) (16 + n) \<longleftrightarrow> bit bus n" if "n < 8"
    unfolding bits using that s[of "5 + n"] f[of "8 + n"] off[of "16 + n"] by simp
  show "bit (config_address bus slot function offset) (11 + n) \<longleftrightarrow> bit slot n" if "n < 5"
    unfolding bits using that f[of "3 + n"] off[of "11 + n"] by simp
  show "bit (config_address bus slot function offset) (8 + n) \<longleftrightarrow> bit function n" if "n < 3"
    unfolding bits using that off[of "8 + n"] by simp
qed

text \<open>Two functions never share a register address.\<close>

lemma config_address_inject:
  assumes "slot < 32" "function < 8" "slot' < 32" "function' < 8"
    and "config_address bus slot function offset = config_address bus' slot' function' offset'"
  shows "bus = bus' \<and> slot = slot' \<and> function = function'"
proof (intro conjI bit_word_eqI)
  note c = config_address_bits[OF assms(1,2), of _ bus offset] config_address_bits[OF assms(3,4), of _ bus' offset']
  have small: "take_bit 5 slot = slot" "take_bit 5 slot' = slot'" "take_bit 3 function = function" "take_bit 3 function' = function'"
    using assms(1-4) by (simp_all add: word_unat_eq_iff unsigned_take_bit_eq word_less_nat_alt take_bit_nat_eq_self)
  fix n
  assume n: "n < LENGTH(8)"
  show "bit bus n \<longleftrightarrow> bit bus' n" using n c(1)[of n] c(4)[of n] assms(5) by simp
  show "bit slot n \<longleftrightarrow> bit slot' n"
    using c(2)[of n] c(5)[of n] assms(5) bit_take_bit_iff[of 5 slot n] bit_take_bit_iff[of 5 slot' n] small by auto
  show "bit function n \<longleftrightarrow> bit function' n"
    using c(3)[of n] c(6)[of n] assms(5) bit_take_bit_iff[of 3 "function" n] bit_take_bit_iff[of 3 function' n] small by auto
qed

end
