(* ===== verification/User_Access.thy ===== *)
theory User_Access
  imports Process_Globals Devices
begin

text \<open>
  How a system call reaches user memory (\<^verbatim>\<open>UserRange\<close> and the copy functions of
  \<^verbatim>\<open>kernel/src/user/syscall.rs\<close>), in a small monad of computations that may fail.  User memory is reached
  through the active page tables: an access to a virtual address reads or writes the physical byte the
  tables lead to, and the addresses of a buffer are those before the first byte is stored.
\<close>

section \<open>Computations of a handler\<close>

text \<open>A handler may fail with an error of the interface; either way it returns the state it leaves.\<close>

type_synonym ('s, 'a) sys = "'s ks \<Rightarrow> (syscall_error + 'a) \<times> 's ks"

definition sys_return :: "'a \<Rightarrow> ('s, 'a) sys" where
  "sys_return x s = (Inr x, s)"

definition sys_fail :: "syscall_error \<Rightarrow> ('s, 'a) sys" where
  "sys_fail e s = (Inl e, s)"

definition sys_bind :: "('s, 'a) sys \<Rightarrow> ('a \<Rightarrow> ('s, 'b) sys) \<Rightarrow> ('s, 'b) sys" where
  "sys_bind m f s = (case m s of (Inl e, s) \<Rightarrow> (Inl e, s) | (Inr x, s) \<Rightarrow> f x s)"

definition sys_get :: "('s ks \<Rightarrow> 'a) \<Rightarrow> ('s, 'a) sys" where
  "sys_get f s = (Inr (f s), s)"

definition sys_modify :: "('s ks \<Rightarrow> 's ks) \<Rightarrow> ('s, unit) sys" where
  "sys_modify f s = (Inr (), f s)"

definition sys_guard :: "bool \<Rightarrow> syscall_error \<Rightarrow> ('s, unit) sys" where
  "sys_guard b e = (if b then sys_return () else sys_fail e)"

definition sys_ok_or :: "'a option \<Rightarrow> syscall_error \<Rightarrow> ('s, 'a) sys" where
  "sys_ok_or x e = (case x of None \<Rightarrow> sys_fail e | Some v \<Rightarrow> sys_return v)"

text \<open>\<^verbatim>\<open>result.map_err(|_| SyscallError::InvalidArgument)\<close>.\<close>

definition sys_lift :: "'e + 'a \<Rightarrow> ('s, 'a) sys" where
  "sys_lift r = (case r of Inl _ \<Rightarrow> sys_fail EInvalidArgument | Inr v \<Rightarrow> sys_return v)"

text \<open>Operations on the process table and on the filesystems.\<close>

definition sys_proc :: "(kproc \<Rightarrow> 'a \<times> kproc) \<Rightarrow> ('s, 'a) sys" where
  "sys_proc f s = (let (r, k) = f (ks_proc s) in (Inr r, s\<lparr>ks_proc := k\<rparr>))"

definition sys_fs :: "('s \<Rightarrow> 'a \<times> 's) \<Rightarrow> ('s, 'a) sys" where
  "sys_fs f s = (let (r, v) = f (ks_fs s) in (Inr r, s\<lparr>ks_fs := v\<rparr>))"

text \<open>
  What a system call finds around it: the format of page tables, the mounted filesystems, the built-in
  programs, the device registries with the kernel log, and the tick counter.
\<close>

record 's senv =
  e_pg :: paging
  e_mounts :: "'s mount list"
  e_userland :: userland
  e_devices :: devices
  e_now :: u64

definition MAX_WRITE_LEN :: u64 where "MAX_WRITE_LEN = 1024"
definition MAX_PATH_LEN :: u64 where "MAX_PATH_LEN = 128"
definition MAX_READ_LEN :: u64 where "MAX_READ_LEN = 1024"
definition DIRECTORY_READ_BUFFER_SIZE :: nat where "DIRECTORY_READ_BUFFER_SIZE = 2048"
definition ABI_VERSION :: u64 where "ABI_VERSION = push_bit 32 1 OR 12"
definition SYSCALL_RETURN_TO_KERNEL :: u64 where "SYSCALL_RETURN_TO_KERNEL = - 1"

section \<open>User memory\<close>

definition user_phys :: "paging \<Rightarrow> 's ks \<Rightarrow> u64 \<Rightarrow> u64 option" where
  "user_phys pg s va =
     (case translate_addr pg (mm_mem (k_mm (ks_proc s))) (ks_cr3 s) va of TranslatedTo a \<Rightarrow> Some a | _ \<Rightarrow> None)"

definition user_bytes :: "paging \<Rightarrow> 's ks \<Rightarrow> u64 \<Rightarrow> nat \<Rightarrow> bytes" where
  "user_bytes pg s ptr n =
     map (\<lambda>i. case user_phys pg s (ptr + of_nat i) of None \<Rightarrow> 0 | Some a \<Rightarrow> mm_mem (k_mm (ks_proc s)) a) [0..<n]"

definition set_memory :: "mem \<Rightarrow> 's ks \<Rightarrow> 's ks" where
  "set_memory m s = s\<lparr>ks_proc := (ks_proc s)\<lparr>k_mm := (k_mm (ks_proc s))\<lparr>mm_mem := m\<rparr>\<rparr>\<rparr>"

definition store_user :: "paging \<Rightarrow> u64 \<Rightarrow> bytes \<Rightarrow> 's ks \<Rightarrow> 's ks" where
  "store_user pg ptr bs s =
     set_memory
       (fold (\<lambda>i m. case user_phys pg s (ptr + of_nat i) of None \<Rightarrow> m | Some a \<Rightarrow> m(a := bs ! i)) [0..<length bs]
          (mm_mem (k_mm (ks_proc s)))) s"

definition checked :: "'s senv \<Rightarrow> u64 \<Rightarrow> u64 \<Rightarrow> user_page_access \<Rightarrow> ('s, unit) sys" where
  "checked env ptr len access s =
     (if ptr = 0 \<or> len = 0 then (Inl EInvalidArgument, s)
      else case checked_add ptr len of
             None \<Rightarrow> (Inl EInvalidArgument, s)
           | Some e \<Rightarrow>
               if \<not> current_user_range_owned (ks_proc s) ptr e then (Inl EInvalidArgument, s)
               else case active_user_range_accessible (e_pg env) (ks_cr3 s)
                           (map_option p_address_space (current_process (ks_proc s))) ptr len access (k_mm (ks_proc s)) of
                      (ok, m) \<Rightarrow>
                        (if ok then Inr () else Inl EInvalidArgument, s\<lparr>ks_proc := (ks_proc s)\<lparr>k_mm := m\<rparr>\<rparr>))"

definition read_user_bytes :: "'s senv \<Rightarrow> u64 \<Rightarrow> u64 \<Rightarrow> ('s, bytes) sys" where
  "read_user_bytes env ptr len =
     sys_bind (checked env ptr len PageRead) (\<lambda>_. sys_get (\<lambda>s. user_bytes (e_pg env) s ptr (unat len)))"

definition read_user_str :: "'s senv \<Rightarrow> u64 \<Rightarrow> u64 \<Rightarrow> ('s, bytes) sys" where
  "read_user_str env ptr len =
     sys_bind (sys_guard (len \<le> MAX_PATH_LEN) EInvalidArgument) (\<lambda>_.
     sys_bind (read_user_bytes env ptr len) (\<lambda>bs.
     sys_bind (sys_guard (utf8_valid bs) EInvalidArgument) (\<lambda>_. sys_return bs)))"

definition copy_to_user_buffer :: "'s senv \<Rightarrow> u64 \<Rightarrow> u64 \<Rightarrow> bytes \<Rightarrow> ('s, u64) sys" where
  "copy_to_user_buffer env dst_ptr dst_len data =
     sys_bind (sys_guard (length data \<le> unat dst_len) EInvalidArgument) (\<lambda>_.
     sys_bind (checked env dst_ptr (of_nat (length data)) PageWrite) (\<lambda>_.
     sys_bind (sys_modify (store_user (e_pg env) dst_ptr data)) (\<lambda>_. sys_return (of_nat (length data)))))"

text \<open>A function that fills the user buffer it is given, and the result it returns.\<close>

definition fill_user_buffer :: "'s senv \<Rightarrow> u64 \<Rightarrow> u64 \<Rightarrow> ('s ks \<Rightarrow> bytes \<Rightarrow> 'r \<times> bytes) \<Rightarrow> ('s, 'r) sys" where
  "fill_user_buffer env ptr len f s =
     (let (r, out) = f s (user_bytes (e_pg env) s ptr (unat len)) in (Inr r, store_user (e_pg env) ptr out s))"

section \<open>The caller\<close>

definition current_pid :: "('s, pid) sys" where
  "current_pid = sys_bind (sys_get (\<lambda>s. k_current_process (ks_proc s))) (\<lambda>p. sys_ok_or p EInvalidArgument)"

definition current_credentials :: "kproc \<Rightarrow> credentials" where
  "current_credentials k = (case current_process k of None \<Rightarrow> credentials_root | Some q \<Rightarrow> p_credentials q)"

definition current_cwd :: "'s ks \<Rightarrow> bytes" where
  "current_cwd s = np_as_str (case current_process (ks_proc s) of None \<Rightarrow> np_root | Some q \<Rightarrow> p_cwd q)"

definition current_layout :: "('s, user_memory_layout) sys" where
  "current_layout =
     sys_bind (sys_get (\<lambda>s. map_option (\<lambda>q. as_layout (p_address_space q)) (current_process (ks_proc s))))
       (\<lambda>l. sys_ok_or l EInvalidArgument)"

definition try_u32 :: "u64 \<Rightarrow> u32 option" where
  "try_u32 x = (if unat x < 2 ^ 32 then Some (ucast x) else None)"

section \<open>What a computation leaves of memory\<close>

abbreviation mem_of :: "'s ks \<Rightarrow> mem" where
  "mem_of s \<equiv> mm_mem (k_mm (ks_proc s))"

text \<open>
  A quiet computation changes at most the cached offset of the direct mapping; one that keeps memory may
  change anything else.
\<close>

definition set_offset :: "u64 \<Rightarrow> 's ks \<Rightarrow> 's ks" where
  "set_offset v s = s\<lparr>ks_proc := (ks_proc s)\<lparr>k_mm := (k_mm (ks_proc s))\<lparr>mm_offset_value := v\<rparr>\<rparr>\<rparr>"

definition quiet :: "('s, 'a) sys \<Rightarrow> bool" where
  "quiet m \<longleftrightarrow> (\<forall>s. \<exists>v. snd (m s) = set_offset v s)"

definition mem_kept :: "('s, 'a) sys \<Rightarrow> bool" where
  "mem_kept m \<longleftrightarrow> (\<forall>s. mem_of (snd (m s)) = mem_of s)"

text \<open>All bytes the computation changes are in a buffer; all are ones the caller may write.\<close>

definition writes_within :: "paging \<Rightarrow> u64 \<Rightarrow> u64 \<Rightarrow> ('s, 'a) sys \<Rightarrow> bool" where
  "writes_within pg ptr len m \<longleftrightarrow>
     (\<forall>s a. mem_of (snd (m s)) a \<noteq> mem_of s a \<longrightarrow> (\<exists>i<unat len. user_phys pg s (ptr + of_nat i) = Some a))"

definition caller_writable :: "paging \<Rightarrow> 's ks \<Rightarrow> u64 \<Rightarrow> bool" where
  "caller_writable pg s a \<longleftrightarrow>
     (\<exists>va. user_phys pg s va = Some a \<and> user_mapped pg (mem_of s) (ks_cr3 s) va PageWrite \<and>
           current_user_range_owned (ks_proc s) va (va + 1))"

definition confined :: "paging \<Rightarrow> ('s, 'a) sys \<Rightarrow> bool" where
  "confined pg m \<longleftrightarrow> (\<forall>s a. mem_of (snd (m s)) a \<noteq> mem_of s a \<longrightarrow> caller_writable pg s a)"

lemma current_process_mm [simp]:
  "current_process (k\<lparr>k_mm := m\<rparr>) = current_process k"
  "current_user_range_owned (k\<lparr>k_mm := m\<rparr>) = current_user_range_owned k"
  by (auto simp: current_process_def get_process_def current_user_range_owned_def fun_eq_iff split: option.split)

lemma set_offset_simps [simp]:
  "mem_of (set_offset v s) = mem_of s" "ks_cr3 (set_offset v s) = ks_cr3 s"
  "set_offset v (set_offset w s) = set_offset v s" "set_offset (mm_offset_value (k_mm (ks_proc s))) s = s"
  "user_phys pg (set_offset v s) = user_phys pg s" "caller_writable pg (set_offset v s) = caller_writable pg s"
  "current_user_range_owned (ks_proc (set_offset v s)) = current_user_range_owned (ks_proc s)"
  by (auto simp: set_offset_def user_phys_def caller_writable_def fun_eq_iff)

lemma snd_bind: "snd (sys_bind m f s) = (case fst (m s) of Inl _ \<Rightarrow> snd (m s) | Inr x \<Rightarrow> snd (f x (snd (m s))))"
  by (simp add: sys_bind_def split: prod.split sum.split)

lemma quietI: "(\<And>s. snd (m s) = s) \<Longrightarrow> quiet m"
  unfolding quiet_def by (metis set_offset_simps(4))

lemma quiet_basic [simp]:
  "quiet (sys_return x)" "quiet (sys_fail e)" "quiet (sys_get f)" "quiet (sys_guard b e)" "quiet (sys_ok_or y e)"
  "quiet (sys_lift r)"
  by (auto intro!: quietI simp: sys_return_def sys_fail_def sys_get_def sys_guard_def sys_ok_or_def sys_lift_def
      split: option.split sum.split)

lemma quiet_bind [intro]:
  assumes "quiet m" "\<And>x. quiet (f x)"
  shows "quiet (sys_bind m f)"
proof -
  have "\<exists>v. snd (sys_bind m f s) = set_offset v s" for s
  proof -
    obtain v where v: "snd (m s) = set_offset v s" using assms(1) unfolding quiet_def by blast
    show ?thesis
    proof (cases "fst (m s)")
      case (Inr x)
      obtain w where "snd (f x (set_offset v s)) = set_offset w (set_offset v s)"
        using assms(2) unfolding quiet_def by blast
      then show ?thesis using Inr v by (auto simp: snd_bind)
    qed (use v in \<open>auto simp: snd_bind\<close>)
  qed
  then show ?thesis unfolding quiet_def by blast
qed

lemma mm_same: "\<exists>v. m = m\<lparr>mm_offset_value := v\<rparr>"
  by (rule exI[of _ "mm_offset_value m"]) simp

lemma mm_after_check: "\<exists>v. snd (active_user_range_accessible pg cr3 asp ptr len acc m) = m\<lparr>mm_offset_value := v\<rparr>"
  unfolding active_user_range_accessible_def physical_memory_offset_def by (auto simp: mm_same split: option.split)

lemma quiet_checked [simp]: "quiet (checked env ptr len acc)"
proof -
  have "\<exists>v. snd (checked env ptr len acc s) = set_offset v s" for s
  proof -
    have "\<exists>v. s = set_offset v s" by (metis set_offset_simps(4))
    moreover obtain v where "snd (active_user_range_accessible (e_pg env) (ks_cr3 s)
        (map_option p_address_space (current_process (ks_proc s))) ptr len acc (k_mm (ks_proc s))) =
        (k_mm (ks_proc s))\<lparr>mm_offset_value := v\<rparr>" using mm_after_check by metis
    then have "s\<lparr>ks_proc := (ks_proc s)\<lparr>k_mm := snd (active_user_range_accessible (e_pg env) (ks_cr3 s)
        (map_option p_address_space (current_process (ks_proc s))) ptr len acc (k_mm (ks_proc s)))\<rparr>\<rparr> = set_offset v s"
      by (simp add: set_offset_def)
    ultimately show ?thesis unfolding checked_def by (auto simp: case_prod_beta split: option.split)
  qed
  then show ?thesis unfolding quiet_def by blast
qed

lemma quiet_reads [simp]:
  "quiet (read_user_bytes env ptr len)" "quiet (read_user_str env ptr len)" "quiet current_pid" "quiet current_layout"
  unfolding read_user_bytes_def read_user_str_def current_pid_def current_layout_def by (intro quiet_bind; simp)+

text \<open>Keeping memory.\<close>

lemma kept_quiet: "quiet m \<Longrightarrow> mem_kept m"
  unfolding quiet_def mem_kept_def by (metis set_offset_simps(1))

lemma kept_bind: "mem_kept m \<Longrightarrow> (\<And>x. mem_kept (f x)) \<Longrightarrow> mem_kept (sys_bind m f)"
  unfolding mem_kept_def snd_bind by (auto split: sum.split)

lemma kept_modify: "(\<And>s. mem_of (f s) = mem_of s) \<Longrightarrow> mem_kept (sys_modify f)"
  by (simp add: mem_kept_def sys_modify_def)

lemma kept_proc: "(\<And>k. mm_mem (k_mm (snd (f k))) = mm_mem (k_mm k)) \<Longrightarrow> mem_kept (sys_proc f)"
  by (simp add: mem_kept_def sys_proc_def case_prod_beta)

lemma kept_fs [simp]: "mem_kept (sys_fs f)"
  by (simp add: mem_kept_def sys_fs_def case_prod_beta)

text \<open>Writing to a buffer.\<close>

lemma fold_store_other:
  "(\<And>i. i \<in> set is \<Longrightarrow> g i \<noteq> Some a) \<Longrightarrow>
     fold (\<lambda>i m. case g i of None \<Rightarrow> m | Some b \<Rightarrow> m(b := h i)) is m a = m a"
  by (induction "is" arbitrary: m) (auto split: option.split)

lemma store_user_other:
  assumes "\<And>i. i < length bs \<Longrightarrow> user_phys pg s (ptr + of_nat i) \<noteq> Some a"
  shows "mem_of (store_user pg ptr bs s) a = mem_of s a"
  using fold_store_other[of "[0..<length bs]" "\<lambda>i. user_phys pg s (ptr + of_nat i)" a "\<lambda>i. bs ! i" "mem_of s"] assms
  by (simp add: store_user_def set_memory_def)

lemma within_store: "length bs \<le> unat len \<Longrightarrow> writes_within pg ptr len (sys_modify (store_user pg ptr bs))"
  unfolding writes_within_def sys_modify_def snd_conv by (meson store_user_other order_less_le_trans)

lemma within_fill:
  assumes "\<And>s out. length (snd (f s out)) = length out"
  shows "writes_within (e_pg env) ptr len (fill_user_buffer env ptr len f)"
proof -
  have "length (snd (f s (user_bytes (e_pg env) s ptr (unat len)))) = unat len" for s
    using assms by (simp add: user_bytes_def)
  then show ?thesis
    unfolding writes_within_def fill_user_buffer_def case_prod_beta Let_def snd_conv
    by (metis store_user_other)
qed

text \<open>Steps that leave the translation of addresses as it is.\<close>

definition addr_kept :: "('s, 'a) sys \<Rightarrow> bool" where
  "addr_kept m \<longleftrightarrow> (\<forall>s. mem_of (snd (m s)) = mem_of s \<and> ks_cr3 (snd (m s)) = ks_cr3 s)"

lemma addr_kept_quiet [simp]: "quiet m \<Longrightarrow> addr_kept m"
  unfolding quiet_def addr_kept_def by (metis set_offset_simps(1,2))

lemma within_bind:
  assumes "addr_kept m" "\<And>x. writes_within pg ptr len (f x)"
  shows "writes_within pg ptr len (sys_bind m f)"
proof -
  have "mem_of (snd (m s)) = mem_of s" "user_phys pg (snd (m s)) = user_phys pg s" for s
    using assms(1) by (simp_all add: addr_kept_def user_phys_def ext)
  with assms(2) show ?thesis unfolding writes_within_def snd_bind by (auto split: sum.split) metis
qed

lemma within_kept: "mem_kept m \<Longrightarrow> writes_within pg ptr len m"
  by (simp add: writes_within_def mem_kept_def)

lemma within_bind_kept:
  "writes_within pg ptr len m \<Longrightarrow> (\<And>x. mem_kept (f x)) \<Longrightarrow> writes_within pg ptr len (sys_bind m f)"
  unfolding writes_within_def mem_kept_def snd_bind by (auto split: sum.split)

text \<open>Confinement.\<close>

lemma confined_kept: "mem_kept m \<Longrightarrow> confined pg m"
  by (simp add: confined_def mem_kept_def)

lemma confined_quiet_bind: "quiet m \<Longrightarrow> (\<And>x. confined pg (f x)) \<Longrightarrow> confined pg (sys_bind m f)"
  unfolding confined_def quiet_def snd_bind
  by (auto split: sum.split) (metis set_offset_simps(1,6))+

lemma confined_bind_kept: "confined pg m \<Longrightarrow> (\<And>x. mem_kept (f x)) \<Longrightarrow> confined pg (sys_bind m f)"
  unfolding confined_def mem_kept_def snd_bind by (auto split: sum.split)

lemma owned_byte:
  assumes "current_user_range_owned k ptr (ptr + len)" "unat ptr + unat len < 2 ^ 64" "i < unat len"
  shows "current_user_range_owned k (ptr + of_nat i) (ptr + of_nat i + 1)"
proof -
  have i: "unat (ptr + of_nat i) = unat ptr + i" "unat (ptr + of_nat i + 1) = unat ptr + i + 1"
    "unat (ptr + len) = unat ptr + unat len"
    using assms(2,3) unsigned_less[of len] by (simp_all add: unat_word_ariths unat_of_nat)
  have le: "a \<le> ptr \<Longrightarrow> a \<le> ptr + of_nat i" "ptr + len \<le> b \<Longrightarrow> ptr + of_nat i + 1 \<le> b" for a b
    using assms(3) unfolding word_le_nat_alt i by simp_all
  show ?thesis
    using assms(1) le unfolding current_user_range_owned_def
    by (fastforce simp: list_ex_iff Let_def split: option.splits)
qed

lemma checked_write_grants:
  assumes "paging_spec (e_pg env)" "checked env ptr len PageWrite s = (Inr (), s')" "i < unat len"
    "user_phys (e_pg env) s (ptr + of_nat i) = Some a"
  shows "caller_writable (e_pg env) s a"
proof -
  obtain e where e: "checked_add ptr len = Some e" "current_user_range_owned (ks_proc s) ptr e"
    and ok: "fst (active_user_range_accessible (e_pg env) (ks_cr3 s)
        (map_option p_address_space (current_process (ks_proc s))) ptr len PageWrite (k_mm (ks_proc s)))"
    using assms(2) unfolding checked_def by (auto split: if_splits option.splits prod.splits)
  have n: "unat ptr + unat len < 2 ^ 64" "e = ptr + len" using e(1) by (auto simp: checked_add_def split: if_splits)
  have i: "unat (ptr + of_nat i) = unat ptr + i"
    using n(1) assms(3) unsigned_less[of len] by (simp add: unat_word_ariths unat_of_nat)
  have "user_mapped (e_pg env) (mem_of s) (ks_cr3 s) (ptr + of_nat i) PageWrite"
    using ok assms(3) i unfolding range_accessible_iff[OF assms(1)] by (simp add: word_le_nat_alt)
  with owned_byte[of "ks_proc s" ptr len i] e(2) n assms(3,4) show ?thesis
    unfolding caller_writable_def by blast
qed

lemma confined_write:
  assumes "paging_spec (e_pg env)" "writes_within (e_pg env) ptr len m"
  shows "confined (e_pg env) (sys_bind (checked env ptr len PageWrite) (\<lambda>_. m))"
proof -
  have "caller_writable (e_pg env) s a"
    if ne: "mem_of (snd (sys_bind (checked env ptr len PageWrite) (\<lambda>_. m) s)) a \<noteq> mem_of s a" for s a
  proof -
    obtain r s' where c: "checked env ptr len PageWrite s = (r, s')" by (cases "checked env ptr len PageWrite s")
    obtain v where v: "s' = set_offset v s" using quiet_checked[of env ptr len PageWrite] c unfolding quiet_def by (metis snd_conv)
    then obtain u where r: "r = Inr u" using ne c by (cases r) (auto simp: snd_bind)
    then have "mem_of (snd (m s')) a \<noteq> mem_of s' a" using ne c v by (simp add: snd_bind)
    then obtain i where "i < unat len" "user_phys (e_pg env) s' (ptr + of_nat i) = Some a"
      using assms(2) unfolding writes_within_def by blast
    with checked_write_grants[OF assms(1), of ptr len s s' i a] c r v show ?thesis by simp
  qed
  then show ?thesis unfolding confined_def by blast
qed

lemma confined_guard: "(b \<Longrightarrow> confined pg m) \<Longrightarrow> confined pg (sys_bind (sys_guard b e) (\<lambda>_. m))"
  by (auto simp: sys_guard_def sys_bind_def sys_return_def sys_fail_def confined_def)

lemma confined_copy:
  assumes "paging_spec (e_pg env)"
  shows "confined (e_pg env) (copy_to_user_buffer env ptr len data)"
  unfolding copy_to_user_buffer_def
proof (rule confined_guard, rule confined_write[OF assms], rule within_bind_kept)
  assume "length data \<le> unat len"
  then have "length data < 2 ^ 64" using unat_u64_less[of len] by simp
  then show "writes_within (e_pg env) ptr (of_nat (length data)) (sys_modify (store_user (e_pg env) ptr data))"
    by (intro within_store) (simp add: unat_of_nat)
qed (simp add: kept_quiet)

end
