(* ===== verification/Syscalls.thy ===== *)
theory Syscalls
  imports User_Access
begin

text \<open>
  The handlers of the system calls and their dispatch (\<^verbatim>\<open>kernel/src/user/syscall.rs\<close>), in the order of the
  source.  Messages for the serial log are left out; what a program prints goes to \<^verbatim>\<open>ks_console\<close>.
\<close>

section \<open>Threads\<close>

text \<open>The entry must be an address of the program that the caller may read.\<close>

definition check_entry :: "'s senv \<Rightarrow> u64 \<Rightarrow> ('s, unit) sys" where
  "check_entry env entry =
     sys_bind current_layout (\<lambda>layout.
     sys_bind (sys_guard (\<not> (entry < l_program_start layout \<or> entry \<ge> l_program_end layout)) EInvalidArgument) (\<lambda>_.
     checked env entry 1 PageRead))"

definition spawn_user_thread :: "'s senv \<Rightarrow> u64 \<Rightarrow> u64 \<Rightarrow> ('s, u64) sys" where
  "spawn_user_thread env entry arg =
     sys_bind (check_entry env entry) (\<lambda>_.
     sys_bind current_pid (\<lambda>p.
     sys_bind (sys_proc (create_managed_user_thread p entry arg)) (\<lambda>t.
     sys_bind (sys_ok_or t EInvalidArgument) (\<lambda>t. sys_return (ucast t)))))"

definition join_user_thread :: "'s senv \<Rightarrow> syscall_frame \<Rightarrow> ('s, u64) sys" where
  "join_user_thread env frame =
     sys_bind (sys_ok_or (try_u32 (f_arg0 frame)) EInvalidArgument) (\<lambda>target_tid.
     sys_bind (sys_get (\<lambda>s. k_current_thread (ks_proc s))) (\<lambda>caller.
     case caller of
       None \<Rightarrow> sys_fail EInvalidArgument
     | Some caller_tid \<Rightarrow>
         sys_bind (sys_proc (join_thread (e_now env) caller_tid target_tid (from_syscall_frame frame))) (\<lambda>status.
         case status of
           JoinCompleted \<Rightarrow> sys_return 0
         | JoinBlocked \<Rightarrow> sys_return SYSCALL_RETURN_TO_KERNEL
         | _ \<Rightarrow> sys_fail EInvalidArgument)))"

definition syscall_create_user_thread :: "'s senv \<Rightarrow> u64 \<Rightarrow> u64 \<Rightarrow> u64 \<Rightarrow> u64 \<Rightarrow> ('s, u64) sys" where
  "syscall_create_user_thread env entry stack_ptr stack_len arg =
     sys_bind (sys_guard (\<not> (stack_len < 1024 \<or> stack_len > 64 * 1024)) EInvalidArgument) (\<lambda>_.
     sys_bind (check_entry env entry) (\<lambda>_.
     sys_bind (checked env stack_ptr stack_len PageWrite) (\<lambda>_.
     sys_bind (sys_ok_or (checked_add stack_ptr stack_len) EInvalidArgument) (\<lambda>stack_top.
     sys_bind (sys_ok_or (case checked_sub (stack_top AND NOT 0xF) 8 of
                            None \<Rightarrow> None | Some rsp \<Rightarrow> if rsp \<ge> stack_ptr then Some rsp else None) EInvalidArgument) (\<lambda>initial_rsp.
     sys_bind current_pid (\<lambda>p.
     sys_bind (sys_proc (create_user_thread p entry stack_ptr stack_top initial_rsp arg)) (\<lambda>t.
     sys_bind (sys_ok_or t EInvalidArgument) (\<lambda>t. sys_return (ucast t)))))))))"

definition user_yield :: "'s senv \<Rightarrow> syscall_frame \<Rightarrow> ('s, u64) sys" where
  "user_yield env frame =
     sys_bind (sys_get (\<lambda>s. ks_pending s \<noteq> [] \<or>
         (case k_current_thread (ks_proc s) of None \<Rightarrow> False | Some t \<Rightarrow> has_ready_thread_except (ks_proc s) t))) (\<lambda>has_work.
     if \<not> has_work then sys_return 0
     else
       sys_bind (sys_modify (\<lambda>s. s\<lparr>ks_yields := ks_yields s + 1\<rparr>)) (\<lambda>_.
       sys_bind (sys_proc (\<lambda>k. case k_current_thread k of None \<Rightarrow> (False, k) | Some t \<Rightarrow> record_thread_yield t k)) (\<lambda>_.
       sys_bind (sys_proc consume_timer_preempt_request_for_yield) (\<lambda>_.
       sys_bind (sys_proc (checkout_current_user_if_yielded (e_now env) (from_syscall_frame frame))) (\<lambda>report.
       case report of
         Some _ \<Rightarrow> sys_return SYSCALL_RETURN_TO_KERNEL
       | None \<Rightarrow> sys_fail EInvalidArgument)))))"

definition sleep_current_user :: "'s senv \<Rightarrow> syscall_frame \<Rightarrow> ('s, u64) sys" where
  "sleep_current_user env frame =
     (let duration_ms = f_arg0 frame
      in if duration_ms = 0 then sys_return 0
         else
           let ticks_to_sleep = max (u64_div_ceil (saturating_mul duration_ms 100) 1000) 1;
               wake_tick = saturating_add (e_now env) ticks_to_sleep
           in sys_bind (sys_proc (\<lambda>k. case k_current_process k of
                                        None \<Rightarrow> (False, k)
                                      | Some p \<Rightarrow> mark_sleeping (e_now env) p wake_tick (from_syscall_frame frame) k)) (\<lambda>slept.
              sys_bind (sys_guard slept EInvalidArgument) (\<lambda>_. sys_return SYSCALL_RETURN_TO_KERNEL)))"

definition uptime_to_user :: "'s senv \<Rightarrow> u64 \<Rightarrow> u64 \<Rightarrow> ('s, u64) sys" where
  "uptime_to_user env out_ptr out_len =
     (let uptime = e_now env * 1000 div 100
      in if out_ptr = 0 \<and> out_len = 0 then sys_return uptime
         else let (len, buffer) = format_u64_decimal uptime (replicate 20 0)
              in copy_to_user_buffer env out_ptr out_len (take len buffer))"

section \<open>Files\<close>

definition print_console :: "bytes \<Rightarrow> 's ks \<Rightarrow> 's ks" where
  "print_console bs s = s\<lparr>ks_console := ks_console s @ bs\<rparr>"

definition set_descriptor :: "pid \<Rightarrow> u64 \<Rightarrow> descriptor \<Rightarrow> 's ks \<Rightarrow> 's ks" where
  "set_descriptor p fd d s =
     s\<lparr>ks_files := update_first (is_fd p fd) (map_option (\<lambda>f. f\<lparr>of_descriptor := d\<rparr>)) (ks_files s)\<rparr>"

text \<open>A table entry replaced in place, by the result of an operation on it.\<close>

definition with_pipe :: "pid \<Rightarrow> u64 \<Rightarrow> (pipe \<Rightarrow> (syscall_error + 'a) \<times> pipe) \<Rightarrow> ('s, 'a) sys" where
  "with_pipe p i f s =
     (case find (owned_pipe p i) (ks_pipes s) of
        Some (Some q) \<Rightarrow>
          (fst (f q), s\<lparr>ks_pipes := update_first (owned_pipe p i) (\<lambda>_. Some (snd (f q))) (ks_pipes s)\<rparr>)
      | _ \<Rightarrow> (Inl EInvalidArgument, s))"

definition write_pipe :: "u64 \<Rightarrow> bytes \<Rightarrow> ('s, nat) sys" where
  "write_pipe fd source =
     sys_bind current_pid (\<lambda>p.
     sys_bind (sys_get (\<lambda>s. find_file s p fd)) (\<lambda>file.
     case file of
       None \<Rightarrow> sys_fail EInvalidArgument
     | Some f \<Rightarrow>
         (case of_descriptor f of
            PipeWrite pipe_id \<Rightarrow> with_pipe p pipe_id (pipe_write source)
          | _ \<Rightarrow> sys_fail EInvalidArgument)))"

definition write_descriptor :: "'s senv \<Rightarrow> u64 \<Rightarrow> bytes \<Rightarrow> ('s, nat) sys" where
  "write_descriptor env fd source =
     sys_bind current_pid (\<lambda>p.
     sys_bind (sys_get (\<lambda>s. find_file s p fd)) (\<lambda>file.
     case file of
       None \<Rightarrow> sys_fail EInvalidArgument
     | Some f \<Rightarrow>
         (case of_descriptor f of
            FileDesc target offset \<Rightarrow>
              sys_bind (sys_guard (\<not> ot_readonly target) EPermissionDenied) (\<lambda>_.
              sys_bind (sys_fs (write_node (e_mounts env) (ot_node target) offset source)) (\<lambda>r.
              sys_bind (sys_lift r) (\<lambda>written.
              sys_bind (sys_modify (set_descriptor p fd (FileDesc target (offset + written)))) (\<lambda>_. sys_return written))))
          | PipeWrite _ \<Rightarrow> write_pipe fd source
          | _ \<Rightarrow> sys_fail EInvalidArgument)))"

definition user_text :: "bytes \<Rightarrow> bytes" where
  "user_text bs =
     (if utf8_valid bs then bs
      else str ''[USER bytes]'' @ concat (map (\<lambda>b. 0x20 # hex_u8 b) bs) @ [0x0A])"

definition write_user_buffer :: "'s senv \<Rightarrow> u64 \<Rightarrow> u64 \<Rightarrow> u64 \<Rightarrow> ('s, u64) sys" where
  "write_user_buffer env fd ptr len =
     sys_bind (sys_guard (\<not> len > MAX_WRITE_LEN) EInvalidArgument) (\<lambda>_.
     sys_bind (read_user_bytes env ptr len) (\<lambda>bs.
     if fd \<noteq> 1 \<and> fd \<noteq> 2
     then sys_bind (write_descriptor env fd bs) (\<lambda>written. sys_return (of_nat written))
     else sys_bind (sys_modify (print_console (user_text bs))) (\<lambda>_. sys_return len)))"

definition user_write_range :: "'s senv \<Rightarrow> u64 \<Rightarrow> u64 \<Rightarrow> ('s, unit) sys" where
  "user_write_range env ptr len = checked env ptr len PageWrite"

text \<open>\<^verbatim>\<open>list_dir_to_user\<close> and \<^verbatim>\<open>read_file_to_user\<close> differ in the function of the filesystem.\<close>

definition path_to_user ::
    "('s mount list \<Rightarrow> 's \<Rightarrow> bytes \<Rightarrow> bytes \<Rightarrow> bytes \<Rightarrow> (fs_error + nat) \<times> bytes) \<Rightarrow>
     's senv \<Rightarrow> u64 \<Rightarrow> u64 \<Rightarrow> u64 \<Rightarrow> u64 \<Rightarrow> ('s, u64) sys"
where
  "path_to_user oper env path_ptr path_len out_ptr out_len =
     sys_bind (read_user_str env path_ptr path_len) (\<lambda>path.
     sys_bind (sys_get current_cwd) (\<lambda>cwd.
     sys_bind (user_write_range env out_ptr out_len) (\<lambda>_.
     sys_bind (fill_user_buffer env out_ptr out_len (\<lambda>s. oper (e_mounts env) (ks_fs s) cwd path)) (\<lambda>r.
     sys_bind (sys_lift r) (\<lambda>written. sys_return (of_nat written))))))"

definition list_dir_to_user :: "'s senv \<Rightarrow> u64 \<Rightarrow> u64 \<Rightarrow> u64 \<Rightarrow> u64 \<Rightarrow> ('s, u64) sys" where
  "list_dir_to_user = path_to_user list_to_buffer"

definition read_file_to_user :: "'s senv \<Rightarrow> u64 \<Rightarrow> u64 \<Rightarrow> u64 \<Rightarrow> u64 \<Rightarrow> ('s, u64) sys" where
  "read_file_to_user = path_to_user read_to_buffer"

definition user_file_stat :: "file_stat \<Rightarrow> bytes" where
  "user_file_stat st =
     u64_le (of_nat (fst_size st)) @ u64_le (if fst_readonly st then 1 else 0)
     @ u64_le (case fst_file_type st of File \<Rightarrow> 1 | Directory \<Rightarrow> 2) @ u64_le (vn_inode (fst_node st))"

definition stat_to_user :: "'s senv \<Rightarrow> u64 \<Rightarrow> u64 \<Rightarrow> u64 \<Rightarrow> u64 \<Rightarrow> ('s, u64) sys" where
  "stat_to_user env path_ptr path_len out_ptr out_len =
     sys_bind (read_user_str env path_ptr path_len) (\<lambda>path.
     sys_bind (sys_get (\<lambda>s. stat_from (e_mounts env) (ks_fs s) (current_cwd s) path)) (\<lambda>r.
     sys_bind (sys_lift r) (\<lambda>st. copy_to_user_buffer env out_ptr out_len (user_file_stat st))))"

definition getcwd_to_user :: "'s senv \<Rightarrow> u64 \<Rightarrow> u64 \<Rightarrow> ('s, u64) sys" where
  "getcwd_to_user env out_ptr out_len = sys_bind (sys_get current_cwd) (copy_to_user_buffer env out_ptr out_len)"

definition sys_state :: "('s ks \<Rightarrow> 'a \<times> 's ks) \<Rightarrow> ('s, 'a) sys" where
  "sys_state f s = (let (r, s) = f s in (Inr r, s))"

definition chdir_user :: "'s senv \<Rightarrow> u64 \<Rightarrow> u64 \<Rightarrow> ('s, u64) sys" where
  "chdir_user env path_ptr path_len =
     sys_bind (read_user_str env path_ptr path_len) (\<lambda>path.
     sys_bind (sys_state (change_current_working_directory (e_mounts env) path)) (\<lambda>r.
     sys_bind (sys_lift r) (\<lambda>_. sys_return 0)))"

definition syscall_set_current_user :: "'s senv \<Rightarrow> u64 \<Rightarrow> u64 \<Rightarrow> ('s, u64) sys" where
  "syscall_set_current_user env name_ptr name_len =
     sys_bind (read_user_str env name_ptr name_len) (\<lambda>name.
     sys_bind (sys_guard (trim_ascii_spaces name \<noteq> []) EInvalidArgument) (\<lambda>_.
     sys_bind current_pid (\<lambda>p.
     sys_bind (sys_proc (set_credentials p (credentials_from_username name))) (\<lambda>changed.
     sys_bind (sys_guard changed EInvalidArgument) (\<lambda>_. sys_return 0)))))"

definition descriptor_for_target :: "open_target \<Rightarrow> descriptor" where
  "descriptor_for_target target =
     (if ot_file_type target = File then FileDesc target 0 else DirDesc (ot_path target) 0)"

text \<open>The end of \<^verbatim>\<open>open_file\<close> and \<^verbatim>\<open>create_file\<close>: a free descriptor number in a free slot.\<close>

definition install_descriptor :: "descriptor \<Rightarrow> ('s, u64) sys" where
  "install_descriptor d =
     sys_bind current_pid (\<lambda>p.
     sys_bind (sys_get (\<lambda>s. next_fd_for_pid (ks_files s) p)) (\<lambda>fd.
     sys_bind (sys_ok_or fd EInvalidArgument) (\<lambda>fd.
     sys_bind (sys_get (\<lambda>s. first_free (ks_files s))) (\<lambda>slot.
     sys_bind (sys_ok_or slot EInvalidArgument) (\<lambda>slot.
     sys_bind (sys_modify (\<lambda>s. s\<lparr>ks_files := (ks_files s)
                 [slot := Some \<lparr>of_pid = p, of_fd = fd, of_descriptor = d\<rparr>]\<rparr>)) (\<lambda>_. sys_return fd))))))"

definition sys_open_file :: "'s senv \<Rightarrow> u64 \<Rightarrow> u64 \<Rightarrow> ('s, u64) sys" where
  "sys_open_file env path_ptr path_len =
     sys_bind (read_user_str env path_ptr path_len) (\<lambda>path.
     sys_bind (sys_get (\<lambda>s. open_from (e_mounts env) (ks_fs s) (current_cwd s) path)) (\<lambda>r.
     sys_bind (sys_lift r) (\<lambda>target. install_descriptor (descriptor_for_target target))))"

definition create_file :: "'s senv \<Rightarrow> u64 \<Rightarrow> u64 \<Rightarrow> ('s, u64) sys" where
  "create_file env path_ptr path_len =
     sys_bind (read_user_str env path_ptr path_len) (\<lambda>path.
     sys_bind (sys_get current_cwd) (\<lambda>cwd.
     sys_bind (sys_fs (create_from (e_mounts env) cwd path)) (\<lambda>r.
     sys_bind (sys_lift r) (\<lambda>target. install_descriptor (FileDesc target 0)))))"

definition file_open :: "vfs_node_id \<Rightarrow> open_file option list \<Rightarrow> bool" where
  "file_open node files =
     list_ex (\<lambda>e. case e of None \<Rightarrow> False
                  | Some f \<Rightarrow> (case of_descriptor f of FileDesc t _ \<Rightarrow> ot_node t = node | _ \<Rightarrow> False)) files"

definition unlink_file :: "'s senv \<Rightarrow> u64 \<Rightarrow> u64 \<Rightarrow> ('s, u64) sys" where
  "unlink_file env path_ptr path_len =
     sys_bind (read_user_str env path_ptr path_len) (\<lambda>path.
     sys_bind (sys_get current_cwd) (\<lambda>cwd.
     sys_bind (sys_get (\<lambda>s. open_from (e_mounts env) (ks_fs s) cwd path)) (\<lambda>r.
     sys_bind (sys_lift r) (\<lambda>target.
     sys_bind (sys_guard (\<not> (ot_readonly target \<or> ot_file_type target \<noteq> File)) EPermissionDenied) (\<lambda>_.
     sys_bind (sys_get (\<lambda>s. file_open (ot_node target) (ks_files s))) (\<lambda>is_open.
     sys_bind (sys_guard (\<not> is_open) EWouldBlock) (\<lambda>_.
     sys_bind (sys_fs (unlink_from (e_mounts env) cwd path)) (\<lambda>r.
     sys_bind (sys_lift r) (\<lambda>_. sys_return 0)))))))))"

definition mkdir_user :: "'s senv \<Rightarrow> u64 \<Rightarrow> u64 \<Rightarrow> ('s, u64) sys" where
  "mkdir_user env path_ptr path_len =
     sys_bind (read_user_str env path_ptr path_len) (\<lambda>path.
     sys_bind (sys_get current_cwd) (\<lambda>cwd.
     sys_bind (sys_fs (mkdir_from (e_mounts env) cwd path)) (\<lambda>r.
     sys_bind (sys_lift r) (\<lambda>_. sys_return 0))))"

definition rmdir_user :: "'s senv \<Rightarrow> u64 \<Rightarrow> u64 \<Rightarrow> ('s, u64) sys" where
  "rmdir_user env path_ptr path_len =
     sys_bind (read_user_str env path_ptr path_len) (\<lambda>path.
     sys_bind (sys_get current_cwd) (\<lambda>cwd.
     sys_bind (sys_fs (rmdir_from (e_mounts env) cwd path)) (\<lambda>r.
     sys_bind (sys_lift r) (\<lambda>_. sys_return 0))))"

definition rename_paths :: "'s senv \<Rightarrow> u64 \<Rightarrow> u64 \<Rightarrow> u64 \<Rightarrow> u64 \<Rightarrow> ('s, bytes \<times> bytes) sys" where
  "rename_paths env old_ptr old_len new_ptr new_len =
     sys_bind (read_user_str env old_ptr old_len) (\<lambda>old_path.
     sys_bind (read_user_str env new_ptr new_len) (\<lambda>new_path. sys_return (old_path, new_path)))"

definition rename_file ::
    "'s senv \<Rightarrow> u64 \<Rightarrow> u64 \<Rightarrow> u64 \<Rightarrow> u64 \<Rightarrow> 's ks \<Rightarrow> ((syscall_error + u64) \<times> 's ks) option"
where
  "rename_file env old_ptr old_len new_ptr new_len s =
     (case rename_paths env old_ptr old_len new_ptr new_len s of
        (Inl e, s) \<Rightarrow> Some (Inl e, s)
      | (Inr (old_path, new_path), s) \<Rightarrow>
          (case rename_from (e_mounts env) (current_cwd s) old_path new_path (ks_fs s) of
             None \<Rightarrow> None
           | Some (r, v) \<Rightarrow> Some (case r of Inl _ \<Rightarrow> Inl EInvalidArgument | Inr _ \<Rightarrow> Inr 0, s\<lparr>ks_fs := v\<rparr>)))"

text \<open>The loop of \<^verbatim>\<open>read_stdin_to_user\<close>: at most \<open>n\<close> keys, up to the end of a line.\<close>

fun take_keys :: "nat \<Rightarrow> input \<Rightarrow> bytes \<times> input" where
  "take_keys 0 i = ([], i)"
| "take_keys (Suc n) i =
     (case dequeue_keyboard_byte i of
        (None, i) \<Rightarrow> ([], i)
      | (Some b, i) \<Rightarrow> if b = 0x0A then ([b], i) else let (bs, i) = take_keys n i in (b # bs, i))"

definition read_stdin_to_user :: "'s senv \<Rightarrow> u64 \<Rightarrow> u64 \<Rightarrow> ('s, u64) sys" where
  "read_stdin_to_user env out_ptr out_len =
     sys_bind (sys_guard (\<not> (out_len = 0 \<or> out_len > MAX_READ_LEN)) EInvalidArgument) (\<lambda>_.
     sys_bind (user_write_range env out_ptr out_len) (\<lambda>_.
     sys_bind (sys_state (\<lambda>s. let (bs, i) = take_keys (unat out_len) (ks_input s) in (bs, s\<lparr>ks_input := i\<rparr>))) (\<lambda>bs.
     sys_bind (sys_modify (store_user (e_pg env) out_ptr bs)) (\<lambda>_.
     if bs = [] then sys_fail EWouldBlock else sys_return (of_nat (length bs))))))"

definition read_pipe :: "'s senv \<Rightarrow> u64 \<Rightarrow> pid \<Rightarrow> u64 \<Rightarrow> u64 \<Rightarrow> ('s, u64) sys" where
  "read_pipe env pipe_id p out_ptr out_len =
     sys_bind (with_pipe p pipe_id (pipe_read (unat out_len))) (\<lambda>bs.
     sys_bind (sys_modify (store_user (e_pg env) out_ptr bs)) (\<lambda>_. sys_return (of_nat (length bs))))"

definition read_fd_to_user :: "'s senv \<Rightarrow> u64 \<Rightarrow> u64 \<Rightarrow> u64 \<Rightarrow> ('s, u64) sys" where
  "read_fd_to_user env fd out_ptr out_len =
     sys_bind (sys_guard (\<not> out_len > MAX_READ_LEN) EInvalidArgument) (\<lambda>_.
     sys_bind (user_write_range env out_ptr out_len) (\<lambda>_.
     if fd = 0 then read_stdin_to_user env out_ptr out_len
     else
       sys_bind current_pid (\<lambda>p.
       sys_bind (sys_get (\<lambda>s. find_file s p fd)) (\<lambda>file.
       case file of
         None \<Rightarrow> sys_fail EInvalidArgument
       | Some f \<Rightarrow>
           (case of_descriptor f of
              FileDesc target offset \<Rightarrow>
                sys_bind (fill_user_buffer env out_ptr out_len
                            (\<lambda>s. read_node (e_mounts env) (ks_fs s) (ot_node target) offset)) (\<lambda>r.
                sys_bind (sys_lift r) (\<lambda>n.
                sys_bind (sys_modify (set_descriptor p fd (FileDesc target (offset + n)))) (\<lambda>_. sys_return (of_nat n))))
            | DirDesc path offset \<Rightarrow>
                sys_bind (sys_get (\<lambda>s. list_to_buffer (e_mounts env) (ks_fs s) [SLASH] (np_as_str path)
                                         (replicate DIRECTORY_READ_BUFFER_SIZE 0))) (\<lambda>(r, listing).
                sys_bind (sys_lift r) (\<lambda>len.
                let n = min (len - offset) (unat out_len)
                in sys_bind (sys_modify (store_user (e_pg env) out_ptr (take n (drop offset listing)))) (\<lambda>_.
                   sys_bind (sys_modify (set_descriptor p fd (DirDesc path (offset + n)))) (\<lambda>_. sys_return (of_nat n)))))
            | PipeRead pipe_id \<Rightarrow> read_pipe env pipe_id p out_ptr out_len
            | PipeWrite _ \<Rightarrow> sys_fail EInvalidArgument)))))"

definition close_fd :: "u64 \<Rightarrow> ('s, u64) sys" where
  "close_fd fd = sys_bind current_pid (\<lambda>p. sys_bind (close_fd_for_pid p fd) (\<lambda>_. sys_return 0))"

section \<open>Pipes, events and messages\<close>

definition second_free :: "open_file option list \<Rightarrow> nat \<Rightarrow> nat option" where
  "second_free files read_slot = find (\<lambda>i. i \<noteq> read_slot \<and> files ! i = None) [0..<length files]"

text \<open>The table updates of \<^verbatim>\<open>create_pipe\<close>; the identifier is spent even when no slot is free.\<close>

definition install_pipe :: "pid \<Rightarrow> u64 \<Rightarrow> u64 \<Rightarrow> nat \<Rightarrow> nat \<Rightarrow> ('s, unit) sys" where
  "install_pipe p read_fd write_fd read_slot write_slot s =
     (let pipe_id = ks_next_pipe_id s; s = s\<lparr>ks_next_pipe_id := pipe_id + 1\<rparr>
      in case first_free (ks_pipes s) of
           None \<Rightarrow> (Inl EWouldBlock, s)
         | Some pipe_slot \<Rightarrow>
             (Inr (), s\<lparr>ks_pipes := (ks_pipes s)[pipe_slot := Some (pipe_new pipe_id p)],
                        ks_files := (ks_files s)
                          [read_slot := Some \<lparr>of_pid = p, of_fd = read_fd, of_descriptor = PipeRead pipe_id\<rparr>,
                           write_slot := Some \<lparr>of_pid = p, of_fd = write_fd, of_descriptor = PipeWrite pipe_id\<rparr>]\<rparr>))"

definition create_pipe :: "'s senv \<Rightarrow> u64 \<Rightarrow> u64 \<Rightarrow> ('s, u64) sys" where
  "create_pipe env out_ptr out_len =
     sys_bind (sys_guard (\<not> out_len < 16) EInvalidArgument) (\<lambda>_.
     sys_bind (user_write_range env out_ptr 16) (\<lambda>_.
     sys_bind current_pid (\<lambda>p.
     sys_bind (sys_get ks_files) (\<lambda>files.
     sys_bind (sys_ok_or (next_fd_for_pid files p) EInvalidArgument) (\<lambda>read_fd.
     sys_bind (sys_ok_or (next_fd_for_pid_excluding files p read_fd) EInvalidArgument) (\<lambda>write_fd.
     sys_bind (sys_ok_or (first_free files) EInvalidArgument) (\<lambda>read_slot.
     sys_bind (sys_ok_or (second_free files read_slot) EInvalidArgument) (\<lambda>write_slot.
     sys_bind (install_pipe p read_fd write_fd read_slot write_slot) (\<lambda>_.
     sys_bind (sys_modify (store_user (e_pg env) out_ptr (u64_le read_fd @ u64_le write_fd))) (\<lambda>_.
     sys_return 0))))))))))"

definition owned_event :: "pid \<Rightarrow> u64 \<Rightarrow> event option \<Rightarrow> bool" where
  "owned_event p i e = (case e of None \<Rightarrow> False | Some v \<Rightarrow> ev_id v = i \<and> ev_owner_pid v = p)"

definition set_event :: "pid \<Rightarrow> u64 \<Rightarrow> event option \<Rightarrow> 's ks \<Rightarrow> 's ks" where
  "set_event p i e s = s\<lparr>ks_events := update_first (owned_event p i) (\<lambda>_. e) (ks_events s)\<rparr>"

definition find_event :: "pid \<Rightarrow> u64 \<Rightarrow> ('s, event) sys" where
  "find_event p i =
     sys_bind (sys_get (\<lambda>s. find (owned_event p i) (ks_events s))) (\<lambda>e.
     case e of Some (Some v) \<Rightarrow> sys_return v | _ \<Rightarrow> sys_fail EInvalidArgument)"

text \<open>The identifier is spent even when no slot is free, here and for message queues.\<close>

definition create_event :: "('s, u64) sys" where
  "create_event =
     sys_bind current_pid (\<lambda>p.
     sys_bind (sys_state (\<lambda>s. (ks_next_event_id s, s\<lparr>ks_next_event_id := ks_next_event_id s + 1\<rparr>))) (\<lambda>i.
     sys_bind (sys_get (\<lambda>s. first_free (ks_events s))) (\<lambda>slot.
     sys_bind (sys_ok_or slot EWouldBlock) (\<lambda>slot.
     sys_bind (sys_modify (\<lambda>s. s\<lparr>ks_events := (ks_events s)[slot := Some (event_new i p)]\<rparr>)) (\<lambda>_. sys_return i)))))"

definition wait_event :: "'s senv \<Rightarrow> u64 \<Rightarrow> syscall_frame \<Rightarrow> ('s, u64) sys" where
  "wait_event env handle frame =
     sys_bind current_pid (\<lambda>p.
     sys_bind (sys_get (\<lambda>s. k_current_thread (ks_proc s))) (\<lambda>t.
     sys_bind (sys_ok_or t EInvalidArgument) (\<lambda>t.
     sys_bind (find_event p handle) (\<lambda>v.
     if ev_signaled v
     then sys_bind (sys_modify (set_event p handle (Some (v\<lparr>ev_signaled := False\<rparr>)))) (\<lambda>_. sys_return 0)
     else
       let (queued, v) = event_enqueue t v
       in if \<not> queued then sys_fail EWouldBlock
          else
            sys_bind (sys_proc (block_thread (e_now env) t (from_syscall_frame frame))) (\<lambda>blocked.
            sys_bind (sys_modify (set_event p handle (Some (if blocked then v else event_remove t v)))) (\<lambda>_.
            sys_bind (sys_guard blocked EInvalidArgument) (\<lambda>_. sys_return SYSCALL_RETURN_TO_KERNEL)))))))"

text \<open>
  The loop of \<^verbatim>\<open>signal_event\<close>: threads leave the queue until one is woken.  Each round takes a waiter out,
  so one more round than the queue has places suffices.
\<close>

fun wake_waiter :: "nat \<Rightarrow> event \<Rightarrow> kproc \<Rightarrow> bool \<times> event \<times> kproc" where
  "wake_waiter 0 v k = (False, v, k)"
| "wake_waiter (Suc n) v k =
     (case event_dequeue v of
        (None, v) \<Rightarrow> (False, v, k)
      | (Some t, v) \<Rightarrow>
          (case wake_thread t 0 k of
             (True, k) \<Rightarrow> (True, v, k)
           | (False, k) \<Rightarrow> wake_waiter n v k))"

definition signal_event :: "u64 \<Rightarrow> ('s, u64) sys" where
  "signal_event handle =
     sys_bind current_pid (\<lambda>p.
     sys_bind (find_event p handle) (\<lambda>v.
     sys_bind (sys_proc (\<lambda>k. let (woken, v, k) = wake_waiter (Suc MAX_EVENT_WAITERS) v k in ((woken, v), k))) (\<lambda>(woken, v).
     sys_bind (sys_modify (set_event p handle (Some (if woken then v else v\<lparr>ev_signaled := True\<rparr>)))) (\<lambda>_.
     sys_return (if woken then 1 else 0)))))"

definition close_event :: "u64 \<Rightarrow> ('s, u64) sys" where
  "close_event handle =
     sys_bind current_pid (\<lambda>p.
     sys_bind (find_event p handle) (\<lambda>v.
     sys_bind (sys_guard (ev_waiter_count v = 0) EWouldBlock) (\<lambda>_.
     sys_bind (sys_modify (set_event p handle None)) (\<lambda>_. sys_return 0))))"

definition owned_queue :: "pid \<Rightarrow> u64 \<Rightarrow> message_queue option \<Rightarrow> bool" where
  "owned_queue p i e = (case e of None \<Rightarrow> False | Some q \<Rightarrow> q_id q = i \<and> q_owner_pid q = p)"

definition with_queue :: "pid \<Rightarrow> u64 \<Rightarrow> (message_queue \<Rightarrow> (syscall_error + 'a) \<times> message_queue) \<Rightarrow> ('s, 'a) sys" where
  "with_queue p i f s =
     (case find (owned_queue p i) (ks_queues s) of
        Some (Some q) \<Rightarrow>
          (fst (f q), s\<lparr>ks_queues := update_first (owned_queue p i) (\<lambda>_. Some (snd (f q))) (ks_queues s)\<rparr>)
      | _ \<Rightarrow> (Inl EInvalidArgument, s))"

definition create_message_queue :: "('s, u64) sys" where
  "create_message_queue =
     sys_bind current_pid (\<lambda>p.
     sys_bind (sys_state (\<lambda>s. (ks_next_queue_id s, s\<lparr>ks_next_queue_id := ks_next_queue_id s + 1\<rparr>))) (\<lambda>i.
     sys_bind (sys_get (\<lambda>s. first_free (ks_queues s))) (\<lambda>slot.
     sys_bind (sys_ok_or slot EWouldBlock) (\<lambda>slot.
     sys_bind (sys_modify (\<lambda>s. s\<lparr>ks_queues := (ks_queues s)[slot := Some (queue_new i p)]\<rparr>)) (\<lambda>_. sys_return i)))))"

definition send_message :: "'s senv \<Rightarrow> u64 \<Rightarrow> u64 \<Rightarrow> u64 \<Rightarrow> ('s, u64) sys" where
  "send_message env handle ptr len =
     sys_bind (sys_guard (\<not> (len = 0 \<or> unat len > MAX_MESSAGE_SIZE)) EInvalidArgument) (\<lambda>_.
     sys_bind (read_user_bytes env ptr len) (\<lambda>source.
     sys_bind current_pid (\<lambda>p.
     sys_bind (with_queue p handle (queue_send source)) (\<lambda>n. sys_return (of_nat n)))))"

definition receive_message :: "'s senv \<Rightarrow> u64 \<Rightarrow> u64 \<Rightarrow> u64 \<Rightarrow> ('s, u64) sys" where
  "receive_message env handle ptr len =
     sys_bind (sys_guard (\<not> (len = 0 \<or> unat len > MAX_MESSAGE_SIZE)) EInvalidArgument) (\<lambda>_.
     sys_bind (user_write_range env ptr len) (\<lambda>_.
     sys_bind current_pid (\<lambda>p.
     sys_bind (with_queue p handle (queue_receive (unat len))) (\<lambda>bs.
     sys_bind (sys_modify (store_user (e_pg env) ptr bs)) (\<lambda>_. sys_return (of_nat (length bs)))))))"

definition close_message_queue :: "u64 \<Rightarrow> ('s, u64) sys" where
  "close_message_queue handle =
     sys_bind current_pid (\<lambda>p.
     sys_bind (sys_get (\<lambda>s. find (owned_queue p handle) (ks_queues s))) (\<lambda>slot.
     sys_bind (sys_ok_or slot EInvalidArgument) (\<lambda>_.
     sys_bind (sys_modify (\<lambda>s. s\<lparr>ks_queues := update_first (owned_queue p handle) (\<lambda>_. None) (ks_queues s)\<rparr>)) (\<lambda>_.
     sys_return 0))))"

section \<open>Programs and processes\<close>

text \<open>\<^verbatim>\<open>exec_user_program\<close> and \<^verbatim>\<open>exec_background_user_program\<close> differ in the job mode.\<close>

definition exec_with_mode :: "job_mode \<Rightarrow> 's senv \<Rightarrow> u64 \<Rightarrow> u64 \<Rightarrow> u64 \<Rightarrow> u64 \<Rightarrow> ('s, u64) sys" where
  "exec_with_mode jm env path_ptr path_len arg_ptr arg_size =
     sys_bind (read_user_str env path_ptr path_len) (\<lambda>path.
     sys_bind (if arg_size = 0 then sys_return None
               else sys_bind (read_user_str env arg_ptr arg_size) (\<lambda>a. sys_return (Some a))) (\<lambda>arg.
     sys_bind (sys_state (request_path_with_arg_and_mode (e_userland env) path arg jm)) (\<lambda>r.
     sys_bind (sys_lift r) (\<lambda>p. sys_return (ucast p)))))"

definition exec_user_program :: "'s senv \<Rightarrow> u64 \<Rightarrow> u64 \<Rightarrow> u64 \<Rightarrow> u64 \<Rightarrow> ('s, u64) sys" where
  "exec_user_program = exec_with_mode Foreground"

definition exec_background_user_program :: "'s senv \<Rightarrow> u64 \<Rightarrow> u64 \<Rightarrow> u64 \<Rightarrow> u64 \<Rightarrow> ('s, u64) sys" where
  "exec_background_user_program = exec_with_mode Background"

definition wait_for_pending_child :: "'s senv \<Rightarrow> syscall_frame \<Rightarrow> ('s, u64) sys" where
  "wait_for_pending_child env frame =
     sys_bind (sys_ok_or (try_u32 (f_arg0 frame)) EInvalidArgument) (\<lambda>p.
     sys_bind current_pid (\<lambda>parent_pid.
     sys_bind (sys_proc (reap_child parent_pid p)) (\<lambda>reaped.
     case reaped of
       Some (_, _, status) \<Rightarrow> sys_return status
     | None \<Rightarrow>
         sys_bind (sys_get (\<lambda>s. (pending_pid s, wait_target_status (ks_proc s) parent_pid p))) (\<lambda>(queued, status).
         if queued \<noteq> Some p
         then sys_fail (case status of
                          WaitMissing \<Rightarrow> ENoSuchProcess
                        | WaitNotChild _ \<Rightarrow> ENotChild
                        | WaitNotExited _ \<Rightarrow> EWouldBlock
                        | WaitReapable \<Rightarrow> EWouldBlock)
         else
           sys_bind (sys_proc (mark_waiting (e_now env) parent_pid p (from_syscall_frame frame))) (\<lambda>waiting.
           sys_bind (sys_guard waiting EInvalidArgument) (\<lambda>_.
           sys_bind (sys_modify (request_user_shell_wait parent_pid p)) (\<lambda>_.
           sys_return SYSCALL_RETURN_TO_KERNEL)))))))"

text \<open>The start of the listings: \<^verbatim>\<open>procs_to_user\<close>, \<^verbatim>\<open>pci_list_to_user\<close> and the three after them.\<close>

definition listing_to_user ::
    "'s senv \<Rightarrow> ('s ks \<Rightarrow> bytes \<Rightarrow> nat \<times> bytes) \<Rightarrow> u64 \<Rightarrow> u64 \<Rightarrow> ('s, nat) sys"
where
  "listing_to_user env f out_ptr out_len =
     sys_bind (sys_guard (\<not> (out_len = 0 \<or> out_len > MAX_READ_LEN)) EInvalidArgument) (\<lambda>_.
     sys_bind (user_write_range env out_ptr out_len) (\<lambda>_.
     fill_user_buffer env out_ptr out_len f))"

definition procs_to_user :: "'s senv \<Rightarrow> u64 \<Rightarrow> u64 \<Rightarrow> ('s, u64) sys" where
  "procs_to_user env out_ptr out_len =
     sys_bind (listing_to_user env (\<lambda>s out.
         write_processes_to_buffer (e_now env) (ks_proc s) out (ks_traps s) (ks_yields s) (length (ks_pending s)))
       out_ptr out_len) (\<lambda>written. sys_return (of_nat (min written (unat out_len))))"

definition pci_list_to_user :: "'s senv \<Rightarrow> u64 \<Rightarrow> u64 \<Rightarrow> ('s, u64) sys" where
  "pci_list_to_user env out_ptr out_len =
     sys_bind (listing_to_user env (\<lambda>_. write_devices_to_buffer (dv_pci (e_devices env))) out_ptr out_len) (\<lambda>written.
     sys_return (of_nat (min written (unat out_len))))"

definition netdev_list_to_user :: "'s senv \<Rightarrow> u64 \<Rightarrow> u64 \<Rightarrow> ('s, u64) sys" where
  "netdev_list_to_user env out_ptr out_len =
     sys_bind (listing_to_user env (\<lambda>_. write_network_to_buffer (dv_network (e_devices env))) out_ptr out_len) (\<lambda>written.
     sys_return (of_nat (min written (unat out_len))))"

definition kernel_log_to_user :: "'s senv \<Rightarrow> u64 \<Rightarrow> u64 \<Rightarrow> ('s, u64) sys" where
  "kernel_log_to_user env out_ptr out_len =
     sys_bind (listing_to_user env (\<lambda>_. copy_recent_log (dv_log (e_devices env))) out_ptr out_len) (\<lambda>n.
     sys_return (of_nat n))"

definition driver_status_to_user :: "'s senv \<Rightarrow> u64 \<Rightarrow> u64 \<Rightarrow> ('s, u64) sys" where
  "driver_status_to_user env out_ptr out_len =
     sys_bind (listing_to_user env (\<lambda>_. write_to_buffer (dv_statuses (e_devices env))) out_ptr out_len) (\<lambda>n.
     sys_return (of_nat n))"

section \<open>Signals, groups and sessions\<close>

fun signal_failure :: "signal_error \<Rightarrow> syscall_error" where
  "signal_failure SigMissing = ENoSuchProcess"
| "signal_failure SigAlreadyExited = ENoSuchProcess"
| "signal_failure SigPermissionDenied = EPermissionDenied"
| "signal_failure SigKernelTask = EPermissionDenied"
| "signal_failure SigSelfTarget = EInvalidArgument"

definition terminate_process :: "'s senv \<Rightarrow> u64 \<Rightarrow> u64 \<Rightarrow> ('s, u64) sys" where
  "terminate_process env p signal =
     sys_bind (sys_ok_or (try_u32 p) EInvalidArgument) (\<lambda>p.
     if signal = SIGCONT
     then sys_bind current_pid (\<lambda>caller_pid.
          sys_bind (sys_proc (continue_user_process caller_pid p)) (\<lambda>continued.
          sys_bind (sys_guard continued EInvalidArgument) (\<lambda>_. sys_return 0)))
     else
       sys_bind (sys_guard (signal = SIGTERM) EInvalidArgument) (\<lambda>_.
       sys_bind current_pid (\<lambda>caller_pid.
       sys_bind (sys_state (user_send_signal (e_now env) caller_pid p signal)) (\<lambda>r.
       case r of
         Inr (Pending _ _ _ _) \<Rightarrow> sys_return 1
       | Inr (Handled _ _ _ _) \<Rightarrow> sys_return 0
       | Inr (Ignored _ _ _) \<Rightarrow> sys_return 0
       | Inr (Terminated ended) \<Rightarrow>
           sys_bind (if str_parent_woken ended
                     then sys_state (take_user_shell_wait_request_for_child (str_pid ended)) else sys_return None) (\<lambda>_.
           sys_return 0)
       | Inl err \<Rightarrow> sys_fail (signal_failure err)))))"

definition SIGTERM_MASK :: u64 where "SIGTERM_MASK = push_bit 14 1"

datatype signal_mask_syscall = Updated u64 | ContextSwitch

definition mask_how :: "u64 \<Rightarrow> signal_mask_how option" where
  "mask_how how = (if how = 0 then Some Block else if how = 1 then Some Unblock else if how = 2 then Some SetMask else None)"

definition syscall_update_signal_mask :: "'s senv \<Rightarrow> syscall_frame \<Rightarrow> ('s, signal_mask_syscall) sys" where
  "syscall_update_signal_mask env frame =
     sys_bind (sys_guard (f_arg1 frame AND NOT SIGTERM_MASK = 0) EInvalidArgument) (\<lambda>_.
     sys_bind (sys_ok_or (mask_how (f_arg0 frame)) EInvalidArgument) (\<lambda>how.
     sys_bind current_pid (\<lambda>p.
     sys_bind (sys_proc (update_signal_mask p how (f_arg1 frame))) (\<lambda>update.
     sys_bind (sys_ok_or update EInvalidArgument) (\<lambda>update.
     case smu_delivered_signal update of
       None \<Rightarrow> sys_return (Updated (smu_old_mask update))
     | Some signal \<Rightarrow>
         sys_bind (sys_get (\<lambda>s. signal_disposition (ks_proc s) p signal)) (\<lambda>disposition.
         sys_bind (sys_ok_or disposition EInvalidArgument) (\<lambda>disposition.
         if disposition = SIG_IGN then sys_return (Updated (smu_old_mask update))
         else if disposition = SIG_DFL
         then sys_bind (sys_state (mark_current_user_exited (e_now env) (128 + signal))) (\<lambda>_. sys_return ContextSwitch)
         else
           sys_bind (sys_proc (checkout_current_user_for_signal_handler (e_now env) signal disposition
                       ((from_syscall_frame frame)\<lparr>c_rax := smu_old_mask update\<rparr>))) (\<lambda>report.
           sys_bind (sys_ok_or report EInvalidArgument) (\<lambda>_. sys_return ContextSwitch)))))))))"

definition set_signal_action :: "'s senv \<Rightarrow> u64 \<Rightarrow> u64 \<Rightarrow> ('s, u64) sys" where
  "set_signal_action env signal disposition =
     sys_bind (sys_guard (signal = SIGTERM) EInvalidArgument) (\<lambda>_.
     sys_bind (if disposition > SIG_IGN then check_entry env disposition else sys_return ()) (\<lambda>_.
     sys_bind current_pid (\<lambda>p.
     sys_bind (sys_proc (set_signal_disposition p signal disposition)) (\<lambda>old. sys_ok_or old EInvalidArgument))))"

definition current_pending_signals :: "('s, u64) sys" where
  "current_pending_signals =
     sys_bind current_pid (\<lambda>p.
     sys_bind (sys_get (\<lambda>s. pending_signals (ks_proc s) p)) (\<lambda>r. sys_ok_or r EInvalidArgument))"

definition current_process_group :: "('s, u64) sys" where
  "current_process_group =
     sys_bind (sys_get (\<lambda>s. map_option p_process_group_id (current_process (ks_proc s)))) (\<lambda>g.
     sys_bind (sys_ok_or g EInvalidArgument) (\<lambda>g. sys_return (ucast g)))"

fun map_process_group_error :: "process_group_error \<Rightarrow> syscall_error" where
  "map_process_group_error GroupErrMissing = ENoSuchProcess"
| "map_process_group_error NotChild = EPermissionDenied"
| "map_process_group_error DifferentSession = EPermissionDenied"
| "map_process_group_error SessionLeader = EInvalidArgument"
| "map_process_group_error GroupMissing = EInvalidArgument"
| "map_process_group_error GroupLeader = EInvalidArgument"

definition group_result :: "process_group_error + pid \<Rightarrow> ('s, u64) sys" where
  "group_result r = (case r of Inl e \<Rightarrow> sys_fail (map_process_group_error e) | Inr g \<Rightarrow> sys_return (ucast g))"

definition syscall_set_process_group :: "u64 \<Rightarrow> u64 \<Rightarrow> ('s, u64) sys" where
  "syscall_set_process_group p pgid =
     sys_bind current_pid (\<lambda>caller_pid.
     sys_bind (if p = 0 then sys_return caller_pid else sys_ok_or (try_u32 p) EInvalidArgument) (\<lambda>target_pid.
     sys_bind (sys_ok_or (try_u32 pgid) EInvalidArgument) (\<lambda>pgid.
     sys_bind (sys_proc (set_process_group caller_pid target_pid pgid)) group_result)))"

definition get_session_id :: "u64 \<Rightarrow> ('s, u64) sys" where
  "get_session_id p =
     sys_bind (if p = 0 then current_pid else sys_ok_or (try_u32 p) EInvalidArgument) (\<lambda>p.
     sys_bind (sys_get (\<lambda>s. map_option p_session_id (get_process (ks_proc s) p))) (\<lambda>sid.
     sys_bind (sys_ok_or sid ENoSuchProcess) (\<lambda>sid. sys_return (ucast sid))))"

definition syscall_create_session :: "('s, u64) sys" where
  "syscall_create_session =
     sys_bind (sys_get (\<lambda>s. k_current_process (ks_proc s))) (\<lambda>p.
     case p of
       None \<Rightarrow> group_result (Inl GroupErrMissing)
     | Some p \<Rightarrow> sys_bind (sys_proc (create_session p)) group_result)"

section \<open>Dispatch\<close>

abbreviation (input) SYS_EXIT :: u64 where "SYS_EXIT \<equiv> 1"
abbreviation (input) SYS_WRITE :: u64 where "SYS_WRITE \<equiv> 2"
abbreviation (input) SYS_YIELD :: u64 where "SYS_YIELD \<equiv> 17"
abbreviation (input) SYS_SLEEP_MS :: u64 where "SYS_SLEEP_MS \<equiv> 19"
abbreviation (input) SYS_REBOOT :: u64 where "SYS_REBOOT \<equiv> 23"
abbreviation (input) SYS_THREAD_EXIT :: u64 where "SYS_THREAD_EXIT \<equiv> 30"
abbreviation (input) SYS_THREAD_JOIN :: u64 where "SYS_THREAD_JOIN \<equiv> 31"
abbreviation (input) SYS_THREAD_SPAWN :: u64 where "SYS_THREAD_SPAWN \<equiv> 32"
abbreviation (input) SYS_SIGPROCMASK :: u64 where "SYS_SIGPROCMASK \<equiv> 42"
abbreviation (input) SYS_SIGRETURN :: u64 where "SYS_SIGRETURN \<equiv> 45"
abbreviation (input) SYS_RENAME :: u64 where "SYS_RENAME \<equiv> 52"

text \<open>
  The arms of \<^verbatim>\<open>dispatch\<close> with their numbers, in the order of the source.  The arm of \<^verbatim>\<open>SYS_RENAME\<close> is the only
  one that may not return; it is in \<^verbatim>\<open>dispatch\<close> itself.
\<close>

definition handlers :: "'s senv \<Rightarrow> syscall_frame \<Rightarrow> (u64 \<times> ('s, u64) sys) list" where
  "handlers env f =
     [(3, uptime_to_user env (f_arg0 f) (f_arg1 f)),
      (4, sys_get (\<lambda>s. ucast (cr_uid (current_credentials (ks_proc s))))),
      (5, sys_get (\<lambda>s. ucast (cr_gid (current_credentials (ks_proc s))))),
      (6, sys_bind (sys_get (\<lambda>s. username (current_credentials (ks_proc s)))) (copy_to_user_buffer env (f_arg0 f) (f_arg1 f))),
      (7, list_dir_to_user env (f_arg0 f) (f_arg1 f) (f_arg2 f) (f_arg3 f)),
      (8, read_file_to_user env (f_arg0 f) (f_arg1 f) (f_arg2 f) (f_arg3 f)),
      (9, stat_to_user env (f_arg0 f) (f_arg1 f) (f_arg2 f) (f_arg3 f)),
      (10, sys_open_file env (f_arg0 f) (f_arg1 f)),
      (11, read_fd_to_user env (f_arg0 f) (f_arg1 f) (f_arg2 f)),
      (12, close_fd (f_arg0 f)),
      (13, exec_user_program env (f_arg0 f) (f_arg1 f) (f_arg2 f) (f_arg3 f)),
      (18, exec_background_user_program env (f_arg0 f) (f_arg1 f) (f_arg2 f) (f_arg3 f)),
      (14, wait_for_pending_child env f),
      (15, procs_to_user env (f_arg0 f) (f_arg1 f)),
      (16, terminate_process env (f_arg0 f) (f_arg1 f)),
      (20, getcwd_to_user env (f_arg0 f) (f_arg1 f)),
      (21, chdir_user env (f_arg0 f) (f_arg1 f)),
      (22, syscall_set_current_user env (f_arg0 f) (f_arg1 f)),
      (SYS_REBOOT, sys_fail ENotImplemented),
      (24, pci_list_to_user env (f_arg0 f) (f_arg1 f)),
      (25, netdev_list_to_user env (f_arg0 f) (f_arg1 f)),
      (26, kernel_log_to_user env (f_arg0 f) (f_arg1 f)),
      (27, driver_status_to_user env (f_arg0 f) (f_arg1 f)),
      (28, sys_return ABI_VERSION),
      (29, syscall_create_user_thread env (f_arg0 f) (f_arg1 f) (f_arg2 f) (f_arg3 f)),
      (SYS_THREAD_EXIT, sys_fail ENotImplemented),
      (SYS_THREAD_JOIN, sys_fail ENotImplemented),
      (SYS_THREAD_SPAWN, spawn_user_thread env (f_arg0 f) (f_arg1 f)),
      (33, create_pipe env (f_arg0 f) (f_arg1 f)),
      (34, create_event),
      (35, wait_event env (f_arg0 f) f),
      (36, signal_event (f_arg0 f)),
      (37, close_event (f_arg0 f)),
      (38, create_message_queue),
      (39, send_message env (f_arg0 f) (f_arg1 f) (f_arg2 f)),
      (40, receive_message env (f_arg0 f) (f_arg1 f) (f_arg2 f)),
      (41, close_message_queue (f_arg0 f)),
      (SYS_SIGPROCMASK, sys_fail ENotImplemented),
      (43, current_pending_signals),
      (44, set_signal_action env (f_arg0 f) (f_arg1 f)),
      (SYS_SIGRETURN, sys_fail ENotImplemented),
      (46, current_process_group),
      (47, syscall_set_process_group (f_arg0 f) (f_arg1 f)),
      (48, get_session_id (f_arg0 f)),
      (49, syscall_create_session),
      (50, create_file env (f_arg0 f) (f_arg1 f)),
      (51, unlink_file env (f_arg0 f) (f_arg1 f)),
      (53, mkdir_user env (f_arg0 f) (f_arg1 f)),
      (54, rmdir_user env (f_arg0 f) (f_arg1 f)),
      (SYS_SLEEP_MS, sys_fail ENotImplemented),
      (SYS_YIELD, sys_fail ENotImplemented),
      (SYS_EXIT, sys_fail ENotImplemented),
      (SYS_WRITE, write_user_buffer env (f_arg0 f) (f_arg1 f) (f_arg2 f))]"

definition dispatch :: "'s senv \<Rightarrow> syscall_frame \<Rightarrow> 's ks \<Rightarrow> ((syscall_error + u64) \<times> 's ks) option" where
  "dispatch env frame s =
     (if f_number frame = SYS_RENAME
      then rename_file env (f_arg0 frame) (f_arg1 frame) (f_arg2 frame) (f_arg3 frame) s
      else Some (case map_of (handlers env frame) (f_number frame) of
                   None \<Rightarrow> sys_fail EUnknownSyscall s | Some h \<Rightarrow> h s))"

text \<open>\<^verbatim>\<open>match ... { Ok(value) => value, Err(err) => err as i64 as u64 }\<close>.\<close>

definition syscall_result :: "(syscall_error + u64) \<times> 's ks \<Rightarrow> u64 \<times> 's ks" where
  "syscall_result r = (case r of (Inr v, s) \<Rightarrow> (v, s) | (Inl e, s) \<Rightarrow> (error_code e, s))"

definition sigreturn :: "'s senv \<Rightarrow> ('s, u64) sys" where
  "sigreturn env =
     sys_bind (sys_proc (checkout_current_user_after_sigreturn (e_now env))) (\<lambda>r.
     sys_bind (sys_ok_or r EInvalidArgument) (\<lambda>_. sys_return SYSCALL_RETURN_TO_KERNEL))"

definition thread_exit :: "'s senv \<Rightarrow> ('s, u64) sys" where
  "thread_exit env =
     sys_bind (sys_proc (mark_current_thread_exited (e_now env))) (\<lambda>r.
     sys_bind (sys_ok_or r EInvalidArgument) (\<lambda>_. sys_return SYSCALL_RETURN_TO_KERNEL))"

definition process_exit :: "'s senv \<Rightarrow> u64 \<Rightarrow> ('s, u64) sys" where
  "process_exit env status =
     sys_bind (sys_state (mark_current_user_exited (e_now env) status)) (\<lambda>_. sys_return SYSCALL_RETURN_TO_KERNEL)"

definition sigprocmask :: "'s senv \<Rightarrow> syscall_frame \<Rightarrow> ('s, u64) sys" where
  "sigprocmask env frame =
     sys_bind (syscall_update_signal_mask env frame) (\<lambda>r.
     sys_return (case r of Updated old_mask \<Rightarrow> old_mask | ContextSwitch \<Rightarrow> SYSCALL_RETURN_TO_KERNEL))"

text \<open>The value a trap leaves in \<^verbatim>\<open>rax\<close>; a reboot does not return.\<close>

definition syscall_interrupt_dispatch :: "'s senv \<Rightarrow> syscall_frame \<Rightarrow> 's ks \<Rightarrow> (u64 \<times> 's ks) option" where
  "syscall_interrupt_dispatch env frame s =
     (let s = s\<lparr>ks_traps := ks_traps s + 1\<rparr>; n = f_number frame
      in if n = SYS_EXIT then Some (syscall_result (process_exit env (f_arg0 frame) s))
         else if n = SYS_THREAD_EXIT then Some (syscall_result (thread_exit env s))
         else if n = SYS_THREAD_JOIN then Some (syscall_result (join_user_thread env frame s))
         else if n = SYS_WRITE
         then Some (syscall_result (write_user_buffer env (f_arg0 frame) (f_arg1 frame) (f_arg2 frame) s))
         else if n = SYS_YIELD then Some (syscall_result (user_yield env frame s))
         else if n = SYS_SLEEP_MS then Some (syscall_result (sleep_current_user env frame s))
         else if n = SYS_SIGPROCMASK then Some (syscall_result (sigprocmask env frame s))
         else if n = SYS_SIGRETURN then Some (syscall_result (sigreturn env s))
         else if n = SYS_REBOOT then None
         else map_option syscall_result (dispatch env frame s))"

end
