(* ===== verification/Syscall_Safety.thy ===== *)
theory Syscall_Safety
  imports Syscalls
begin

text \<open>
  Safety of user memory: a system call writes only to memory its caller may write.  The lemmas go
  through the handlers once, first those that leave memory alone, then those that fill a buffer.
\<close>

section \<open>Operations on the process table that do not touch memory\<close>

lemma mm_helpers [simp]:
  "k_mm (enqueue_ready t k) = k_mm k" "k_mm (remove_from_ready_queue p k) = k_mm k"
  "k_mm (start_process_run now p k) = k_mm k" "k_mm (stop_process_run now p k) = k_mm k"
  "k_mm (set_current_user p' t' k) = k_mm k" "k_mm (snd (take_current_user k)) = k_mm k"
  "k_mm (snd (reserve_tid k)) = k_mm k" "k_mm (snd (reserve_pid k)) = k_mm k"
  "k_mm (fold enqueue_ready ts k) = k_mm k"
  "mm_mem (k_mm (release_stack_opt r k)) = mm_mem (k_mm k)" "mm_mem (k_mm (release_frame f k)) = mm_mem (k_mm k)"
  by (auto simp: enqueue_ready_def remove_from_ready_queue_def start_process_run_def stop_process_run_def
      set_current_user_def take_current_user_def reserve_tid_def reserve_pid_def release_stack_opt_def release_frame_def
      release_prepared_p4_frame_def release_private_thread_stack_def Let_def case_prod_beta split: option.split)
    (induction ts arbitrary: k; simp add: enqueue_ready_def)

lemma mem_threads [simp]:
  "mm_mem (k_mm (snd (create_user_thread p e lo hi rsp a k))) = mm_mem (k_mm k)"
  "mm_mem (k_mm (snd (join_thread now c t ctx k))) = mm_mem (k_mm k)"
  "mm_mem (k_mm (snd (block_thread now t ctx k))) = mm_mem (k_mm k)"
  "mm_mem (k_mm (snd (wake_thread t v k))) = mm_mem (k_mm k)"
  "mm_mem (k_mm (snd (mark_thread_exited now t k))) = mm_mem (k_mm k)"
  "mm_mem (k_mm (snd (set_credentials p cr k))) = mm_mem (k_mm k)"
  "mm_mem (k_mm (snd (set_process_group c p g k))) = mm_mem (k_mm k)"
  "mm_mem (k_mm (snd (create_session p k))) = mm_mem (k_mm k)"
  by (auto simp: create_user_thread_def join_thread_def block_thread_def wake_thread_def mark_thread_exited_def
      set_credentials_def set_process_group_def create_session_def Let_def case_prod_beta split: option.split)

lemma mem_lifecycle [simp]:
  "k_mm (mark_exited now p st k) = k_mm k" "k_mm (snd (mark_waiting now p c ctx k)) = k_mm k"
  "k_mm (snd (mark_sleeping now p w ctx k)) = k_mm k" "k_mm (snd (mark_thread_yielded now t ctx k)) = k_mm k"
  "k_mm (snd (reap_child p c k)) = k_mm k" "k_mm (snd (set_cwd p d k)) = k_mm k"
  "k_mm (snd (record_thread_yield t k)) = k_mm k"
  by (auto simp: mark_exited_def mark_waiting_def mark_sleeping_def mark_thread_yielded_def reap_child_def set_cwd_def
      record_thread_yield_def Let_def case_prod_beta split: option.split)

lemma mem_signals [simp]:
  "k_mm (snd (continue_user_process c p k)) = k_mm k" "k_mm (snd (set_signal_disposition p g d k)) = k_mm k"
  "k_mm (snd (update_signal_mask p how m k)) = k_mm k" "k_mm (snd (activate_signal_handler p g h k)) = k_mm k"
  "k_mm (snd (activate_running_signal_handler now p t g h ctx k)) = k_mm k"
  "k_mm (snd (restore_signal_context now p t k)) = k_mm k"
  "k_mm (snd (terminate_user_process now c p st k)) = k_mm k"
  by (auto simp: continue_user_process_def set_signal_disposition_def update_signal_mask_def activate_signal_handler_def
      activate_running_signal_handler_def restore_signal_context_def terminate_user_process_def Let_def case_prod_beta
      split: option.split sum.split)

lemma mem_send_signal [simp]: "k_mm (snd (send_signal now c p g k)) = k_mm k"
  by (auto simp: send_signal_def Let_def case_prod_beta split: option.split sum.split bool.split)

lemma mem_globals [simp]:
  "mm_mem (k_mm (snd (mark_current_thread_exited now k))) = mm_mem (k_mm k)"
  "k_mm (snd (checkout_current_user_if_yielded now ctx k)) = k_mm k"
  "k_mm (snd (consume_timer_preempt_request_for_yield k)) = k_mm k"
  "k_mm (snd (checkout_current_user_for_signal_handler now g h ctx k)) = k_mm k"
  "k_mm (snd (checkout_current_user_after_sigreturn now k)) = k_mm k"
  by (auto simp: mark_current_thread_exited_def checkout_current_user_if_yielded_def
      consume_timer_preempt_request_for_yield_def checkout_current_user_for_signal_handler_def
      checkout_current_user_after_sigreturn_def case_prod_beta split: option.split bool.split)

section \<open>Handlers that do not touch memory\<close>

lemma kept_state: "(\<And>s. mem_of (snd (f s)) = mem_of s) \<Longrightarrow> mem_kept (sys_state f)"
  by (simp add: mem_kept_def sys_state_def case_prod_beta)

lemma kept_basic [simp]:
  "mem_kept (sys_return x)" "mem_kept (sys_fail e)" "mem_kept (sys_get f)" "mem_kept (sys_guard b e)"
  "mem_kept (sys_ok_or y e)" "mem_kept (sys_lift r)" "mem_kept (read_user_bytes env ptr len)"
  "mem_kept (read_user_str env ptr len)" "mem_kept current_pid" "mem_kept current_layout" "mem_kept (checked env ptr len acc)"
  by (simp_all add: kept_quiet)

lemma mem_closing [simp]:
  "ks_proc (close_process_files p s) = ks_proc s" "ks_proc (snd (close_fd_for_pid p fd s)) = ks_proc s"
  "ks_proc (set_descriptor p fd d s) = ks_proc s" "ks_proc (set_event p i e s) = ks_proc s"
  "ks_proc (print_console bs s) = ks_proc s" "ks_proc (snd (with_pipe p i g s)) = ks_proc s"
  "ks_proc (snd (with_queue p i h s)) = ks_proc s"
  "ks_proc (snd (take_user_shell_wait_request_for_child p s)) = ks_proc s"
  by (auto simp: close_process_files_def close_fd_for_pid_def set_descriptor_def set_event_def print_console_def
      with_pipe_def with_queue_def take_user_shell_wait_request_for_child_def case_prod_beta Let_def split: option.split)

lemma mem_requests [simp]:
  "mem_of (request_user_shell_wait p c s) = mem_of s"
  "mem_of (snd (request_path_with_arg_and_mode u path arg jm s)) = mem_of s"
  "mem_of (snd (change_current_working_directory ms path s)) = mem_of s"
  by (auto simp: request_user_shell_wait_def request_path_with_arg_and_mode_def queue_program_def
      change_current_working_directory_def case_prod_beta Let_def split: option.split sum.split)

lemma mem_exit [simp]: "mem_of (snd (mark_current_user_exited now st s)) = mem_of s"
  by (auto simp: mark_current_user_exited_def Let_def case_prod_beta split: option.split)

lemma mem_user_send_signal [simp]: "mem_of (snd (user_send_signal now c p g s)) = mem_of s"
  by (auto simp: user_send_signal_def Let_def case_prod_beta split: sum.split signal_delivery.split)

lemma mem_wake_waiter [simp]: "mm_mem (k_mm (snd (snd (wake_waiter n v k)))) = mm_mem (k_mm k)"
  by (induction n arbitrary: v k) (simp_all add: case_prod_beta split: option.split bool.split)

lemmas kept_rules = kept_bind kept_proc kept_modify kept_state

lemma kept_with [simp]:
  "mem_kept (with_pipe p i g)" "mem_kept (with_queue p i h)" "mem_kept (close_fd_for_pid p fd)"
  "mem_kept (install_pipe p a b c d)"
  by (simp_all add: mem_kept_def install_pipe_def Let_def split: option.split)

lemma kept_descriptors [simp]:
  "mem_kept (write_pipe fd src)" "mem_kept (write_descriptor env fd src)" "mem_kept (install_descriptor d)"
  "mem_kept (find_event p i)" "mem_kept (check_entry env entry)"
  by (simp_all add: write_pipe_def write_descriptor_def install_descriptor_def find_event_def check_entry_def kept_rules
      split: descriptor.split option.split)

lemma kept_thread_handlers [simp]:
  "mem_kept (join_user_thread env f)" "mem_kept (syscall_create_user_thread env a b c d)" "mem_kept (user_yield env f)"
  "mem_kept (sleep_current_user env f)"
  by (simp_all add: join_user_thread_def syscall_create_user_thread_def user_yield_def sleep_current_user_def Let_def
      kept_rules split: option.split thread_join_status.split)

lemma kept_file_handlers [simp]:
  "mem_kept (write_user_buffer env fd a b)" "mem_kept (chdir_user env a b)" "mem_kept (syscall_set_current_user env a b)"
  "mem_kept (sys_open_file env a b)" "mem_kept (create_file env a b)" "mem_kept (unlink_file env a b)"
  "mem_kept (mkdir_user env a b)" "mem_kept (rmdir_user env a b)" "mem_kept (close_fd fd)"
  by (simp_all add: write_user_buffer_def chdir_user_def syscall_set_current_user_def sys_open_file_def create_file_def
      unlink_file_def mkdir_user_def rmdir_user_def close_fd_def kept_rules)

lemma kept_ipc_handlers [simp]:
  "mem_kept create_event" "mem_kept (wait_event env h f)" "mem_kept (signal_event h)" "mem_kept (close_event h)"
  "mem_kept create_message_queue" "mem_kept (send_message env h a b)" "mem_kept (close_message_queue h)"
  by (simp_all add: create_event_def wait_event_def signal_event_def close_event_def create_message_queue_def
      send_message_def close_message_queue_def Let_def case_prod_beta kept_rules del: wake_waiter.simps)

lemma kept_process_handlers [simp]:
  "mem_kept (exec_user_program env a b c d)" "mem_kept (exec_background_user_program env a b c d)"
  "mem_kept (wait_for_pending_child env f)" "mem_kept (terminate_process env a b)"
  "mem_kept (syscall_update_signal_mask env f)" "mem_kept (set_signal_action env a b)" "mem_kept current_pending_signals"
  "mem_kept current_process_group" "mem_kept (syscall_set_process_group a b)" "mem_kept (get_session_id a)"
  "mem_kept syscall_create_session"
  by (simp_all add: exec_user_program_def exec_background_user_program_def exec_with_mode_def wait_for_pending_child_def
      terminate_process_def syscall_update_signal_mask_def set_signal_action_def current_pending_signals_def
      current_process_group_def syscall_set_process_group_def get_session_id_def syscall_create_session_def group_result_def
      case_prod_beta kept_rules split: option.split sum.split signal_delivery.split)

lemma kept_trap_handlers [simp]:
  "mem_kept (process_exit env st)" "mem_kept (thread_exit env)" "mem_kept (sigreturn env)" "mem_kept (sigprocmask env f)"
  by (simp_all add: process_exit_def thread_exit_def sigreturn_def sigprocmask_def kept_rules)

section \<open>Handlers that write to the caller's buffer\<close>

text \<open>
  A function of the filesystem that fills a buffer is given a slice and cannot change its length.
\<close>

definition buffers_kept :: "'s mount list \<Rightarrow> bool" where
  "buffers_kept mounts \<longleftrightarrow>
     (\<forall>m s path out. m \<in> set mounts \<longrightarrow> length (snd (be_list (mt_backend m) s path out)) = length out) \<and>
     (\<forall>m s i off out. m \<in> set mounts \<longrightarrow> length (snd (be_read (mt_backend m) s i off out)) = length out)"

lemma length_append_line: "append_line out off v = Inr (n, out') \<Longrightarrow> length out' = length out"
  by (auto simp: append_line_def Let_def splice_def split: if_splits)

lemma length_list_mounts: "length (snd (list_mounts ms s dir out n)) = length out"
  by (induction ms s dir out n rule: list_mounts.induct)
    (auto simp: length_append_line split: option.split sum.split prod.split)

lemma max_by_key_in: "max_by_key key xs = Some x \<Longrightarrow> x \<in> set xs"
  by (induction xs arbitrary: x) (auto split: option.splits if_splits)

lemma vfs_resolve_in: "vfs_resolve mounts s path = Inr (m, bp) \<Longrightarrow> m \<in> set mounts"
  by (auto simp: vfs_resolve_def dest!: max_by_key_in split: option.splits)

lemma vfs_mount_in: "vfs_mount mounts i = Inr m \<Longrightarrow> m \<in> set mounts"
  by (auto simp: vfs_mount_def find_Some_iff split: option.splits)

lemma length_list_to_buffer:
  "buffers_kept mounts \<Longrightarrow> length (snd (list_to_buffer mounts s cwd path out)) = length out"
  by (auto simp: list_to_buffer_def buffers_kept_def length_list_mounts case_prod_beta dest!: vfs_resolve_in split: sum.split)

lemma length_read_node: "buffers_kept mounts \<Longrightarrow> length (snd (read_node mounts s node off out)) = length out"
  by (auto simp: read_node_def buffers_kept_def dest!: vfs_mount_in split: sum.split)

lemma length_read_to_buffer:
  "buffers_kept mounts \<Longrightarrow> length (snd (read_to_buffer mounts s cwd path out)) = length out"
  by (simp add: read_to_buffer_def length_read_node split: sum.split)

lemma length_writers [simp]:
  "length (bw_out (write_str cs w)) = length (bw_out w)" "length (bw_out (count_str cs w)) = length (bw_out w)"
proof -
  show "length (bw_out (write_str cs w)) = length (bw_out w)"
    unfolding write_str_def by (induction cs arbitrary: w) (simp_all add: write_byte_def)
  show "length (bw_out (count_str cs w)) = length (bw_out w)"
    unfolding count_str_def by (induction cs arbitrary: w) (simp_all add: count_byte_def)
qed

lemma length_fold_writers [simp]:
  "length (bw_out (fold (\<lambda>x. write_str (f x)) xs w)) = length (bw_out w)"
  "length (bw_out (fold (\<lambda>x. count_str (f x)) xs w)) = length (bw_out w)"
  by (induction xs arbitrary: w) simp_all

lemma length_listings [simp]:
  "length (snd (write_to_buffer ss out)) = length out" "length (snd (write_devices_to_buffer ds out)) = length out"
  "length (snd (write_network_to_buffer ns out)) = length out" "length (snd (copy_recent_log r out)) = length out"
  "length (snd (write_processes_to_buffer now k out t y n)) = length out"
  by (simp_all add: write_to_buffer_def write_devices_to_buffer_def write_network_to_buffer_def copy_recent_log_def
      copy_recent_def write_processes_to_buffer_def bw_new_def Let_def splice_def)

lemma confined_listing:
  assumes "paging_spec (e_pg env)" "\<And>s out. length (snd (f s out)) = length out"
  shows "confined (e_pg env) (listing_to_user env f ptr len)"
  unfolding listing_to_user_def user_write_range_def
  by (intro confined_guard confined_write[OF assms(1)] within_fill assms(2))

lemma confined_listings:
  assumes "paging_spec (e_pg env)"
  shows "confined (e_pg env) (procs_to_user env a b)" "confined (e_pg env) (pci_list_to_user env a b)"
    "confined (e_pg env) (netdev_list_to_user env a b)" "confined (e_pg env) (kernel_log_to_user env a b)"
    "confined (e_pg env) (driver_status_to_user env a b)"
  unfolding procs_to_user_def pci_list_to_user_def netdev_list_to_user_def kernel_log_to_user_def driver_status_to_user_def
  by (rule confined_bind_kept; simp add: confined_listing[OF assms])+

lemma confined_path_to_user:
  assumes "paging_spec (e_pg env)" "\<And>s cwd path out. length (snd (oper (e_mounts env) s cwd path out)) = length out"
  shows "confined (e_pg env) (path_to_user oper env a b c d)"
  unfolding path_to_user_def user_write_range_def
proof (rule confined_quiet_bind[OF quiet_reads(2)], rule confined_quiet_bind[OF quiet_basic(3)], rule confined_write[OF assms(1)])
  fix path cwd
  show "writes_within (e_pg env) c d (sys_bind (fill_user_buffer env c d (\<lambda>s. oper (e_mounts env) (ks_fs s) cwd path))
      (\<lambda>r. sys_bind (sys_lift r) (\<lambda>written. sys_return (of_nat written))))"
    by (rule within_bind_kept[OF within_fill]) (simp_all add: assms(2) kept_bind)
qed

lemma length_le64 [simp]: "length (u64_le x) = 8"
  by (simp add: u64_le_def)

lemma addr_kept_steps [simp]:
  "addr_kept (with_pipe p i g)" "addr_kept (with_queue p i h)" "addr_kept (install_pipe p x y c d)"
  "addr_kept (sys_state (\<lambda>s. let (bs, i) = take_keys n (ks_input s) in (bs, s\<lparr>ks_input := i\<rparr>)))"
  by (auto simp: addr_kept_def with_pipe_def with_queue_def install_pipe_def sys_state_def Let_def case_prod_beta
      split: option.split)

lemma within_guarded: "(b \<Longrightarrow> writes_within pg ptr len m) \<Longrightarrow> writes_within pg ptr len (sys_bind (sys_guard b e) (\<lambda>_. m))"
  by (auto simp: sys_guard_def sys_bind_def sys_return_def sys_fail_def writes_within_def)

lemma confined_create_pipe:
  assumes "paging_spec (e_pg env)"
  shows "confined (e_pg env) (create_pipe env a b)"
  unfolding create_pipe_def user_write_range_def
  by (rule confined_guard, rule confined_write[OF assms], (rule within_bind, (simp; fail))+,
      rule within_bind_kept[OF within_store]) simp_all

lemma within_store_bind:
  "length bs \<le> unat len \<Longrightarrow> (\<And>x. mem_kept (f x)) \<Longrightarrow>
     writes_within pg ptr len (sys_bind (sys_modify (store_user pg ptr bs)) f)"
  by (rule within_bind_kept[OF within_store])

text \<open>A step whose value bounds what the rest stores.\<close>

lemma within_bind_value:
  assumes "addr_kept m" "\<And>s x. fst (m s) = Inr x \<Longrightarrow> writes_within pg ptr len (f x)"
  shows "writes_within pg ptr len (sys_bind m f)"
proof -
  have "mem_of (snd (m s)) = mem_of s" "user_phys pg (snd (m s)) = user_phys pg s" for s
    using assms(1) by (simp_all add: addr_kept_def user_phys_def ext)
  with assms(2) show ?thesis unfolding writes_within_def snd_bind by (auto split: sum.split) metis
qed

lemma length_drain: "length (fst (drain get n s)) = n"
  by (induction n arbitrary: s) (simp_all add: Let_def case_prod_beta)

lemma length_read_values:
  "fst (with_pipe p i (pipe_read n) s) = Inr bs \<Longrightarrow> length bs \<le> n"
  "fst (with_queue p i (queue_receive n) s) = Inr bs \<Longrightarrow> length bs \<le> n"
  by (auto simp: with_pipe_def with_queue_def pipe_read_def queue_receive_def queue_get_def length_drain Let_def
      case_prod_beta split: option.splits if_splits)

lemma length_take_keys: "length (fst (take_keys n i)) \<le> n"
  by (induction n i rule: take_keys.induct) (auto split: prod.split option.split)

lemma within_read_stdin: "writes_within (e_pg env) ptr len (read_stdin_to_user env ptr len)"
  unfolding read_stdin_to_user_def user_write_range_def
proof (rule within_bind, simp, rule within_bind, simp, rule within_bind_value[OF addr_kept_steps(4)])
  fix s x
  assume "fst (sys_state (\<lambda>s. let (bs, i) = take_keys (unat len) (ks_input s) in (bs, s\<lparr>ks_input := i\<rparr>)) s) = Inr x"
  then have "length x \<le> unat len"
    using length_take_keys[of "unat len" "ks_input s"] by (auto simp: sys_state_def case_prod_beta Let_def)
  then show "writes_within (e_pg env) ptr len (sys_bind (sys_modify (store_user (e_pg env) ptr x))
      (\<lambda>_. if x = [] then sys_fail EWouldBlock else sys_return (of_nat (length x))))"
    by (rule within_store_bind) simp
qed

lemma within_read_pipe: "writes_within (e_pg env) ptr len (read_pipe env i p ptr len)"
  unfolding read_pipe_def
  by (rule within_bind_value, simp, rule within_store_bind) (auto dest: length_read_values)

lemma confined_receive:
  assumes "paging_spec (e_pg env)"
  shows "confined (e_pg env) (receive_message env h a b)"
  unfolding receive_message_def user_write_range_def
  by (rule confined_guard, rule confined_write[OF assms], rule within_bind, simp, rule within_bind_value, simp,
      rule within_store_bind) (auto dest: length_read_values)

lemma kept_set_descriptor [simp]: "mem_kept (sys_modify (set_descriptor p fd d))"
  by (simp add: kept_modify)

lemma within_read_dir:
  "writes_within (e_pg env) ptr len
     (sys_bind (sys_modify (store_user (e_pg env) ptr (take (min k (unat len)) bs))) (\<lambda>_.
      sys_bind (sys_modify (set_descriptor p fd d)) (\<lambda>_. sys_return v)))"
  by (rule within_store_bind) (simp_all add: kept_bind)

lemma confined_read_fd:
  assumes "paging_spec (e_pg env)" "buffers_kept (e_mounts env)"
  shows "confined (e_pg env) (read_fd_to_user env fd ptr len)"
proof -
  have fl: "writes_within (e_pg env) ptr len (sys_bind (fill_user_buffer env ptr len
      (\<lambda>s. read_node (e_mounts env) (ks_fs s) node off)) (\<lambda>r. sys_bind (sys_lift r) (\<lambda>n.
      sys_bind (sys_modify (set_descriptor p fd (g n))) (\<lambda>_. sys_return (of_nat n)))))" for node off p g
    by (rule within_bind_kept[OF within_fill]) (simp_all add: length_read_node[OF assms(2)] kept_bind)
  show ?thesis
    unfolding read_fd_to_user_def user_write_range_def
    by (rule confined_guard, rule confined_write[OF assms(1)])
      (auto intro!: within_bind fl within_read_stdin within_read_pipe within_read_dir simp: Let_def within_kept
        split: option.split descriptor.split)
qed

section \<open>All system calls\<close>

lemma confined_handlers:
  assumes "paging_spec (e_pg env)" "buffers_kept (e_mounts env)" "(n, h) \<in> set (handlers env f)" "n \<noteq> SYS_THREAD_SPAWN"
  shows "confined (e_pg env) h"
proof -
  have whoami: "confined (e_pg env) (sys_bind (sys_get g) (copy_to_user_buffer env a b))" for g :: "'a ks \<Rightarrow> bytes" and a b
    by (rule confined_quiet_bind) (simp_all add: confined_copy[OF assms(1)])
  have uptime: "confined (e_pg env) (uptime_to_user env a b)" for a b
    by (auto simp: uptime_to_user_def Let_def case_prod_beta confined_copy[OF assms(1)] confined_kept)
  have getcwd: "confined (e_pg env) (getcwd_to_user env a b)" for a b
    unfolding getcwd_to_user_def by (rule whoami)
  have stat: "confined (e_pg env) (stat_to_user env a b c d)" for a b c d
    unfolding stat_to_user_def by (intro confined_quiet_bind quiet_reads quiet_basic confined_copy[OF assms(1)])
  have dir: "confined (e_pg env) (list_dir_to_user env a b c d)" for a b c d
    unfolding list_dir_to_user_def by (rule confined_path_to_user[OF assms(1)]) (rule length_list_to_buffer[OF assms(2)])
  have read: "confined (e_pg env) (read_file_to_user env a b c d)" for a b c d
    unfolding read_file_to_user_def by (rule confined_path_to_user[OF assms(1)]) (rule length_read_to_buffer[OF assms(2)])
  from assms(3,4) show ?thesis
    unfolding handlers_def
    by (auto simp: whoami uptime getcwd stat dir read confined_listings[OF assms(1)] confined_read_fd[OF assms(1,2)]
        confined_receive[OF assms(1)] confined_create_pipe[OF assms(1)] confined_kept)
qed

lemma mem_of_rename:
  "rename_file env a b c d s = Some (r, s') \<Longrightarrow> mem_of s' = mem_of s"
proof -
  have "mem_kept (rename_paths env a b c d)" by (simp add: rename_paths_def kept_bind)
  then have "mem_of (snd (rename_paths env a b c d s)) = mem_of s" by (simp add: mem_kept_def)
  then show "rename_file env a b c d s = Some (r, s') \<Longrightarrow> mem_of s' = mem_of s"
    by (auto simp: rename_file_def split: prod.splits sum.splits option.splits)
qed

lemma snd_syscall_result [simp]: "snd (syscall_result r) = snd r"
  by (simp add: syscall_result_def split: prod.split sum.split)

lemma traps_simps [simp]:
  "mem_of (s\<lparr>ks_traps := t\<rparr>) = mem_of s" "caller_writable pg (s\<lparr>ks_traps := t\<rparr>) = caller_writable pg s"
  by (auto simp: caller_writable_def user_phys_def fun_eq_iff)

lemma dispatch_confined:
  assumes "paging_spec (e_pg env)" "buffers_kept (e_mounts env)" "f_number f \<noteq> SYS_THREAD_SPAWN"
    and "dispatch env f s = Some (r, s')" "mem_of s' a \<noteq> mem_of s a"
  shows "caller_writable (e_pg env) s a"
proof (cases "f_number f = SYS_RENAME")
  case True
  then show ?thesis using mem_of_rename assms(4,5) unfolding dispatch_def by (metis (full_types))
next
  case False
  then show ?thesis
  proof (cases "map_of (handlers env f) (f_number f)")
    case None
    then show ?thesis using False assms(4,5) by (simp add: dispatch_def sys_fail_def)
  next
    case (Some h)
    have "confined (e_pg env) h" by (rule confined_handlers[OF assms(1,2) map_of_SomeD[OF Some] assms(3)])
    moreover have "snd (h s) = s'" using False Some assms(4) by (simp add: dispatch_def)
    ultimately show ?thesis using assms(5) unfolding confined_def by blast
  qed
qed

text \<open>The calls that \<^verbatim>\<open>syscall_interrupt_dispatch\<close> handles itself; all others go through \<^verbatim>\<open>dispatch\<close>.\<close>

definition trap_handlers :: "'s senv \<Rightarrow> syscall_frame \<Rightarrow> ('s, u64) sys list" where
  "trap_handlers env f =
     [process_exit env (f_arg0 f), thread_exit env, join_user_thread env f,
      write_user_buffer env (f_arg0 f) (f_arg1 f) (f_arg2 f), user_yield env f, sleep_current_user env f,
      sigprocmask env f, sigreturn env]"

lemma interrupt_dispatch_cases:
  assumes "syscall_interrupt_dispatch env frame s = Some (v, s')"
  obtains (trap) h where "h \<in> set (trap_handlers env frame)" "s' = snd (h (s\<lparr>ks_traps := ks_traps s + 1\<rparr>))"
  | (arm) r where "dispatch env frame (s\<lparr>ks_traps := ks_traps s + 1\<rparr>) = Some (r, s')"
proof -
  have "(\<exists>h\<in>set (trap_handlers env frame). s' = snd (h (s\<lparr>ks_traps := ks_traps s + 1\<rparr>))) \<or>
      (\<exists>r. dispatch env frame (s\<lparr>ks_traps := ks_traps s + 1\<rparr>) = Some (r, s'))"
    using assms unfolding syscall_interrupt_dispatch_def Let_def trap_handlers_def
    by (simp add: prod_eq_iff split: if_splits) (metis prod.collapse snd_syscall_result)+
  then show ?thesis using trap arm by blast
qed

lemma kept_traps: "h \<in> set (trap_handlers env f) \<Longrightarrow> mem_kept h"
  by (auto simp: trap_handlers_def)

text \<open>
  C1: a system call writes only to memory its caller may write.  Whatever the frame holds - pointers into
  the kernel, into other processes, lengths that wrap -, every byte of physical memory that a call other
  than \<^verbatim>\<open>SYS_THREAD_SPAWN\<close> leaves changed is one that the caller's page tables map, open to user mode and
  writable at all four levels, at an address in the caller's own program area or thread stacks.
\<close>

theorem syscall_writes_confined:
  assumes "paging_spec (e_pg env)" "buffers_kept (e_mounts env)" "f_number frame \<noteq> SYS_THREAD_SPAWN"
    and "syscall_interrupt_dispatch env frame s = Some (v, s')" "mem_of s' a \<noteq> mem_of s a"
  shows "\<exists>va. user_phys (e_pg env) s va = Some a \<and> user_mapped (e_pg env) (mem_of s) (ks_cr3 s) va PageWrite \<and>
              current_user_range_owned (ks_proc s) va (va + 1)"
proof -
  define t where "t = s\<lparr>ks_traps := ks_traps s + 1\<rparr>"
  have t: "mem_of t = mem_of s" "caller_writable (e_pg env) t = caller_writable (e_pg env) s" by (simp_all add: t_def)
  from assms(4) have "caller_writable (e_pg env) t a"
  proof (cases rule: interrupt_dispatch_cases)
    case (trap h)
    then show ?thesis using kept_traps[OF trap(1)] assms(5) t by (simp add: mem_kept_def t_def[symmetric])
  next
    case (arm r)
    then show ?thesis using dispatch_confined[OF assms(1-3), of t r s' a] assms(5) t by (simp add: t_def)
  qed
  then show ?thesis unfolding t(2) unfolding caller_writable_def .
qed

text \<open>A process whose tables map one page, asking for the uptime.\<close>

definition example_caller :: "unit ks" where
  "example_caller = ks_start
     ((example_table [(example_process 2 None PRunning 1 [running_thread 1 2])\<lparr>p_address_space := example_space\<rparr>] [] 3 2)
        \<lparr>k_current_process := Some 2, k_current_thread := Some 1,
         k_mm := example_direct\<lparr>mm_pool := example_pool\<rparr>\<rparr>) () 0x1000"

definition example_env :: "unit senv" where
  "example_env = \<lparr>e_pg = x86_paging, e_mounts = [], e_userland = \<lparr>ul_images = [], ul_names = []\<rparr>,
     e_devices = \<lparr>dv_pci = [], dv_network = [], dv_statuses = no_statuses, dv_log = uart_new\<rparr>, e_now = 5\<rparr>"

definition example_frame :: "u64 \<Rightarrow> u64 \<Rightarrow> u64 \<Rightarrow> u64 \<Rightarrow> syscall_frame" where
  "example_frame n a b c =
     \<lparr>f_number = n, f_arg0 = a, f_arg1 = b, f_arg2 = c, f_arg3 = 0, f_arg4 = 0, f_arg5 = 0, f_user_rip = 0x1000000,
      f_user_rsp = 0, f_user_rflags = 0x202, f_rbx = 0, f_rcx = 0, f_rdx = 0, f_rsi = 0, f_rdi = 0, f_rbp = 0,
      f_r8 = 0, f_r9 = 0, f_r10 = 0, f_r11 = 0, f_r12 = 0, f_r13 = 0, f_r14 = 0, f_r15 = 0\<rparr>"

lemma example_user_phys:
  "mem_of s = example_tables \<Longrightarrow> ks_cr3 s = 0x1000 \<Longrightarrow> user_phys x86_paging s 0x1000010 = Some 0x5010"
  "mem_of s = example_tables \<Longrightarrow> ks_cr3 s = 0x1000 \<Longrightarrow> user_phys x86_paging s 0x1000011 = Some 0x5011"
  by (simp_all add: user_phys_def translate_addr_def x86_paging_def example_entries ADDR_MASK_def mask_numeral take_bit_eq_mod
      flags_contain_def)

lemma example_checked:
  "checked example_env 0x1000010 2 PageWrite (example_caller\<lparr>ks_traps := t\<rparr>) = (Inr (), example_caller\<lparr>ks_traps := t\<rparr>)"
proof -
  have acc: "active_user_range_accessible x86_paging 0x1000 (Some example_space) 0x1000010 2 PageWrite
      (example_direct\<lparr>mm_pool := example_pool\<rparr>) = (True, example_direct\<lparr>mm_pool := example_pool\<rparr>)"
    by (simp add: active_user_range_accessible_def checked_add_def example_space_def as_verified_prepared_user_def
        physical_memory_offset_def example_direct_def page_of_def mask_numeral pages_accessible.simps example_page)
  have cur: "current_process (ks_proc example_caller) =
      Some ((example_process 2 None PRunning 1 [running_thread 1 2])\<lparr>p_address_space := example_space\<rparr>)"
    by (simp add: current_process_def get_process_def example_caller_def ks_start_def example_defs)
  have owned: "current_user_range_owned (ks_proc example_caller) 0x1000010 0x1000012"
    by (simp add: current_user_range_owned_def cur example_space_def as_verified_prepared_user_def memory_layout_for_pid_def
        memory_layout_for_pid_with_program_size_def align_user_program_size_def u64_div_ceil_def layout_consts Let_def)
  have k: "k_mm (ks_proc example_caller) = example_direct\<lparr>mm_pool := example_pool\<rparr>" "ks_cr3 example_caller = 0x1000"
    by (simp_all add: example_caller_def ks_start_def)
  show ?thesis
    using acc cur owned k by (simp add: checked_def checked_add_def example_env_def)
qed

lemma example_uptime:
  "syscall_interrupt_dispatch example_env (example_frame 3 0x1000010 16 0) example_caller =
     Some (2, store_user x86_paging 0x1000010 [0x35, 0x30] (example_caller\<lparr>ks_traps := 1\<rparr>))"
proof -
  have e: "e_now example_env = 5" "e_pg example_env = x86_paging" by (simp_all add: example_env_def)
  have d: "decimal 50 = [0x35, 0x30]" by (simp add: decimal_def dec_digits.simps)
  have "uptime_to_user example_env 0x1000010 16 (example_caller\<lparr>ks_traps := 1\<rparr>) =
      (Inr 2, store_user x86_paging 0x1000010 [0x35, 0x30] (example_caller\<lparr>ks_traps := 1\<rparr>))"
    by (simp add: uptime_to_user_def Let_def format_u64_decimal_def d e splice_def copy_to_user_buffer_def sys_bind_def
        sys_guard_def sys_return_def sys_modify_def example_checked)
  moreover have "ks_traps example_caller = 0" by (simp add: example_caller_def ks_start_def)
  ultimately show ?thesis
    by (simp add: syscall_interrupt_dispatch_def dispatch_def handlers_def example_frame_def syscall_result_def)
qed

lemma example_store:
  "mem_of (store_user x86_paging 0x1000010 [0x35, 0x30] (example_caller\<lparr>ks_traps := 1\<rparr>)) 0x5010 = 0x35"
  "mem_of example_caller 0x5010 = 0"
proof -
  have m: "mem_of (example_caller\<lparr>ks_traps := 1\<rparr>) = example_tables" "ks_cr3 (example_caller\<lparr>ks_traps := 1\<rparr>) = 0x1000"
    by (simp_all add: example_caller_def ks_start_def example_direct_def)
  show "mem_of (store_user x86_paging 0x1000010 [0x35, 0x30] (example_caller\<lparr>ks_traps := 1\<rparr>)) 0x5010 = 0x35"
    using example_user_phys[OF m] by (simp add: store_user_def set_memory_def upt_rec)
  show "mem_of example_caller 0x5010 = 0"
    using m(1) by (simp add: example_tables_def set_entry_def table_slot_def store64_def store_bytes_def)
qed

theorem syscall_writes_confined_witness:
  "paging_spec (e_pg example_env) \<and> buffers_kept (e_mounts example_env) \<and>
   (\<exists>va. user_phys (e_pg example_env) example_caller va = Some 0x5010 \<and>
      user_mapped (e_pg example_env) (mem_of example_caller) (ks_cr3 example_caller) va PageWrite \<and>
      current_user_range_owned (ks_proc example_caller) va (va + 1))"
proof -
  have p: "paging_spec (e_pg example_env)" "buffers_kept (e_mounts example_env)"
    using x86.paging_spec_axioms by (simp_all add: example_env_def buffers_kept_def)
  show ?thesis
    using p syscall_writes_confined[OF p _ example_uptime, of "0x5010"] example_store by (simp add: example_frame_def)
qed

end
