(* ===== verification/Resource_Tables.thy ===== *)
theory Resource_Tables
  imports Syscalls
begin

text \<open>
  The resource invariant under the table updates of the system calls: a file, a pipe, an event or a
  message queue put into a free slot, changed in place or removed.
\<close>

section \<open>Slots\<close>

lemma first_free_split:
  assumes "first_free xs = Some i"
  obtains us vs where "xs = us @ None # vs" "length us = i" "\<And>x. xs[i := x] = us @ x # vs"
proof -
  have i: "i < length xs" "xs ! i = None" using assms position_SomeD[of "\<lambda>e. e = None" xs i] by (auto simp: first_free_def)
  then have "xs = take i xs @ None # drop (Suc i) xs" by (metis id_take_nth_drop)
  moreover have "xs[i := x] = take i xs @ x # drop (Suc i) xs" for x using i(1) by (rule upd_conv_take_nth_drop)
  ultimately show ?thesis using that i(1) by (metis length_take min.absorb4)
qed

lemma set_free_slot: "first_free xs = Some i \<Longrightarrow> Some v \<in> set (xs[i := Some w]) \<longleftrightarrow> v = w \<or> Some v \<in> set xs"
  by (erule first_free_split) auto

section \<open>The books of files and pipes\<close>

definition books :: "u64 \<Rightarrow> open_file option list \<Rightarrow> pipe option list \<Rightarrow> bool" where
  "books n es pipes \<longleftrightarrow> distinct (fd_keys es) \<and> (\<forall>p. acct p es pipes) \<and> ids_below n es pipes"

lemma acct_cong_ends:
  "(\<And>i. ends p (PipeRead i) es = ends p (PipeRead i) es') \<Longrightarrow> (\<And>i. ends p (PipeWrite i) es = ends p (PipeWrite i) es') \<Longrightarrow>
     acct p es pipes = acct p es' pipes"
  by (simp add: acct_def pipe_acct_def)

lemma fd_free_keys: "\<not> fd_taken es p fd \<Longrightarrow> (p, fd) \<notin> set (fd_keys es)"
  by (induction es) (auto simp: fd_taken_def fd_keys_def fd_key_def is_fd_def split: option.splits)

lemma next_fd_free: "next_fd_for_pid es p = Some fd \<Longrightarrow> \<not> fd_taken es p fd"
  by (auto simp: next_fd_for_pid_def dest: find_SomeD)

lemma books_open:
  assumes "books n (us @ None # vs) pipes" "(p, fd) \<notin> set (fd_keys (us @ None # vs))" "pipe_id_of d = None"
  shows "books n (us @ Some \<lparr>of_pid = p, of_fd = fd, of_descriptor = d\<rparr> # vs) pipes"
proof -
  have "d \<noteq> PipeRead i" "d \<noteq> PipeWrite i" for i using assms(3) by (auto simp: pipe_id_of_def)
  then have "acct p' (us @ Some \<lparr>of_pid = p, of_fd = fd, of_descriptor = d\<rparr> # vs) pipes = acct p' (us @ None # vs) pipes" for p'
    by (intro acct_cong_ends) simp_all
  then show ?thesis using assms by (auto simp: books_def ids_below_def)
qed

lemma books_set_descriptor:
  assumes "books n (us @ Some f # vs) pipes" "pipe_id_of (of_descriptor f) = None" "pipe_id_of d = None"
  shows "books n (us @ Some (f\<lparr>of_descriptor := d\<rparr>) # vs) pipes"
proof -
  have "d \<noteq> PipeRead i" "d \<noteq> PipeWrite i" "of_descriptor f \<noteq> PipeRead i" "of_descriptor f \<noteq> PipeWrite i" for i
    using assms(2,3) by (auto simp: pipe_id_of_def)
  then have "acct p (us @ Some (f\<lparr>of_descriptor := d\<rparr>) # vs) pipes = acct p (us @ Some f # vs) pipes" for p
    by (intro acct_cong_ends) simp_all
  then show ?thesis using assms by (auto simp: books_def ids_below_def)
qed

lemma in_close_descriptor:
  "Some q \<in> set (close_descriptor p f pipes) \<Longrightarrow>
     \<exists>r. Some r \<in> set pipes \<and> pi_id q = pi_id r \<and> pi_bytes q = pi_bytes r \<and> pi_read_index q = pi_read_index r \<and>
         pi_len q = pi_len r"
  unfolding close_descriptor_def
  by (auto split: descriptor.splits option.splits if_splits dest!: set_update_firstD find_SomeD
      simp: drop_end_def Let_def close_reader_def close_writer_def)

lemma books_close:
  assumes "books n (us @ Some f # vs) pipes"
  shows "books n (us @ None # vs) (close_descriptor (of_pid f) f pipes)"
proof -
  have a: "acct p (us @ Some f # vs) pipes" for p using assms by (simp add: books_def)
  have same: "acct p (Some f # us @ None # vs) pipes" for p
    using a[of p] acct_cong_ends[of p "us @ Some f # vs" "Some f # us @ None # vs" pipes] by simp
  have "acct p (us @ None # vs) (close_descriptor (of_pid f) f pipes)" for p
  proof (cases "p = of_pid f")
    case True
    then show ?thesis using acct_close_descriptor[OF same] by simp
  next
    case False
    then have "acct p (us @ None # vs) pipes" using same[of p] by (simp add: acct_skip file_of_def)
    then show ?thesis using acct_other[OF not_of_close_descriptor False] by simp
  qed
  moreover have "ids_below n (us @ None # vs) (close_descriptor (of_pid f) f pipes)"
    using assms unfolding books_def ids_below_def by (auto dest!: in_close_descriptor)
  ultimately show ?thesis using assms by (simp add: books_def)
qed

lemma ends_fresh: "ids_below n es pipes \<Longrightarrow> ends p (PipeRead n) es = 0 \<and> ends p (PipeWrite n) es = 0"
proof (induction es)
  case (Cons e es)
  have "ids_below n es pipes" using Cons.prems by (auto simp: ids_below_def)
  moreover have "of_descriptor f \<noteq> PipeRead n \<and> of_descriptor f \<noteq> PipeWrite n" if "e = Some f" for f
    using Cons.prems that unfolding ids_below_def pipe_id_of_def by force
  ultimately show ?case using Cons.IH by (cases e) auto
qed simp

lemma ids_below_Suc: "ids_below n es pipes \<Longrightarrow> n \<noteq> - 1 \<Longrightarrow> ids_below (n + 1) es pipes"
  unfolding ids_below_def by (meson order_less_trans word_Suc_gt)

text \<open>A file put into a free slot.\<close>

lemma free_slot_split:
  assumes "i < length es" "es ! i = None"
  obtains us vs where "es = us @ None # vs" "\<And>x. es[i := x] = us @ x # vs"
  using assms by (metis id_take_nth_drop upd_conv_take_nth_drop)

lemma put_file:
  assumes "i < length es" "es ! i = None"
  shows "ends p d (es[i := Some f]) = (if of_pid f = p \<and> of_descriptor f = d then 1 else 0) + ends p d es"
    and "distinct (fd_keys (es[i := Some f])) \<longleftrightarrow> (of_pid f, of_fd f) \<notin> set (fd_keys es) \<and> distinct (fd_keys es)"
    and "set (fd_keys (es[i := Some f])) = insert (of_pid f, of_fd f) (set (fd_keys es))"
    and "Some g \<in> set (es[i := Some f]) \<longleftrightarrow> g = f \<or> Some g \<in> set es"
  by (rule free_slot_split[OF assms]; auto)+

lemma owned_ids_put:
  assumes "first_free pipes = Some c"
  shows "distinct (owned_ids p (pipes[c := Some q])) \<longleftrightarrow>
           distinct (owned_ids p pipes) \<and> (pi_owner_pid q = p \<longrightarrow> pi_id q \<notin> set (owned_ids p pipes))"
  by (rule first_free_split[OF assms]) auto

lemma in_owned_idsD: "i \<in> set (owned_ids p pipes) \<Longrightarrow> \<exists>q. Some q \<in> set pipes \<and> pi_id q = i"
  by (auto simp: owned_ids_def split: option.splits if_splits)

lemma books_new_pipe:
  assumes b: "books n es pipes" and n: "n \<noteq> - 1" and c: "first_free pipes = Some c"
    and i: "i < length es" "es ! i = None" and j: "j < length es" "es ! j = None" "j \<noteq> i"
    and fds: "(p, r) \<notin> set (fd_keys es)" "(p, w) \<notin> set (fd_keys es)" "w \<noteq> r"
  shows "books (n + 1) (es[i := Some \<lparr>of_pid = p, of_fd = r, of_descriptor = PipeRead n\<rparr>,
                           j := Some \<lparr>of_pid = p, of_fd = w, of_descriptor = PipeWrite n\<rparr>])
           (pipes[c := Some (pipe_new n p)])" (is "books _ ?es ?pipes")
proof -
  have j': "j < length (es[i := x])" "es[i := x] ! j = None" for x using j by simp_all
  note put = put_file[OF j'] put_file[OF i] set_free_slot[OF c] owned_ids_put[OF c]
  have below: "ids_below n es pipes" and a: "acct p' es pipes" for p' using b by (simp_all add: books_def)
  have old: "pi_id q \<noteq> n" if "Some q \<in> set pipes" for q using below that by (auto simp: ids_below_def)
  have "n \<notin> set (owned_ids p' pipes)" for p' using in_owned_idsD old by blast
  then have "acct p' ?es ?pipes" for p'
    using a[of p'] old ends_fresh[OF below] unfolding acct_def put
    by (auto simp: pipe_acct_def put pipe_new_def)
  moreover have "ids_below (n + 1) ?es ?pipes"
    using ids_below_Suc[OF below n] word_Suc_gt[OF n] unfolding ids_below_def put
    by (auto simp: pipe_new_def pipe_id_of_def)
  ultimately show ?thesis using b fds unfolding books_def put by auto
qed

text \<open>A pipe whose bytes change.\<close>

definition same_ends :: "pipe \<Rightarrow> pipe \<Rightarrow> bool" where
  "same_ends q r \<longleftrightarrow> pi_id q = pi_id r \<and> pi_owner_pid q = pi_owner_pid r \<and> pi_readers q = pi_readers r \<and>
     pi_writers q = pi_writers r"

lemma books_same_ends:
  assumes "books n es (us @ Some q # vs)" "same_ends r q"
  shows "books n es (us @ Some r # vs)"
  using assms by (auto simp: books_def acct_def pipe_acct_def ids_below_def same_ends_def)

section \<open>The resource invariant\<close>

lemma res_ok_books:
  "res_ok s \<longleftrightarrow>
     length (ks_files s) = MAX_OPEN_FILES \<and> length (ks_pipes s) = MAX_PIPES \<and>
     length (ks_events s) = MAX_EVENTS \<and> length (ks_queues s) = MAX_MESSAGE_QUEUES \<and>
     books (ks_next_pipe_id s) (ks_files s) (ks_pipes s) \<and>
     (\<forall>q. Some q \<in> set (ks_pipes s) \<longrightarrow> pipe_ok q) \<and>
     (\<forall>v. Some v \<in> set (ks_events s) \<longrightarrow> event_ok v) \<and>
     (\<forall>q. Some q \<in> set (ks_queues s) \<longrightarrow> queue_ok q)"
  unfolding res_ok_def books_def by blast

lemma find_fdE:
  assumes "find (is_fd p fd) es = Some e"
  obtains f where "e = Some f" "of_pid f = p" "of_fd f = fd"
  using find_SomeD[OF assms] by (auto simp: is_fd_def split: option.splits)

lemma length_close_descriptor [simp]: "length (close_descriptor p f pipes) = length pipes"
  by (simp add: close_descriptor_def split: descriptor.split)

lemma res_ok_close_fd:
  assumes "res_ok s"
  shows "res_ok (snd (close_fd_for_pid p fd s))"
proof (cases "find (is_fd p fd) (ks_files s)")
  case (Some e)
  then obtain f where f: "e = Some f" "of_pid f = p" by (rule find_fdE)
  obtain us vs where s: "ks_files s = us @ Some f # vs"
    "update_first (is_fd p fd) (\<lambda>_. None) (ks_files s) = us @ None # vs"
    using update_first_split[OF Some, of "\<lambda>_. None"] f(1) by auto
  have "pipe_ok q" if "Some q \<in> set (close_descriptor p f (ks_pipes s))" for q
    using in_close_descriptor[OF that] assms unfolding res_ok_books by (metis pipe_ok_def)
  moreover have "books (ks_next_pipe_id s) (us @ None # vs) (close_descriptor p f (ks_pipes s))"
    using books_close[of "ks_next_pipe_id s" us f vs "ks_pipes s"] assms s(1) f(2) by (simp add: res_ok_books)
  ultimately show ?thesis using assms s Some f by (simp add: close_fd_for_pid_def res_ok_books)
qed (use assms in \<open>simp add: close_fd_for_pid_def\<close>)

lemma res_ok_set_descriptor:
  assumes "res_ok s" "find_file s p fd = Some f" "pipe_id_of (of_descriptor f) = None" "pipe_id_of d = None"
  shows "res_ok (set_descriptor p fd d s)"
proof -
  have e: "find (is_fd p fd) (ks_files s) = Some (Some f)"
    using assms(2) by (simp add: find_file_def split: option.splits)
  let ?g = "map_option (\<lambda>f. f\<lparr>of_descriptor := d\<rparr>)"
  obtain us vs where s: "ks_files s = us @ Some f # vs"
    "update_first (is_fd p fd) ?g (ks_files s) = us @ Some (f\<lparr>of_descriptor := d\<rparr>) # vs"
    using update_first_split[OF e, of ?g] by auto
  show ?thesis
    using assms books_set_descriptor[OF _ assms(3,4), of _ us vs] s by (simp add: set_descriptor_def res_ok_books)
qed

lemma res_ok_open:
  assumes "res_ok s" "next_fd_for_pid (ks_files s) p = Some fd" "first_free (ks_files s) = Some i" "pipe_id_of d = None"
  shows "res_ok (s\<lparr>ks_files := (ks_files s)[i := Some \<lparr>of_pid = p, of_fd = fd, of_descriptor = d\<rparr>]\<rparr>)"
proof -
  obtain us vs where s: "ks_files s = us @ None # vs" "\<And>x. (ks_files s)[i := x] = us @ x # vs"
    using first_free_split[OF assms(3)] by metis
  show ?thesis
    using assms(1) books_open[OF _ fd_free_keys[OF next_fd_free] assms(4), of _ us vs _ p fd] assms(2) s
    by (simp add: res_ok_books)
qed

lemma res_ok_with_pipe:
  assumes "res_ok s" and f: "\<And>q. pipe_ok q \<Longrightarrow> pipe_ok (snd (f q)) \<and> same_ends (snd (f q)) q"
  shows "res_ok (snd (with_pipe p i f s))"
proof (cases "find (owned_pipe p i) (ks_pipes s)")
  case (Some e)
  then obtain q where e: "e = Some q" using find_SomeD[OF Some] by (auto simp: owned_pipe_def split: option.splits)
  obtain us vs where s: "ks_pipes s = us @ Some q # vs"
    "update_first (owned_pipe p i) (\<lambda>_. Some (snd (f q))) (ks_pipes s) = us @ Some (snd (f q)) # vs"
    using update_first_split[OF Some, of "\<lambda>_. Some (snd (f q))"] e by auto
  have "pipe_ok (snd (f q)) \<and> same_ends (snd (f q)) q" using assms(1) s(1) by (intro f) (auto simp: res_ok_books)
  then show ?thesis
    using assms(1) books_same_ends[of _ _ us q vs "snd (f q)"] Some e s by (auto simp: with_pipe_def res_ok_books)
qed (use assms in \<open>simp add: with_pipe_def\<close>)

lemma same_ends_put: "same_ends (fold pipe_put bs q) q"
proof (induction bs arbitrary: q)
  case (Cons b bs)
  show ?case using Cons.IH[of "pipe_put b q"] by (simp add: same_ends_def pipe_put_def Let_def)
qed (simp add: same_ends_def)

lemma same_ends_drain: "same_ends (snd (drain pipe_get n q)) q"
proof (induction n arbitrary: q)
  case (Suc n)
  show ?case using Suc.IH[of "snd (pipe_get q)"] by (simp add: same_ends_def pipe_get_def case_prod_beta Let_def)
qed (simp add: same_ends_def)

lemma same_ends_write: "same_ends (snd (pipe_write bs q)) q"
  using same_ends_put by (simp add: pipe_write_def Let_def same_ends_def)

lemma same_ends_read: "same_ends (snd (pipe_read n q)) q"
  using same_ends_drain by (simp add: pipe_read_def Let_def case_prod_beta same_ends_def)

lemma res_ok_pipe_write: "res_ok s \<Longrightarrow> res_ok (snd (with_pipe p i (pipe_write bs) s))"
  using pipe_write_stream(1) same_ends_write by (intro res_ok_with_pipe) (auto simp: prod_eq_iff)

lemma res_ok_pipe_read: "res_ok s \<Longrightarrow> res_ok (snd (with_pipe p i (pipe_read n) s))"
  using pipe_read_stream(1) same_ends_read by (intro res_ok_with_pipe) (auto simp: prod_eq_iff)

lemma second_freeD: "second_free es i = Some j \<Longrightarrow> j < length es \<and> es ! j = None \<and> j \<noteq> i"
  unfolding second_free_def by (drule find_SomeD) auto

lemma first_freeD: "first_free es = Some i \<Longrightarrow> i < length es \<and> es ! i = None"
  unfolding first_free_def by (drule position_SomeD) auto

lemma next_fd_excluding_free: "next_fd_for_pid_excluding es p r = Some w \<Longrightarrow> \<not> fd_taken es p w \<and> w \<noteq> r"
  unfolding next_fd_for_pid_excluding_def by (drule find_SomeD) auto

lemma res_ok_install_pipe:
  assumes ok: "res_ok s" and n: "ks_next_pipe_id s \<noteq> - 1"
    and r: "next_fd_for_pid (ks_files s) p = Some r" and w: "next_fd_for_pid_excluding (ks_files s) p r = Some w"
    and i: "first_free (ks_files s) = Some i" and j: "second_free (ks_files s) i = Some j"
  shows "res_ok (snd (install_pipe p r w i j s))"
proof (cases "first_free (ks_pipes s)")
  case None
  then show ?thesis using ok n by (simp add: install_pipe_def Let_def res_ok_books books_def ids_below_Suc)
next
  case (Some c)
  have b: "books (ks_next_pipe_id s) (ks_files s) (ks_pipes s)" using ok by (simp add: res_ok_books)
  note w' = next_fd_excluding_free[OF w]
  have "(p, r) \<notin> set (fd_keys (ks_files s))" "(p, w) \<notin> set (fd_keys (ks_files s))"
    using fd_free_keys next_fd_free[OF r] w' by blast+
  note new = books_new_pipe[OF b n Some _ _ _ _ _ this, of i j]
  show ?thesis
    using ok new first_freeD[OF i] second_freeD[OF j] w' Some set_free_slot[OF Some]
    by (simp add: install_pipe_def Let_def res_ok_books)
qed

lemma res_ok_with_queue:
  assumes "res_ok s" and f: "\<And>q. queue_ok q \<Longrightarrow> queue_ok (snd (f q))"
  shows "res_ok (snd (with_queue p i f s))"
  using assms by (auto simp: with_queue_def res_ok_books dest!: set_update_firstD find_SomeD split: option.splits)

lemma res_ok_messages:
  "res_ok s \<Longrightarrow> res_ok (snd (with_queue p i (queue_send bs) s))"
  "res_ok s \<Longrightarrow> res_ok (snd (with_queue p i (queue_receive n) s))"
  using queue_send_stream(1) queue_receive_stream(1) by (auto intro!: res_ok_with_queue simp: prod_eq_iff)

lemma res_ok_set_event: "res_ok s \<Longrightarrow> (\<And>v. e = Some v \<Longrightarrow> event_ok v) \<Longrightarrow> res_ok (set_event p i e s)"
  by (auto simp: set_event_def res_ok_books dest!: set_update_firstD)

lemma res_ok_new_slots:
  "res_ok s \<Longrightarrow> first_free (ks_events s) = Some i \<Longrightarrow> res_ok (s\<lparr>ks_events := (ks_events s)[i := Some (event_new n p)]\<rparr>)"
  "res_ok s \<Longrightarrow> first_free (ks_queues s) = Some i \<Longrightarrow> res_ok (s\<lparr>ks_queues := (ks_queues s)[i := Some (queue_new n p)]\<rparr>)"
  "res_ok s \<Longrightarrow> res_ok (s\<lparr>ks_queues := update_first P (\<lambda>_. None) (ks_queues s)\<rparr>)"
  by (auto simp: res_ok_books set_free_slot dest!: set_update_firstD)

lemma event_ok_wake_waiter: "event_ok v \<Longrightarrow> event_ok (fst (snd (wake_waiter n v k)))"
proof (induction n arbitrary: v k)
  case (Suc n)
  then show ?case
    using event_dequeue_refines(1)[OF Suc.prems] by (auto simp: case_prod_beta split: option.split bool.split)
qed simp

text \<open>Once there are more rounds than waiters, further rounds change nothing.\<close>

lemma wake_waiter_enough:
  "event_ok v \<Longrightarrow> length (event_queue v) < n \<Longrightarrow> length (event_queue v) < m \<Longrightarrow> wake_waiter n v k = wake_waiter m v k"
proof (induction n arbitrary: m v k)
  case (Suc n)
  obtain m' where m: "m = Suc m'" using Suc.prems(3) by (cases m) auto
  note d = event_dequeue_refines[OF Suc.prems(1)]
  show ?case
  proof (cases "event_queue v")
    case Nil
    then show ?thesis using d(2) m by (simp add: case_prod_beta)
  next
    case (Cons t q)
    then have "length (event_queue (snd (event_dequeue v))) < n" "length (event_queue (snd (event_dequeue v))) < m'"
      using Suc.prems(2,3) d(3) m by simp_all
    from Suc.IH[OF d(1) this] have "wake_waiter n (snd (event_dequeue v)) k' = wake_waiter m' (snd (event_dequeue v)) k'" for k' .
    then show ?thesis using d(2) Cons m by (simp add: case_prod_beta split: bool.split)
  qed
qed simp

end
