(* ===== verification/Syscall_Invariant.thy ===== *)
theory Syscall_Invariant
  imports Syscall_Safety Resource_Tables
begin

text \<open>
  The invariant of the kernel state - the process table is well formed, the resource tables agree with
  each other, the input queues are within their bounds - and that every system call keeps it.
\<close>

section \<open>Computations and invariants\<close>

definition keeps :: "('s ks \<Rightarrow> bool) \<Rightarrow> ('s, 'a) sys \<Rightarrow> bool" where
  "keeps P m \<longleftrightarrow> (\<forall>s. P s \<longrightarrow> P (snd (m s)))"

definition leads :: "('s ks \<Rightarrow> bool) \<Rightarrow> ('s ks \<Rightarrow> bool) \<Rightarrow> ('s, 'a) sys \<Rightarrow> bool" where
  "leads P Q m \<longleftrightarrow> (\<forall>s. P s \<longrightarrow> Q (snd (m s)))"

lemma keeps_basic [simp]:
  "keeps P (sys_return x)" "keeps P (sys_fail e)" "keeps P (sys_get f)" "keeps P (sys_guard b e)"
  "keeps P (sys_ok_or y e)" "keeps P (sys_lift r)"
  by (simp_all add: keeps_def sys_return_def sys_fail_def sys_get_def sys_guard_def sys_ok_or_def sys_lift_def
      split: option.split sum.split)

lemma keeps_bind: "keeps P m \<Longrightarrow> (\<And>x. keeps P (f x)) \<Longrightarrow> keeps P (sys_bind m f)"
  unfolding keeps_def snd_bind by (auto split: sum.split)

lemma keeps_modify: "(\<And>s. P s \<Longrightarrow> P (f s)) \<Longrightarrow> keeps P (sys_modify f)"
  by (simp add: keeps_def sys_modify_def)

lemma keeps_state: "(\<And>s. P s \<Longrightarrow> P (snd (f s))) \<Longrightarrow> keeps P (sys_state f)"
  by (simp add: keeps_def sys_state_def case_prod_beta)

lemma keeps_quiet: "quiet m \<Longrightarrow> (\<And>v s. P s \<Longrightarrow> P (set_offset v s)) \<Longrightarrow> keeps P m"
  unfolding keeps_def quiet_def by metis

lemma leads_keeps: "keeps Q m \<Longrightarrow> (\<And>s. P s \<Longrightarrow> Q s) \<Longrightarrow> leads P Q m"
  by (simp add: leads_def keeps_def)

lemma leads_bind: "keeps P m \<Longrightarrow> (\<And>s. P s \<Longrightarrow> Q s) \<Longrightarrow> (\<And>x. leads P Q (f x)) \<Longrightarrow> leads P Q (sys_bind m f)"
  unfolding keeps_def leads_def snd_bind by (auto split: sum.split)

lemma leads_bind_keeps: "leads P Q m \<Longrightarrow> (\<And>x. keeps Q (f x)) \<Longrightarrow> leads P Q (sys_bind m f)"
  unfolding keeps_def leads_def snd_bind by (auto split: sum.split)

section \<open>The process table\<close>

abbreviation procs_ok :: "'s ks \<Rightarrow> bool" where
  "procs_ok s \<equiv> table_ok (ks_proc s)"

lemma table_ok_mm [simp]:
  "table_ok (k\<lparr>k_mm := (k_mm k)\<lparr>mm_mem := m\<rparr>\<rparr>) = table_ok k"
  "table_ok (k\<lparr>k_mm := (k_mm k)\<lparr>mm_offset_value := v\<rparr>\<rparr>) = table_ok k"
  by (simp_all add: table_ok_def table_ident_def)

lemma table_ok_current [simp]:
  "table_ok (set_current_user p t k) = table_ok k" "table_ok (snd (take_current_user k)) = table_ok k"
  "table_ok (snd (consume_timer_preempt_request_for_yield k)) = table_ok k"
  by (simp_all add: set_current_user_def take_current_user_def consume_timer_preempt_request_for_yield_def Let_def)

lemma table_ok_release_frame [simp]: "table_ok k \<Longrightarrow> table_ok (release_frame f k)"
proof (cases f)
  case (Some a)
  assume "table_ok k"
  moreover from this have "pool_ok (mm_pool (snd (release_prepared_p4_frame a (k_mm k))))"
    using p4_frames.release_free[of "k_mm k" a] by (metis prod.collapse table_ok_def)
  ultimately show ?thesis using Some by (simp add: release_frame_def table_ok_def table_ident_def)
qed (simp add: release_frame_def)

lemma table_ok_globals [simp]:
  "table_ok k \<Longrightarrow> table_ok (snd (mark_current_thread_exited now k))"
  "table_ok k \<Longrightarrow> table_ok (snd (checkout_current_user_if_yielded now ctx k))"
  "table_ok k \<Longrightarrow> table_ok (snd (checkout_current_user_for_signal_handler now g h ctx k))"
  "table_ok k \<Longrightarrow> table_ok (snd (checkout_current_user_after_sigreturn now k))"
  by (auto simp: mark_current_thread_exited_def checkout_current_user_if_yielded_def table_ok_mark_thread_exited
      checkout_current_user_for_signal_handler_def checkout_current_user_after_sigreturn_def case_prod_beta
      split: option.split bool.split)

lemma procs_ok_globals [simp]:
  "procs_ok s \<Longrightarrow> procs_ok (snd (mark_current_user_exited now st s))"
  "procs_ok s \<Longrightarrow> procs_ok (snd (user_send_signal now c p g s))"
  "procs_ok s \<Longrightarrow> procs_ok (request_user_shell_wait p c s)"
  "procs_ok s \<Longrightarrow> procs_ok (snd (change_current_working_directory ms path s))"
  "procs_ok (store_user pg ptr bs s) = procs_ok s" "procs_ok (set_offset v s) = procs_ok s"
  by (auto simp: mark_current_user_exited_def user_send_signal_def request_user_shell_wait_def store_user_def set_memory_def
      set_offset_def change_current_working_directory_def table_ok_lifecycle_dequeued Let_def case_prod_beta
      split: option.split sum.split signal_delivery.split)

lemma procs_keeps_proc: "(\<And>k. table_ok k \<Longrightarrow> table_ok (snd (f k))) \<Longrightarrow> keeps procs_ok (sys_proc f)"
  by (simp add: keeps_def sys_proc_def case_prod_beta)

lemma procs_keeps [simp]:
  "keeps procs_ok (sys_fs g)" "keeps procs_ok (with_pipe p i h)" "keeps procs_ok (with_queue p i h')"
  "keeps procs_ok (close_fd_for_pid p fd)" "keeps procs_ok (install_pipe p a b c d)"
  "keeps procs_ok (fill_user_buffer env ptr len w)"
  by (auto simp: keeps_def sys_fs_def install_pipe_def fill_user_buffer_def Let_def case_prod_beta split: option.split)

lemma procs_keeps_reads [simp]:
  "keeps procs_ok (checked env ptr len acc)" "keeps procs_ok (read_user_bytes env ptr len)"
  "keeps procs_ok (read_user_str env ptr len)" "keeps procs_ok current_pid" "keeps procs_ok current_layout"
  by (rule keeps_quiet; simp)+

lemma table_ok_wake_waiter [simp]: "table_ok (snd (snd (wake_waiter n v k))) = table_ok k"
  by (induction n arbitrary: v k) (simp_all add: case_prod_beta split: option.split bool.split)

lemmas keeps_rules = keeps_bind keeps_modify keeps_state

lemma procs_keeps_parts [simp]:
  "keeps procs_ok (write_pipe fd src)" "keeps procs_ok (write_descriptor env fd src)" "keeps procs_ok (install_descriptor d)"
  "keeps procs_ok (find_event p i)" "keeps procs_ok (check_entry env entry)" "keeps procs_ok (user_write_range env a b)"
  "keeps procs_ok (copy_to_user_buffer env a b bs)" "keeps procs_ok (read_pipe env i p a b)"
  by (simp_all add: write_pipe_def write_descriptor_def install_descriptor_def find_event_def check_entry_def
      user_write_range_def copy_to_user_buffer_def read_pipe_def keeps_rules split: descriptor.split option.split)

lemma procs_keeps_listing [simp]: "keeps procs_ok (listing_to_user env w a b)"
  by (simp add: listing_to_user_def keeps_rules)

lemma procs_keeps_path [simp]: "keeps procs_ok (path_to_user oper env a b c d)"
  by (simp add: path_to_user_def keeps_rules)

lemma procs_keeps_stdin [simp]: "keeps procs_ok (read_stdin_to_user env a b)"
  by (simp add: read_stdin_to_user_def keeps_rules case_prod_beta Let_def)

lemma procs_thread_handlers [simp]:
  "keeps procs_ok (join_user_thread env f)" "keeps procs_ok (user_yield env f)" "keeps procs_ok (sleep_current_user env f)"
  by (simp_all add: join_user_thread_def user_yield_def sleep_current_user_def Let_def keeps_rules procs_keeps_proc
      table_ok_join_thread table_ok_lifecycle_dequeued split: option.split thread_join_status.split)

lemma procs_file_handlers [simp]:
  "keeps procs_ok (write_user_buffer env fd a b)" "keeps procs_ok (chdir_user env a b)"
  "keeps procs_ok (syscall_set_current_user env a b)" "keeps procs_ok (sys_open_file env a b)"
  "keeps procs_ok (create_file env a b)" "keeps procs_ok (unlink_file env a b)" "keeps procs_ok (mkdir_user env a b)"
  "keeps procs_ok (rmdir_user env a b)" "keeps procs_ok (close_fd fd)" "keeps procs_ok (uptime_to_user env a b)"
  "keeps procs_ok (list_dir_to_user env a b c d)" "keeps procs_ok (read_file_to_user env a b c d)"
  "keeps procs_ok (stat_to_user env a b c d)" "keeps procs_ok (getcwd_to_user env a b)"
  by (simp_all add: write_user_buffer_def chdir_user_def syscall_set_current_user_def sys_open_file_def create_file_def
      unlink_file_def mkdir_user_def rmdir_user_def close_fd_def uptime_to_user_def list_dir_to_user_def
      read_file_to_user_def stat_to_user_def getcwd_to_user_def Let_def case_prod_beta keeps_rules procs_keeps_proc)

lemma procs_read_fd [simp]: "keeps procs_ok (read_fd_to_user env fd a b)"
  by (simp add: read_fd_to_user_def Let_def case_prod_beta keeps_rules split: option.split descriptor.split)

lemma procs_ipc_handlers [simp]:
  "keeps procs_ok create_event" "keeps procs_ok (wait_event env h f)" "keeps procs_ok (signal_event h)"
  "keeps procs_ok (close_event h)" "keeps procs_ok create_message_queue" "keeps procs_ok (send_message env h a b)"
  "keeps procs_ok (receive_message env h a b)" "keeps procs_ok (close_message_queue h)" "keeps procs_ok (create_pipe env a b)"
  by (simp_all add: create_event_def wait_event_def signal_event_def close_event_def create_message_queue_def
      send_message_def receive_message_def close_message_queue_def create_pipe_def Let_def case_prod_beta keeps_rules
      procs_keeps_proc del: wake_waiter.simps)

lemma procs_process_handlers [simp]:
  "keeps procs_ok (wait_for_pending_child env f)" "keeps procs_ok (terminate_process env a b)"
  "keeps procs_ok (syscall_update_signal_mask env f)" "keeps procs_ok (set_signal_action env a b)"
  "keeps procs_ok current_pending_signals" "keeps procs_ok current_process_group"
  "keeps procs_ok (syscall_set_process_group a b)" "keeps procs_ok (get_session_id a)" "keeps procs_ok syscall_create_session"
  by (simp_all add: wait_for_pending_child_def terminate_process_def syscall_update_signal_mask_def set_signal_action_def
      current_pending_signals_def current_process_group_def syscall_set_process_group_def get_session_id_def
      syscall_create_session_def group_result_def case_prod_beta keeps_rules procs_keeps_proc table_ok_lifecycle_dequeued
      split: option.split sum.split signal_delivery.split)

lemma procs_listing_handlers [simp]:
  "keeps procs_ok (procs_to_user env a b)" "keeps procs_ok (pci_list_to_user env a b)"
  "keeps procs_ok (netdev_list_to_user env a b)" "keeps procs_ok (kernel_log_to_user env a b)"
  "keeps procs_ok (driver_status_to_user env a b)"
  by (simp_all add: procs_to_user_def pci_list_to_user_def netdev_list_to_user_def kernel_log_to_user_def
      driver_status_to_user_def keeps_rules)

lemma procs_trap_handlers [simp]:
  "keeps procs_ok (process_exit env st)" "keeps procs_ok (thread_exit env)" "keeps procs_ok (sigreturn env)"
  "keeps procs_ok (sigprocmask env f)"
  by (simp_all add: process_exit_def thread_exit_def sigreturn_def sigprocmask_def keeps_rules procs_keeps_proc)

section \<open>The resource tables and the input queues\<close>

definition tables_ok :: "'s ks \<Rightarrow> bool" where
  "tables_ok s \<longleftrightarrow> res_ok s \<and> input_ok (ks_input s)"

lemma tables_ok_irrelevant [simp]:
  "tables_ok (s\<lparr>ks_proc := k\<rparr>) = tables_ok s" "tables_ok (s\<lparr>ks_fs := fs\<rparr>) = tables_ok s"
  "tables_ok (s\<lparr>ks_console := c\<rparr>) = tables_ok s" "tables_ok (s\<lparr>ks_traps := n\<rparr>) = tables_ok s"
  "tables_ok (s\<lparr>ks_yields := n\<rparr>) = tables_ok s" "tables_ok (s\<lparr>ks_wait_requests := w\<rparr>) = tables_ok s"
  "tables_ok (s\<lparr>ks_pending := ps\<rparr>) = tables_ok s" "tables_ok (s\<lparr>ks_next_event_id := n\<rparr>) = tables_ok s"
  "tables_ok (s\<lparr>ks_next_queue_id := n\<rparr>) = tables_ok s" "tables_ok (store_user pg ptr bs s) = tables_ok s"
  "tables_ok (set_offset v s) = tables_ok s" "tables_ok (print_console bs s) = tables_ok s"
  by (simp_all add: tables_ok_def res_ok_def store_user_def set_memory_def set_offset_def print_console_def)

lemma input_close [simp]:
  "ks_input (close_process_files p s) = ks_input s" "ks_input (snd (close_fd_for_pid p fd s)) = ks_input s"
  "ks_input (snd (install_pipe p a b c d s)) = ks_input s" "ks_input (snd (with_pipe p i f s)) = ks_input s"
  "ks_input (snd (with_queue p i g s)) = ks_input s" "ks_input (set_event p i e s) = ks_input s"
  "ks_input (set_descriptor p fd x s) = ks_input s"
  by (auto simp: close_process_files_def close_fd_for_pid_def install_pipe_def with_pipe_def with_queue_def
      set_event_def set_descriptor_def Let_def case_prod_beta split: option.split)

lemma tables_ok_close_process [simp]: "tables_ok s \<Longrightarrow> tables_ok (close_process_files p s)"
  by (simp add: tables_ok_def res_ok_close_process_files)

lemma tables_ok_globals [simp]:
  "tables_ok s \<Longrightarrow> tables_ok (snd (mark_current_user_exited now st s))"
  "tables_ok s \<Longrightarrow> tables_ok (snd (user_send_signal now c p g s))"
  "tables_ok s \<Longrightarrow> tables_ok (request_user_shell_wait p c s)"
  "tables_ok s \<Longrightarrow> tables_ok (snd (take_user_shell_wait_request_for_child c s))"
  "tables_ok s \<Longrightarrow> tables_ok (snd (change_current_working_directory ms path s))"
  "tables_ok s \<Longrightarrow> tables_ok (snd (request_path_with_arg_and_mode u path arg jm s))"
  by (auto simp: mark_current_user_exited_def user_send_signal_def request_user_shell_wait_def
      change_current_working_directory_def take_user_shell_wait_request_for_child_def request_path_with_arg_and_mode_def
      queue_program_def Let_def case_prod_beta split: option.split sum.split signal_delivery.split)

lemma tables_keeps [simp]:
  "keeps tables_ok (sys_proc f)" "keeps tables_ok (sys_fs g)" "keeps tables_ok (close_fd_for_pid p fd)"
  "keeps tables_ok (with_pipe p i (pipe_write bs))" "keeps tables_ok (with_pipe p i (pipe_read n))"
  "keeps tables_ok (with_queue p i (queue_send bs))" "keeps tables_ok (with_queue p i (queue_receive n))"
  "keeps tables_ok (fill_user_buffer env ptr len w)"
  by (simp_all add: keeps_def sys_proc_def sys_fs_def fill_user_buffer_def Let_def case_prod_beta)
    (simp_all add: tables_ok_def res_ok_close_fd res_ok_pipe_write res_ok_pipe_read res_ok_messages)

lemma tables_keeps_reads [simp]:
  "keeps tables_ok (checked env ptr len acc)" "keeps tables_ok (read_user_bytes env ptr len)"
  "keeps tables_ok (read_user_str env ptr len)" "keeps tables_ok current_pid" "keeps tables_ok current_layout"
  by (rule keeps_quiet; simp)+

text \<open>What a computation has read from the state is true of it until the state changes.\<close>

lemma keeps_get: "(\<And>x. leads (\<lambda>s. P s \<and> g s = x) P (f x)) \<Longrightarrow> keeps P (sys_bind (sys_get g) f)"
  by (simp add: keeps_def leads_def sys_bind_def sys_get_def)

lemma leads_get: "(\<And>x. leads (\<lambda>s. P s \<and> g s = x) Q (f x)) \<Longrightarrow> leads P Q (sys_bind (sys_get g) f)"
  by (simp add: leads_def sys_bind_def sys_get_def)

lemma leads_ok_or:
  "(\<And>y. x = Some y \<Longrightarrow> leads P Q (f y)) \<Longrightarrow> (\<And>s. P s \<Longrightarrow> Q s) \<Longrightarrow> leads P Q (sys_bind (sys_ok_or x e) f)"
  by (cases x) (simp_all add: leads_def sys_bind_def sys_ok_or_def sys_return_def sys_fail_def)

lemma leads_modify: "(\<And>s. P s \<Longrightarrow> Q (f s)) \<Longrightarrow> leads P Q (sys_modify f)"
  by (simp add: leads_def sys_modify_def)

lemma leads_fail [simp]: "(\<And>s. P s \<Longrightarrow> Q s) \<Longrightarrow> leads P Q (sys_fail e)"
  by (simp add: leads_keeps)

lemma tables_install_descriptor:
  assumes "pipe_id_of d = None"
  shows "keeps tables_ok (install_descriptor d)"
  unfolding install_descriptor_def
  by (intro keeps_bind keeps_get leads_get leads_ok_or leads_bind_keeps leads_modify)
    (auto simp: tables_ok_def res_ok_open assms)

text \<open>The descriptor a call has looked up stays what it is while the call works on the filesystem or on memory.\<close>

abbreviation holds_file :: "pid \<Rightarrow> u64 \<Rightarrow> open_file \<Rightarrow> 's ks \<Rightarrow> bool" where
  "holds_file p fd f s \<equiv> tables_ok s \<and> find_file s p fd = Some f"

lemma holds_file_keeps [simp]:
  "keeps (holds_file p fd f) (sys_fs g)" "keeps (holds_file p fd f) (fill_user_buffer env ptr len w)"
  "keeps (holds_file p fd f) (sys_modify (store_user pg ptr bs))"
  by (simp_all add: keeps_def sys_fs_def fill_user_buffer_def sys_modify_def find_file_def Let_def case_prod_beta)
    (simp_all add: store_user_def set_memory_def)

lemma tables_set_descriptor:
  "pipe_id_of (of_descriptor f) = None \<Longrightarrow> pipe_id_of d = None \<Longrightarrow>
     leads (holds_file p fd f) tables_ok (sys_modify (set_descriptor p fd d))"
  by (rule leads_modify) (simp add: tables_ok_def res_ok_set_descriptor)

lemma tables_write_pipe [simp]: "keeps tables_ok (write_pipe fd src)"
  by (simp add: write_pipe_def keeps_rules split: descriptor.split option.split)

lemma tables_write_file:
  assumes "of_descriptor f = FileDesc target off"
  shows "leads (holds_file p fd f) tables_ok
     (sys_bind (sys_guard b e) (\<lambda>_.
      sys_bind (sys_fs g) (\<lambda>r.
      sys_bind (sys_lift r) (\<lambda>n.
      sys_bind (sys_modify (set_descriptor p fd (FileDesc target (off + n)))) (\<lambda>_. sys_return n)))))"
  by (intro leads_bind leads_bind_keeps tables_set_descriptor) (simp_all add: assms pipe_id_of_def)

lemma tables_write_descriptor [simp]: "keeps tables_ok (write_descriptor env fd src)"
  unfolding write_descriptor_def
  by (rule keeps_bind, simp, rule keeps_get)
    (auto intro: tables_write_file leads_keeps split: option.split descriptor.split)

lemma tables_find_event:
  assumes "\<And>v. event_ok v \<Longrightarrow> keeps tables_ok (f v)"
  shows "keeps tables_ok (sys_bind (find_event p i) f)"
proof -
  have "tables_ok (snd (sys_bind (find_event p i) f s))" if s: "tables_ok s" for s
  proof (cases "\<exists>v. find (owned_event p i) (ks_events s) = Some (Some v)")
    case True
    then obtain v where v: "find (owned_event p i) (ks_events s) = Some (Some v)" by blast
    from find_SomeD[OF v] s have "event_ok v" by (simp add: tables_ok_def res_ok_books)
    from assms[OF this] show ?thesis
      using s v by (simp add: keeps_def find_event_def sys_bind_def sys_get_def sys_return_def)
  next
    case False
    then show ?thesis
      using s by (simp add: find_event_def sys_bind_def sys_get_def sys_fail_def split: option.split)
  qed
  then show ?thesis by (simp add: keeps_def)
qed

lemma tables_set_event [simp]:
  "event_ok v \<Longrightarrow> keeps tables_ok (sys_modify (set_event p i (Some v)))"
  "keeps tables_ok (sys_modify (set_event p i None))"
  by (auto intro!: keeps_modify res_ok_set_event simp: tables_ok_def)

lemma keeps_proc_bind:
  "(\<And>k. keeps tables_ok (f (fst (g k)))) \<Longrightarrow> keeps tables_ok (sys_bind (sys_proc g) f)"
  by (simp add: keeps_def sys_bind_def sys_proc_def case_prod_beta)

lemma event_ok_signaled [simp]: "event_ok (v\<lparr>ev_signaled := b\<rparr>) = event_ok v"
  by (simp add: event_ok_def event_queue_def)

lemma event_ok_updates [simp]:
  "event_ok v \<Longrightarrow> event_ok (snd (event_enqueue t v))" "event_ok v \<Longrightarrow> event_ok (event_remove t v)"
  by (metis event_enqueue_refines(1) prod.collapse) (rule event_remove_refines(1))

lemma tables_close_event [simp]: "keeps tables_ok (close_event h)"
  unfolding close_event_def
  by (rule keeps_bind, simp, rule tables_find_event, simp add: keeps_bind)

lemma tables_signal_event [simp]: "keeps tables_ok (signal_event h)"
  unfolding signal_event_def case_prod_beta Let_def
  by (rule keeps_bind, simp, rule tables_find_event, rule keeps_proc_bind)
    (simp add: keeps_bind event_ok_wake_waiter del: wake_waiter.simps)

lemma tables_wait_event [simp]: "keeps tables_ok (wait_event env h f)"
  unfolding wait_event_def case_prod_beta Let_def
  by (rule keeps_bind, simp, rule keeps_bind, simp, rule keeps_bind, simp, rule tables_find_event)
    (simp add: keeps_bind)

lemma tables_create_event [simp]: "keeps tables_ok create_event"
  unfolding create_event_def
  by (rule keeps_bind, simp, rule keeps_bind, simp add: keeps_state, rule keeps_get, rule leads_ok_or,
      rule leads_bind_keeps, rule leads_modify) (auto simp: tables_ok_def res_ok_new_slots)

lemma tables_create_message_queue [simp]: "keeps tables_ok create_message_queue"
  unfolding create_message_queue_def
  by (rule keeps_bind, simp, rule keeps_bind, simp add: keeps_state, rule keeps_get, rule leads_ok_or,
      rule leads_bind_keeps, rule leads_modify) (auto simp: tables_ok_def res_ok_new_slots)

lemma tables_clear_queue: "tables_ok s \<Longrightarrow> tables_ok (s\<lparr>ks_queues := update_first P (\<lambda>_. None) (ks_queues s)\<rparr>)"
  by (simp add: tables_ok_def res_ok_new_slots(3))

lemma tables_close_message_queue [simp]: "keeps tables_ok (close_message_queue h)"
  by (simp add: close_message_queue_def keeps_rules tables_clear_queue)

lemma input_ok_take_keys: "input_ok i \<Longrightarrow> input_ok (snd (take_keys n i))"
proof (induction n arbitrary: i)
  case (Suc n)
  have "input_ok (snd (dequeue_keyboard_byte i))"
    using Suc.prems by (auto simp: dequeue_keyboard_byte_def input_ok_def split: list.split)
  then show ?case using Suc.IH by (auto simp: case_prod_beta Let_def split: option.split)
qed simp

lemma tables_take_keys: "tables_ok s \<Longrightarrow> tables_ok (s\<lparr>ks_input := snd (take_keys n (ks_input s))\<rparr>)"
  by (simp add: tables_ok_def res_ok_def input_ok_take_keys)

lemma tables_store [simp]: "keeps tables_ok (sys_modify (store_user pg ptr bs))"
  by (rule keeps_modify) simp

lemma tables_keeps_parts [simp]:
  "keeps tables_ok (check_entry env entry)" "keeps tables_ok (user_write_range env a b)"
  "keeps tables_ok (copy_to_user_buffer env a b bs)" "keeps tables_ok (read_pipe env i p a b)"
  by (simp_all add: check_entry_def user_write_range_def copy_to_user_buffer_def read_pipe_def keeps_bind)

lemma tables_stdin [simp]: "keeps tables_ok (read_stdin_to_user env a b)"
  by (simp add: read_stdin_to_user_def keeps_rules case_prod_beta Let_def tables_take_keys)

lemma tables_listing [simp]: "keeps tables_ok (listing_to_user env w a b)"
  by (simp add: listing_to_user_def keeps_bind)

lemma tables_path [simp]: "keeps tables_ok (path_to_user oper env a b c d)"
  by (simp add: path_to_user_def keeps_bind)

lemma pipe_id_of_target [simp]: "pipe_id_of (descriptor_for_target t) = None" "pipe_id_of (FileDesc t n) = None"
    "pipe_id_of (DirDesc path n) = None"
  by (simp_all add: descriptor_for_target_def pipe_id_of_def)

lemma tables_file_handlers [simp]:
  "keeps tables_ok (write_user_buffer env fd a b)" "keeps tables_ok (chdir_user env a b)"
  "keeps tables_ok (syscall_set_current_user env a b)" "keeps tables_ok (sys_open_file env a b)"
  "keeps tables_ok (create_file env a b)" "keeps tables_ok (unlink_file env a b)" "keeps tables_ok (mkdir_user env a b)"
  "keeps tables_ok (rmdir_user env a b)" "keeps tables_ok (close_fd fd)" "keeps tables_ok (uptime_to_user env a b)"
  "keeps tables_ok (list_dir_to_user env a b c d)" "keeps tables_ok (read_file_to_user env a b c d)"
  "keeps tables_ok (stat_to_user env a b c d)" "keeps tables_ok (getcwd_to_user env a b)"
  by (simp_all add: write_user_buffer_def chdir_user_def syscall_set_current_user_def sys_open_file_def create_file_def
      unlink_file_def mkdir_user_def rmdir_user_def close_fd_def uptime_to_user_def list_dir_to_user_def
      read_file_to_user_def stat_to_user_def getcwd_to_user_def Let_def case_prod_beta keeps_rules tables_install_descriptor)

lemma tables_read_file:
  assumes "of_descriptor f = FileDesc target off"
  shows "leads (holds_file p fd f) tables_ok
     (sys_bind (fill_user_buffer env ptr len w) (\<lambda>r.
      sys_bind (sys_lift r) (\<lambda>n.
      sys_bind (sys_modify (set_descriptor p fd (FileDesc target (off + n)))) (\<lambda>_. sys_return (of_nat n)))))"
  by (intro leads_bind leads_bind_keeps tables_set_descriptor) (simp_all add: assms)

lemma tables_read_dir:
  assumes "of_descriptor f = DirDesc path off"
  shows "leads (holds_file p fd f) tables_ok
     (sys_bind (sys_get g) (\<lambda>r.
      sys_bind (sys_lift (fst r)) (\<lambda>len.
      sys_bind (sys_modify (store_user pg ptr (h len r))) (\<lambda>_.
      sys_bind (sys_modify (set_descriptor p fd (DirDesc path (n len)))) (\<lambda>_. sys_return (m len))))))"
  by (intro leads_bind leads_bind_keeps tables_set_descriptor) (simp_all add: assms)

lemma tables_read_fd [simp]: "keeps tables_ok (read_fd_to_user env fd a b)"
  unfolding read_fd_to_user_def case_prod_beta Let_def if_distrib
  by (rule keeps_bind, simp, rule keeps_bind, simp, cases "fd = 0", simp, simp, rule keeps_bind, simp, rule keeps_get)
    (auto intro: tables_read_file tables_read_dir leads_keeps split: option.split descriptor.split)

lemma tables_message_handlers [simp]:
  "keeps tables_ok (send_message env h a b)" "keeps tables_ok (receive_message env h a b)"
  by (simp_all add: send_message_def receive_message_def keeps_bind)

lemma tables_process_handlers [simp]:
  "keeps tables_ok (wait_for_pending_child env f)" "keeps tables_ok (terminate_process env a b)"
  "keeps tables_ok (syscall_update_signal_mask env f)" "keeps tables_ok (set_signal_action env a b)"
  "keeps tables_ok current_pending_signals" "keeps tables_ok current_process_group"
  "keeps tables_ok (syscall_set_process_group a b)" "keeps tables_ok (get_session_id a)"
  "keeps tables_ok syscall_create_session" "keeps tables_ok (exec_with_mode jm env a b c d)"
  by (simp_all add: wait_for_pending_child_def terminate_process_def syscall_update_signal_mask_def set_signal_action_def
      current_pending_signals_def current_process_group_def syscall_set_process_group_def get_session_id_def
      syscall_create_session_def group_result_def exec_with_mode_def case_prod_beta keeps_rules
      split: option.split sum.split signal_delivery.split)

lemma tables_thread_handlers [simp]:
  "keeps tables_ok (spawn_user_thread env e a)" "keeps tables_ok (syscall_create_user_thread env e p l a)"
  "keeps tables_ok (join_user_thread env f)" "keeps tables_ok (user_yield env f)" "keeps tables_ok (sleep_current_user env f)"
  by (simp_all add: spawn_user_thread_def syscall_create_user_thread_def join_user_thread_def user_yield_def
      sleep_current_user_def Let_def keeps_rules split: option.split thread_join_status.split)

lemma tables_listing_handlers [simp]:
  "keeps tables_ok (procs_to_user env a b)" "keeps tables_ok (pci_list_to_user env a b)"
  "keeps tables_ok (netdev_list_to_user env a b)" "keeps tables_ok (kernel_log_to_user env a b)"
  "keeps tables_ok (driver_status_to_user env a b)"
  by (simp_all add: procs_to_user_def pci_list_to_user_def netdev_list_to_user_def kernel_log_to_user_def
      driver_status_to_user_def keeps_bind)

lemma tables_trap_handlers [simp]:
  "keeps tables_ok (process_exit env st)" "keeps tables_ok (thread_exit env)" "keeps tables_ok (sigreturn env)"
  "keeps tables_ok (sigprocmask env f)"
  by (simp_all add: process_exit_def thread_exit_def sigreturn_def sigprocmask_def keeps_rules)

section \<open>The calls that spend identifiers\<close>

text \<open>Processes, threads and pipes are numbered by counters; a fresh number is above all in use unless the counter wraps.\<close>

abbreviation procs_room :: "'s ks \<Rightarrow> bool" where
  "procs_room s \<equiv> procs_ok s \<and> ids_left (ks_proc s)"

abbreviation tables_room :: "'s ks \<Rightarrow> bool" where
  "tables_room s \<equiv> tables_ok s \<and> ks_next_pipe_id s \<noteq> - 1"

lemma ids_left_mm [simp]: "ids_left (k\<lparr>k_mm := m\<rparr>) = ids_left k"
  by (simp add: ids_left_def)

lemma room_reads [simp]:
  "keeps procs_room (checked env ptr len acc)" "keeps procs_room (read_user_str env ptr len)"
  "keeps procs_room current_pid" "keeps procs_room current_layout"
  "keeps tables_room (checked env ptr len acc)" "keeps tables_room current_pid"
  by (rule keeps_quiet; simp add: set_offset_def tables_ok_def res_ok_def)+

lemma room_check_entry [simp]: "keeps procs_room (check_entry env entry)"
  by (simp add: check_entry_def keeps_bind)

lemma procs_new_thread:
  "leads procs_room procs_ok (sys_proc (create_user_thread p e lo hi rsp a))"
  "leads procs_room procs_ok (sys_proc (create_managed_user_thread p e a))"
  by (simp_all add: leads_def sys_proc_def case_prod_beta ids_left_def table_ok_create_user_thread
      table_ok_create_managed_user_thread)

lemma procs_spawn: "leads procs_room procs_ok (spawn_user_thread env e a)"
  unfolding spawn_user_thread_def
  by (rule leads_bind, simp, simp, rule leads_bind, simp, simp, rule leads_bind_keeps, rule procs_new_thread)
    (simp add: keeps_bind)

lemma procs_create_thread: "leads procs_room procs_ok (syscall_create_user_thread env e p l a)"
  unfolding syscall_create_user_thread_def
  by ((rule leads_bind, (simp; fail), (simp; fail))+, rule leads_bind_keeps, rule procs_new_thread) (simp add: keeps_bind)

lemma table_ok_reserve_pid: "table_ok k \<Longrightarrow> ids_left k \<Longrightarrow> table_ok (snd (reserve_pid k))"
  by (simp add: reserve_pid_def ids_left_def table_ok_next_pid word_Suc_gt order_less_imp_le)

lemma procs_exec: "leads procs_room procs_ok (exec_with_mode jm env a b c d)"
proof -
  have "leads procs_room procs_ok (sys_state (request_path_with_arg_and_mode u path arg jm))" for u path arg
    by (auto simp: leads_def sys_state_def request_path_with_arg_and_mode_def queue_program_def Let_def case_prod_beta
        table_ok_reserve_pid split: option.split sum.split)
  then show ?thesis
    unfolding exec_with_mode_def
    by (intro leads_bind leads_bind_keeps) (simp_all add: keeps_bind)
qed

lemma tables_create_pipe: "leads tables_room tables_ok (create_pipe env a b)"
  unfolding create_pipe_def user_write_range_def
  by (rule leads_bind, simp, simp, rule leads_bind, simp, simp, rule leads_bind, simp, simp, rule leads_get,
      rule leads_ok_or, rule leads_ok_or, rule leads_ok_or, rule leads_ok_or, rule leads_bind_keeps)
    (auto simp: leads_def tables_ok_def res_ok_install_pipe keeps_bind)

section \<open>Every system call\<close>

definition kernel_ok :: "'s ks \<Rightarrow> bool" where
  "kernel_ok s \<longleftrightarrow> table_ok (ks_proc s) \<and> res_ok s \<and> input_ok (ks_input s)"

lemma handlers_invariant:
  assumes "h \<in> snd ` set (handlers env f)"
  shows "leads procs_room procs_ok h" "leads tables_room tables_ok h"
proof -
  have keep: "keeps procs_ok h \<Longrightarrow> leads procs_room procs_ok h" "keeps tables_ok h \<Longrightarrow> leads tables_room tables_ok h"
    by (auto intro: leads_keeps)
  have "keeps procs_ok h \<or> leads procs_room procs_ok h"
    using assms unfolding handlers_def exec_user_program_def exec_background_user_program_def
    by (auto simp: keeps_bind procs_spawn procs_create_thread procs_exec)
  then show "leads procs_room procs_ok h" using keep by blast
  have "keeps tables_ok h \<or> leads tables_room tables_ok h"
    using assms unfolding handlers_def exec_user_program_def exec_background_user_program_def
    by (auto simp: keeps_bind tables_create_pipe)
  then show "leads tables_room tables_ok h" using keep by blast
qed

lemma traps_invariant: "h \<in> set (trap_handlers env f) \<Longrightarrow> keeps procs_ok h \<and> keeps tables_ok h"
  by (auto simp: trap_handlers_def)

lemma rename_invariant:
  assumes "rename_file env a b c d s = Some (r, s')"
  shows "procs_ok s \<Longrightarrow> procs_ok s'" "tables_ok s \<Longrightarrow> tables_ok s'"
proof -
  have k: "keeps procs_ok (rename_paths env a b c d)" "keeps tables_ok (rename_paths env a b c d)"
    by (simp_all add: rename_paths_def keeps_bind)
  then show "procs_ok s \<Longrightarrow> procs_ok s'" "tables_ok s \<Longrightarrow> tables_ok s'"
    using assms unfolding keeps_def rename_file_def
    by (auto split: prod.splits sum.splits option.splits; metis snd_conv)+
qed

lemma dispatch_invariant:
  assumes "dispatch env f s = Some (r, s')"
  shows "procs_room s \<Longrightarrow> procs_ok s'" "tables_room s \<Longrightarrow> tables_ok s'"
proof -
  have "(procs_room s \<longrightarrow> procs_ok s') \<and> (tables_room s \<longrightarrow> tables_ok s')"
  proof (cases "f_number f = SYS_RENAME")
    case True
    with assms rename_invariant show ?thesis unfolding dispatch_def by (metis (full_types))
  next
    case False
    show ?thesis
    proof (cases "map_of (handlers env f) (f_number f)")
      case None
      then show ?thesis using False assms by (simp add: dispatch_def sys_fail_def)
    next
      case (Some h)
      from map_of_SomeD[OF this] have "h \<in> snd ` set (handlers env f)" by force
      moreover have "snd (h s) = s'" using False Some assms by (simp add: dispatch_def)
      ultimately show ?thesis using handlers_invariant unfolding leads_def by blast
    qed
  qed
  then show "procs_room s \<Longrightarrow> procs_ok s'" "tables_room s \<Longrightarrow> tables_ok s'" by blast+
qed

text \<open>
  C2: every system call keeps the invariant of the kernel.  Whatever the frame holds and whatever the
  filesystems answer, a trap that returns leaves the process table well formed, every table at its size,
  no process with two files under one descriptor, the reader and writer counts of every pipe equal to the
  numbers of descriptors that refer to it, every queue within its bounds; as long as the 32-bit counters
  of processes and threads and the 64-bit counter of pipes have not reached their last value.
\<close>

theorem syscall_keeps_invariant:
  assumes "kernel_ok s" "ids_left (ks_proc s)" "ks_next_pipe_id s \<noteq> - 1"
    and "syscall_interrupt_dispatch env frame s = Some (v, s')"
  shows "kernel_ok s'"
proof -
  define t where "t = s\<lparr>ks_traps := ks_traps s + 1\<rparr>"
  have t: "procs_room t" "tables_room t" using assms(1-3) by (simp_all add: t_def kernel_ok_def tables_ok_def res_ok_def)
  from assms(4) have "procs_ok s' \<and> tables_ok s'"
  proof (cases rule: interrupt_dispatch_cases)
    case (trap h)
    then show ?thesis using traps_invariant[OF trap(1)] t by (simp add: keeps_def t_def[symmetric])
  next
    case (arm r)
    then show ?thesis using dispatch_invariant[of env frame t r s'] t by (simp add: t_def)
  qed
  then show ?thesis by (simp add: kernel_ok_def tables_ok_def)
qed

text \<open>The process of the example above creating an event.\<close>

lemma example_caller_ok:
  "kernel_ok example_caller" "ids_left (ks_proc example_caller)" "ks_next_pipe_id example_caller \<noteq> - 1"
proof -
  have "table_ok (ks_proc example_caller)"
    by (simp add: example_caller_def ks_start_def example_defs table_ok_eval)
  then show "kernel_ok example_caller"
    by (simp add: kernel_ok_def example_caller_def res_ok_start) (simp add: ks_start_def input_new_ok)
qed (simp_all add: example_caller_def ks_start_def ids_left_def example_defs)

lemma example_create_event:
  "syscall_interrupt_dispatch example_env (example_frame 34 0 0 0) example_caller =
     Some (1, example_caller\<lparr>ks_traps := 1, ks_next_event_id := 2, ks_events := Some (event_new 1 2) # replicate 15 None\<rparr>)"
proof -
  have "replicate 16 None = None # replicate 15 (None :: event option)" by (simp add: numeral_eq_Suc)
  then have c: "ks_events example_caller = None # replicate 15 None" "ks_next_event_id example_caller = 1"
    "k_current_process (ks_proc example_caller) = Some 2" "ks_traps example_caller = 0"
    by (simp_all add: example_caller_def ks_start_def MAX_EVENTS_def)
  have "create_event (example_caller\<lparr>ks_traps := 1\<rparr>) = (Inr 1,
      example_caller\<lparr>ks_traps := 1, ks_next_event_id := 2, ks_events := Some (event_new 1 2) # replicate 15 None\<rparr>)"
    by (simp add: create_event_def current_pid_def sys_bind_def sys_get_def sys_ok_or_def sys_state_def sys_modify_def
        sys_return_def first_free_def c)
  then show ?thesis
    by (simp add: syscall_interrupt_dispatch_def dispatch_def handlers_def example_frame_def syscall_result_def c(4))
qed

theorem syscall_keeps_invariant_witness:
  "kernel_ok example_caller \<and>
   kernel_ok (example_caller\<lparr>ks_traps := 1, ks_next_event_id := 2, ks_events := Some (event_new 1 2) # replicate 15 None\<rparr>)"
  using example_caller_ok syscall_keeps_invariant[OF example_caller_ok example_create_event] by simp

section \<open>Unknown numbers\<close>

text \<open>
  The code of \<^verbatim>\<open>UnknownSyscall\<close> is the value that sends the trap back to the kernel: a program that asks for
  a number above the last one does not get the error but leaves the processor.
\<close>

lemma unknown_number_leaves_program:
  assumes "54 < f_number frame"
  shows "syscall_interrupt_dispatch env frame s = Some (SYSCALL_RETURN_TO_KERNEL, s\<lparr>ks_traps := ks_traps s + 1\<rparr>)"
proof -
  have n: "f_number frame \<noteq> k" if "k \<le> 54" for k using assms that by auto
  then have "map_of (handlers env frame) (f_number frame) = None" by (simp add: handlers_def)
  then show ?thesis
    by (simp add: syscall_interrupt_dispatch_def Let_def n dispatch_def sys_fail_def syscall_result_def
        SYSCALL_RETURN_TO_KERNEL_def)
qed

end
