(* ===== verification/Private_Mapping.thy ===== *)
theory Private_Mapping
  imports Private_Space
begin

text \<open>
  What mapping a private page does to an address space.  \<^verbatim>\<open>map_private_user_page\<close> copies the tables on the
  path of the page into fresh frames before it writes the entry, so that the tables of the kernel and of
  the other address spaces stay as they are: here its effect on every entry is worked out, and from it
  the translation of every address.
\<close>

section \<open>Copied frames\<close>

lemma in_frame:
  assumes "unat t mod 4096 = 0" "unat d mod 4096 = 0" "x < 4096"
  shows "unat (t + of_nat x - d) < 4096 \<longleftrightarrow> t = (d :: u64)"
proof
  assume l: "unat (t + of_nat x - d) < 4096"
  have u: "unat (t + of_nat x) = unat t + x" by (rule unat_aligned_plus[OF assms(1,3)])
  have b: "unat d + 4096 \<le> 2 ^ 64" by (rule aligned_bound[OF assms(2)])
  show "t = d"
  proof (rule ccontr)
    assume "t \<noteq> d"
    then have "unat t \<noteq> unat d" by (simp add: word_unat_eq_iff)
    then consider "unat t + 4096 \<le> unat d" | "unat d + 4096 \<le> unat t"
      using aligned_step[OF assms(1,2)] aligned_step[OF assms(2,1)] by linarith
    then show False
    proof cases
      case 1
      then show ?thesis using l b assms(3) by (simp add: unat_diff64 u)
    next
      case 2
      then show ?thesis using l by (simp add: unat_diff64 u)
    qed
  qed
qed (use assms(3) in \<open>simp add: unat_of_nat\<close>)

lemma copy_frame_at:
  assumes "unat t mod 4096 = 0" "unat d mod 4096 = 0" "x < 4096"
  shows "copy_frame s d m (t + of_nat x) = (if t = d then m (s + of_nat x) else m (t + of_nat x))"
  using in_frame[OF assms] by (auto simp: copy_frame_def)

lemma entry_bytes: "entry_at m t i = u64_of_le (map (\<lambda>k. m (t + of_nat (8 * i + k))) [0..<8])"
  by (simp add: entry_at_def load64_def load_bytes_def table_slot_def add.assoc)

lemma entry_copy_frame:
  assumes "frame_addr t" "frame_addr d" "i < 512"
  shows "entry_at (copy_frame s d m) t i = (if t = d then entry_at m s i else entry_at m t i)"
proof -
  have "copy_frame s d m (t + of_nat (8 * i + k)) =
      (if t = d then m (s + of_nat (8 * i + k)) else m (t + of_nat (8 * i + k)))" if "k < 8" for k
    using assms(3) that by (intro copy_frame_at frame_addr_aligned assms(1,2)) simp
  then have "map (\<lambda>k. copy_frame s d m (t + of_nat (8 * i + k))) [0..<8] =
      map (\<lambda>k. m ((if t = d then s else t) + of_nat (8 * i + k))) [0..<8]"
    by (intro map_cong refl) (simp del: of_nat_add of_nat_mult)
  from arg_cong[OF this, of u64_of_le] have "entry_at (copy_frame s d m) t i = entry_at m (if t = d then s else t) i"
    unfolding entry_bytes .
  then show ?thesis by simp
qed

section \<open>Cloning one table\<close>

definition free_frames :: "frame_allocator \<Rightarrow> u64 list" where
  "free_frames fa = drop (fa_next fa) (usable_frames fa)"

lemma allocate_frame_Some:
  assumes "allocate_frame fa = (Some f, fa')"
  shows "free_frames fa = f # free_frames fa'"
proof -
  have "fa_next fa < length (usable_frames fa)" "f = usable_frames fa ! fa_next fa" "fa' = fa\<lparr>fa_next := fa_next fa + 1\<rparr>"
    using assms by (auto simp: allocate_frame_def Let_def split: if_splits)
  moreover have "usable_frames (fa\<lparr>fa_next := k\<rparr>) = usable_frames fa" for k by (simp add: usable_frames_def)
  ultimately show ?thesis by (simp add: free_frames_def Cons_nth_drop_Suc)
qed

lemma clone_child_table_InrD:
  assumes "clone_child_table pg parent i fa m = (Inr new, fa', m')"
  obtains cur fl where "pg_frame pg (entry_at m parent i) = FrameAt cur" "free_frames fa = new # free_frames fa'"
    "fl = pg_flags pg (entry_at (copy_frame cur new m) parent i) OR PRESENT OR WRITABLE"
    "m' = set_entry parent i (pg_entry pg new fl) (copy_frame cur new m)"
  using assms allocate_frame_Some
  by (auto simp: clone_child_table_def child_table_frame_def Let_def split: sum.splits option.splits prod.splits frame_result.splits)

lemma flag_bits_or: "flag_bits a \<Longrightarrow> flag_bits b \<Longrightarrow> flag_bits (a OR b)"
  by (simp add: flag_bits_def bit.conj_disj_distrib2)

lemma table_flags:
  assumes "flag_bits fl" "\<not> flags_contain fl HUGE_PAGE"
  shows "flag_bits (fl OR PRESENT OR WRITABLE)" "flags_contain (fl OR PRESENT OR WRITABLE) PRESENT"
    "\<not> flags_contain (fl OR PRESENT OR WRITABLE) HUGE_PAGE"
proof -
  show "flag_bits (fl OR PRESENT OR WRITABLE)" by (intro flag_bits_or assms(1)) (simp_all add: flag_bits_def)
  have "(a OR b OR c) AND b = b" for a b c :: u64 by (rule bit_eqI) (auto simp: bit_and_iff bit_or_iff)
  then show "flags_contain (fl OR PRESENT OR WRITABLE) PRESENT" unfolding flags_contain_def .
  have "(fl OR 3) AND 128 = fl AND 128" by (simp add: bit.conj_disj_distrib2)
  then show "\<not> flags_contain (fl OR PRESENT OR WRITABLE) HUGE_PAGE"
    using assms(2) by (simp add: flags_contain_def)
qed

text \<open>The tables below a level-4 table.\<close>

definition table_below :: "paging \<Rightarrow> mem \<Rightarrow> u64 \<Rightarrow> u64 \<Rightarrow> bool" where
  "table_below pg m p4 t \<longleftrightarrow>
     (\<exists>va p3. pg_frame pg (entry_at m p4 (pg_index pg 4 va)) = FrameAt p3 \<and>
        (t = p3 \<or> (\<exists>p2. pg_frame pg (entry_at m p3 (pg_index pg 3 va)) = FrameAt p2 \<and>
           (t = p2 \<or> pg_frame pg (entry_at m p2 (pg_index pg 2 va)) = FrameAt t))))"

text \<open>The path of a page after its three tables have been cloned and its entry written.\<close>

definition cloned_path :: "paging \<Rightarrow> mem \<Rightarrow> mem \<Rightarrow> u64 \<Rightarrow> u64 \<Rightarrow> u64 \<Rightarrow> u64 \<times> u64 \<times> u64 \<Rightarrow> u64 \<times> u64 \<times> u64 \<Rightarrow> bool" where
  "cloned_path pg m m' p4 va frame = (\<lambda>(p3, p2, p1) (n3, n2, n1).
     (pg_frame pg (entry_at m p4 (pg_index pg 4 va)) = FrameAt p3 \<and>
      pg_frame pg (entry_at m p3 (pg_index pg 3 va)) = FrameAt p2 \<and>
      pg_frame pg (entry_at m p2 (pg_index pg 2 va)) = FrameAt p1) \<and>
     (pg_frame pg (entry_at m' p4 (pg_index pg 4 va)) = FrameAt n3 \<and>
      pg_frame pg (entry_at m' n3 (pg_index pg 3 va)) = FrameAt n2 \<and>
      pg_frame pg (entry_at m' n2 (pg_index pg 2 va)) = FrameAt n1 \<and>
      entry_at m' n1 (pg_index pg 1 va) = pg_entry pg frame user_data_page_flags) \<and>
     (\<forall>i. i < 512 \<longrightarrow> i \<noteq> pg_index pg 4 va \<longrightarrow> entry_at m' p4 i = entry_at m p4 i) \<and>
     (\<forall>i. i < 512 \<longrightarrow> i \<noteq> pg_index pg 3 va \<longrightarrow> entry_at m' n3 i = entry_at m p3 i) \<and>
     (\<forall>i. i < 512 \<longrightarrow> i \<noteq> pg_index pg 2 va \<longrightarrow> entry_at m' n2 i = entry_at m p2 i) \<and>
     (\<forall>i. i < 512 \<longrightarrow> i \<noteq> pg_index pg 1 va \<longrightarrow> entry_at m' n1 i = entry_at m p1 i) \<and>
     (\<forall>t i. frame_addr t \<longrightarrow> i < 512 \<longrightarrow> t \<notin> {p4, n3, n2, n1} \<longrightarrow> entry_at m' t i = entry_at m t i))"

text \<open>
  After a clone the entry of the parent leads to the fresh frame, the fresh frame has the entries of the
  old table, and every other entry of every table is as before.
\<close>

context paging_spec
begin

lemma clone_child_table_entries:
  assumes "clone_child_table pg parent (pg_index pg l va) fa m = (Inr new, fa', m')"
    and "frame_addr parent" "frame_addr new" "new \<noteq> parent"
  obtains cur where "pg_frame pg (entry_at m parent (pg_index pg l va)) = FrameAt cur"
    "pg_frame pg (entry_at m' parent (pg_index pg l va)) = FrameAt new"
    "\<forall>i. i < 512 \<longrightarrow> i \<noteq> pg_index pg l va \<longrightarrow> entry_at m' parent i = entry_at m parent i"
    "\<forall>i. i < 512 \<longrightarrow> entry_at m' new i = entry_at m cur i"
    "\<forall>t i. frame_addr t \<longrightarrow> i < 512 \<longrightarrow> t \<noteq> parent \<longrightarrow> t \<noteq> new \<longrightarrow> entry_at m' t i = entry_at m t i"
    "\<forall>x. \<not> unat (x - parent) < 4096 \<longrightarrow> \<not> unat (x - new) < 4096 \<longrightarrow> m' x = m x"
proof -
  obtain cur fl where c: "pg_frame pg (entry_at m parent (pg_index pg l va)) = FrameAt cur"
    "fl = pg_flags pg (entry_at (copy_frame cur new m) parent (pg_index pg l va)) OR PRESENT OR WRITABLE"
    "m' = set_entry parent (pg_index pg l va) (pg_entry pg new fl) (copy_frame cur new m)"
    using clone_child_table_InrD[OF assms(1)] by metis
  have "fl = pg_flags pg (entry_at m parent (pg_index pg l va)) OR PRESENT OR WRITABLE"
    using c(2) entry_copy_frame[OF assms(2,3) index_less, of cur m l va] assms(4) by simp
  then have f: "pg_frame pg (pg_entry pg new fl) = FrameAt new"
    using entry_frame[OF assms(3)] table_flags[OF flags_bits frame_not_huge[OF c(1)]] by simp
  have e: "entry_at m' t i = (if parent = t \<and> pg_index pg l va = i then pg_entry pg new fl
      else if t = new then entry_at m cur i else entry_at m t i)" if "frame_addr t" "i < 512" for t i
    unfolding c(3) entry_set_entry[OF assms(2) that(1) index_less that(2)] entry_copy_frame[OF that(1) assms(3) that(2)] by simp
  show ?thesis
  proof (rule that[OF c(1)])
    show "pg_frame pg (entry_at m' parent (pg_index pg l va)) = FrameAt new"
      using e[OF assms(2) index_less, of l va] f by simp
    have "entry_at m' parent i = entry_at m parent i" if "i < 512" "i \<noteq> pg_index pg l va" for i
      using e[OF assms(2) that(1)] that(2) assms(4) by auto
    then show "\<forall>i. i < 512 \<longrightarrow> i \<noteq> pg_index pg l va \<longrightarrow> entry_at m' parent i = entry_at m parent i" by blast
    have "entry_at m' new i = entry_at m cur i" if "i < 512" for i
      using e[OF assms(3) that] assms(4) by auto
    then show "\<forall>i. i < 512 \<longrightarrow> entry_at m' new i = entry_at m cur i" by blast
    have "entry_at m' t i = entry_at m t i" if "frame_addr t" "i < 512" "t \<noteq> parent" "t \<noteq> new" for t i
      using e[OF that(1,2)] that(3,4) by auto
    then show "\<forall>t i. frame_addr t \<longrightarrow> i < 512 \<longrightarrow> t \<noteq> parent \<longrightarrow> t \<noteq> new \<longrightarrow> entry_at m' t i = entry_at m t i" by blast
    have "m' x = m x" if "\<not> unat (x - parent) < 4096" "\<not> unat (x - new) < 4096" for x
      unfolding c(3) set_entry_outside[OF assms(2) index_less that(1)] using that(2) by (simp add: copy_frame_def)
    then show "\<forall>x. \<not> unat (x - parent) < 4096 \<longrightarrow> \<not> unat (x - new) < 4096 \<longrightarrow> m' x = m x" by blast
  qed
qed

lemma map_private_user_page_entries:
  assumes "map_private_user_page pg p4 va frame fa m = (Inr (), fa', m')"
    and "frame_addr p4" "distinct (p4 # free_frames fa)" "list_all frame_addr (free_frames fa)"
    and below: "\<And>t. table_below pg m p4 t \<Longrightarrow> t \<notin> set (p4 # free_frames fa)"
  obtains ps n3 n2 n1 where "cloned_path pg m m' p4 va frame ps (n3, n2, n1)" "free_frames fa = n3 # n2 # n1 # free_frames fa'"
    "\<forall>x. (\<forall>t\<in>{p4, n3, n2, n1}. \<not> unat (x - t) < 4096) \<longrightarrow> m' x = m x"
proof -
  let ?i = "\<lambda>l. pg_index pg l va"
  obtain n3 fa1 m1 where 1: "clone_child_table pg p4 (?i 4) fa m = (Inr n3, fa1, m1)"
    using assms(1) by (auto simp: map_private_user_page_def split: prod.splits sum.splits)
  obtain n2 fa2 m2 where 2: "clone_child_table pg n3 (?i 3) fa1 m1 = (Inr n2, fa2, m2)"
    using assms(1) 1 by (auto simp: map_private_user_page_def split: prod.splits sum.splits)
  obtain n1 m3 where 3: "clone_child_table pg n2 (?i 2) fa2 m2 = (Inr n1, fa', m3)"
    and m': "m' = set_entry n1 (?i 1) (pg_entry pg frame user_data_page_flags) m3"
    using assms(1) 1 2 by (auto simp: map_private_user_page_def split: prod.splits sum.splits)
  have fr: "free_frames fa = n3 # free_frames fa1" "free_frames fa1 = n2 # free_frames fa2" "free_frames fa2 = n1 # free_frames fa'"
    by (rule clone_child_table_InrD[OF 1] clone_child_table_InrD[OF 2] clone_child_table_InrD[OF 3], assumption)+
  then have free: "free_frames fa = n3 # n2 # n1 # free_frames fa'" by simp
  then have n: "frame_addr n3" "frame_addr n2" "frame_addr n1" and d: "n3 \<noteq> p4" "n2 \<noteq> p4" "n1 \<noteq> p4" "n3 \<noteq> n2" "n3 \<noteq> n1" "n2 \<noteq> n1"
    using assms(3,4) by auto
  obtain p3 where p3: "pg_frame pg (entry_at m p4 (?i 4)) = FrameAt p3" "pg_frame pg (entry_at m1 p4 (?i 4)) = FrameAt n3"
    and f1: "\<forall>i. i < 512 \<longrightarrow> i \<noteq> ?i 4 \<longrightarrow> entry_at m1 p4 i = entry_at m p4 i"
      "\<forall>i. i < 512 \<longrightarrow> entry_at m1 n3 i = entry_at m p3 i"
      "\<forall>t i. frame_addr t \<longrightarrow> i < 512 \<longrightarrow> t \<noteq> p4 \<longrightarrow> t \<noteq> n3 \<longrightarrow> entry_at m1 t i = entry_at m t i"
      "\<forall>x. \<not> unat (x - p4) < 4096 \<longrightarrow> \<not> unat (x - n3) < 4096 \<longrightarrow> m1 x = m x"
    by (rule clone_child_table_entries[OF 1 assms(2) n(1) d(1)])
  note e1 = f1[rule_format]
  obtain p2 where p2: "pg_frame pg (entry_at m1 n3 (?i 3)) = FrameAt p2" "pg_frame pg (entry_at m2 n3 (?i 3)) = FrameAt n2"
    and f2: "\<forall>i. i < 512 \<longrightarrow> i \<noteq> ?i 3 \<longrightarrow> entry_at m2 n3 i = entry_at m1 n3 i"
      "\<forall>i. i < 512 \<longrightarrow> entry_at m2 n2 i = entry_at m1 p2 i"
      "\<forall>t i. frame_addr t \<longrightarrow> i < 512 \<longrightarrow> t \<noteq> n3 \<longrightarrow> t \<noteq> n2 \<longrightarrow> entry_at m2 t i = entry_at m1 t i"
      "\<forall>x. \<not> unat (x - n3) < 4096 \<longrightarrow> \<not> unat (x - n2) < 4096 \<longrightarrow> m2 x = m1 x"
    by (rule clone_child_table_entries[OF 2 n(1,2) d(4)[symmetric]])
  note e2 = f2[rule_format]
  obtain p1 where p1: "pg_frame pg (entry_at m2 n2 (?i 2)) = FrameAt p1" "pg_frame pg (entry_at m3 n2 (?i 2)) = FrameAt n1"
    and f3: "\<forall>i. i < 512 \<longrightarrow> i \<noteq> ?i 2 \<longrightarrow> entry_at m3 n2 i = entry_at m2 n2 i"
      "\<forall>i. i < 512 \<longrightarrow> entry_at m3 n1 i = entry_at m2 p1 i"
      "\<forall>t i. frame_addr t \<longrightarrow> i < 512 \<longrightarrow> t \<noteq> n2 \<longrightarrow> t \<noteq> n1 \<longrightarrow> entry_at m3 t i = entry_at m2 t i"
      "\<forall>x. \<not> unat (x - n2) < 4096 \<longrightarrow> \<not> unat (x - n1) < 4096 \<longrightarrow> m3 x = m2 x"
    by (rule clone_child_table_entries[OF 3 n(2,3) d(6)[symmetric]])
  note e3 = f3[rule_format]
  have q2: "pg_frame pg (entry_at m p3 (?i 3)) = FrameAt p2" using p2(1) e1(2)[OF index_less] by simp
  have b2: "p2 \<notin> {p4, n3, n2, n1}" "frame_addr p2"
    using below[of p2] p3(1) q2 free frame_is_frame[OF q2] unfolding table_below_def by auto
  have q1: "pg_frame pg (entry_at m p2 (?i 2)) = FrameAt p1"
    using p1(1) e2(2)[OF index_less] e1(3)[OF b2(2) index_less] b2(1) by simp
  have b1: "p1 \<notin> {p4, n3, n2, n1}" "frame_addr p1"
    using below[of p1] p3(1) q2 q1 free frame_is_frame[OF q1] unfolding table_below_def by auto
  have s: "entry_at m' t i = (if n1 = t \<and> ?i 1 = i then pg_entry pg frame user_data_page_flags else entry_at m3 t i)"
    if "frame_addr t" "i < 512" for t i
    unfolding m' by (rule entry_set_entry[OF n(3) that(1) index_less that(2)])
  have g1: "pg_frame pg (entry_at m' p4 (?i 4)) = FrameAt n3"
      using p3(2) d by (simp add: s[OF assms(2) index_less] e3(3)[OF assms(2) index_less] e2(3)[OF assms(2) index_less])
  have g2: "pg_frame pg (entry_at m' n3 (?i 3)) = FrameAt n2"
      using p2(2) d by (simp add: s[OF n(1) index_less] e3(3)[OF n(1) index_less])
  have g3: "pg_frame pg (entry_at m' n2 (?i 2)) = FrameAt n1" using p1(2) d by (simp add: s[OF n(2) index_less])
  have g4: "entry_at m' n1 (?i 1) = pg_entry pg frame user_data_page_flags" by (simp add: s[OF n(3) index_less])
  have g5: "entry_at m' p4 i = entry_at m p4 i" if "i < 512" "i \<noteq> ?i 4" for i
      using e1(1)[OF that] d by (simp add: s[OF assms(2) that(1)] e3(3)[OF assms(2) that(1)] e2(3)[OF assms(2) that(1)])
  have g6: "entry_at m' n3 i = entry_at m p3 i" if "i < 512" "i \<noteq> ?i 3" for i
      using e2(1)[OF that] e1(2)[OF that(1)] d by (simp add: s[OF n(1) that(1)] e3(3)[OF n(1) that(1)])
  have g7: "entry_at m' n2 i = entry_at m p2 i" if "i < 512" "i \<noteq> ?i 2" for i
      using e3(1)[OF that] e2(2)[OF that(1)] e1(3)[OF b2(2) that(1)] b2(1) d by (simp add: s[OF n(2) that(1)])
  have g8: "entry_at m' n1 i = entry_at m p1 i" if "i < 512" "i \<noteq> ?i 1" for i
      using e3(2)[OF that(1)] e2(3)[OF b1(2) that(1)] e1(3)[OF b1(2) that(1)] b1(1) that(2) by (simp add: s[OF n(3) that(1)])
  have g9: "entry_at m' t i = entry_at m t i" if "frame_addr t" "i < 512" "t \<notin> {p4, n3, n2, n1}" for t i
      using that(3) by (auto simp: s[OF that(1,2)] e3(3)[OF that(1,2)] e2(3)[OF that(1,2)] e1(3)[OF that(1,2)])
  have g10: "m' x = m x" if "\<forall>t\<in>{p4, n3, n2, n1}. \<not> unat (x - t) < 4096" for x
      unfolding m' using that
      by (simp add: set_entry_outside[OF n(3) index_less] e3(4) e2(4) e1(4))
  have "cloned_path pg m m' p4 va frame (p3, p2, p1) (n3, n2, n1)"
    unfolding cloned_path_def prod.case using p3(1) q2 q1 g1 g2 g3 g4 g5 g6 g7 g8 g9 by blast
  from that[OF this free] show ?thesis using g10 by blast
qed

lemma walk_same:
  assumes "\<forall>t l. table_below pg m p4 t \<longrightarrow> entry_at m' t (pg_index pg l q) = entry_at m t (pg_index pg l q)"
    and "pg_frame pg (entry_at m p4 (pg_index pg 4 q)) = FrameAt t3"
  shows "translate_levels pg m' q t3 [3, 2, 1] = translate_levels pg m q t3 [3, 2, 1]"
    "pg_frame pg (entry_at m t3 (pg_index pg 3 q)) = FrameAt t2 \<Longrightarrow>
      translate_levels pg m' q t2 [2, 1] = translate_levels pg m q t2 [2, 1]"
    "pg_frame pg (entry_at m t3 (pg_index pg 3 q)) = FrameAt t2 \<Longrightarrow> pg_frame pg (entry_at m t2 (pg_index pg 2 q)) = FrameAt t1 \<Longrightarrow>
      translate_levels pg m' q t1 [1] = translate_levels pg m q t1 [1]"
proof -
  have b3: "table_below pg m p4 t3" using assms(2) unfolding table_below_def by blast
  have b2: "table_below pg m p4 t2" if "pg_frame pg (entry_at m t3 (pg_index pg 3 q)) = FrameAt t2" for t2
    using assms(2) that unfolding table_below_def by blast
  have b1: "table_below pg m p4 t1" if "pg_frame pg (entry_at m t3 (pg_index pg 3 q)) = FrameAt t2"
      "pg_frame pg (entry_at m t2 (pg_index pg 2 q)) = FrameAt t1" for t2 t1
    using assms(2) that unfolding table_below_def by blast
  show 1: "translate_levels pg m' q t1 [1] = translate_levels pg m q t1 [1]"
    if "pg_frame pg (entry_at m t3 (pg_index pg 3 q)) = FrameAt t2" "pg_frame pg (entry_at m t2 (pg_index pg 2 q)) = FrameAt t1" for t2 t1
    using assms(1)[rule_format, OF b1[OF that]] by (simp split: frame_result.splits)
  show 2: "translate_levels pg m' q t2 [2, 1] = translate_levels pg m q t2 [2, 1]"
    if "pg_frame pg (entry_at m t3 (pg_index pg 3 q)) = FrameAt t2" for t2
    using assms(1)[rule_format, OF b2[OF that]] 1[OF that] by (subst (1 2) translate_levels.simps) (simp split: frame_result.splits)
  show "translate_levels pg m' q t3 [3, 2, 1] = translate_levels pg m q t3 [3, 2, 1]"
    using assms(1)[rule_format, OF b3] 2 by (subst (1 2) translate_levels.simps) (simp split: frame_result.splits)
qed

end

definition private_space_ok :: "paging \<Rightarrow> mem \<Rightarrow> u64 \<Rightarrow> u64 list \<Rightarrow> bool" where
  "private_space_ok pg m p4 free \<longleftrightarrow>
     frame_addr p4 \<and> distinct (p4 # free) \<and> list_all frame_addr free \<and>
     (\<forall>t. table_below pg m p4 t \<longrightarrow> t \<notin> set (p4 # free))"

definition same_path :: "paging \<Rightarrow> u64 \<Rightarrow> u64 \<Rightarrow> bool" where
  "same_path pg a b \<longleftrightarrow> pg_index pg 4 a = pg_index pg 4 b \<and> pg_index pg 3 a = pg_index pg 3 b \<and>
     pg_index pg 2 a = pg_index pg 2 b \<and> pg_index pg 1 a = pg_index pg 1 b"

context paging_spec
begin

lemma private_entry_frame: "frame_addr f \<Longrightarrow> pg_frame pg (pg_entry pg f user_data_page_flags) = FrameAt f"
  by (rule entry_frame) (use wx_ok_words(1) in \<open>simp_all add: wx_ok_def user_flag_words\<close>)

lemma below_frame: "table_below pg m p4 t \<Longrightarrow> frame_addr t"
  using frame_is_frame unfolding table_below_def by blast

lemma cloned_path_same:
  assumes "cloned_path pg m m' p4 va frame ps (n3, n2, n1)" "\<forall>t. table_below pg m p4 t \<longrightarrow> t \<notin> {p4, n3, n2, n1}"
  shows "\<forall>t l. table_below pg m p4 t \<longrightarrow> entry_at m' t (pg_index pg l q) = entry_at m t (pg_index pg l q)"
  using assms below_frame index_less unfolding cloned_path_def by (cases ps) auto

lemma cloned_path_below:
  assumes "cloned_path pg m m' p4 va frame ps (n3, n2, n1)" "\<forall>t. table_below pg m p4 t \<longrightarrow> t \<notin> {p4, n3, n2, n1}"
    and below': "table_below pg m' p4 t"
  shows "t \<in> {n3, n2, n1} \<or> table_below pg m p4 t"
proof -
  obtain p3 p2 p1 where ps: "ps = (p3, p2, p1)" by (cases ps) auto
  note c = assms(1)[unfolded ps cloned_path_def prod.case]
  note same = cloned_path_same[OF assms(1,2), rule_format]
  obtain r t3 where r: "pg_frame pg (entry_at m' p4 (pg_index pg 4 r)) = FrameAt t3"
    and t: "t = t3 \<or> (\<exists>t2. pg_frame pg (entry_at m' t3 (pg_index pg 3 r)) = FrameAt t2 \<and>
         (t = t2 \<or> pg_frame pg (entry_at m' t2 (pg_index pg 2 r)) = FrameAt t))"
    using below' unfolding table_below_def by blast
  consider "pg_index pg 4 r \<noteq> pg_index pg 4 va"
    | "pg_index pg 4 r = pg_index pg 4 va" "pg_index pg 3 r \<noteq> pg_index pg 3 va"
    | "pg_index pg 4 r = pg_index pg 4 va" "pg_index pg 3 r = pg_index pg 3 va" by blast
  then show ?thesis
  proof cases
    case 1
    then have o: "pg_frame pg (entry_at m p4 (pg_index pg 4 r)) = FrameAt t3" using r c index_less[of 4 r] by simp
    have "table_below pg m p4 t3" "pg_frame pg (entry_at m t3 (pg_index pg 3 r)) = FrameAt t2 \<Longrightarrow> table_below pg m p4 t2" for t2
      using o unfolding table_below_def by blast+
    then have "t = t3 \<or> (\<exists>t2. pg_frame pg (entry_at m t3 (pg_index pg 3 r)) = FrameAt t2 \<and>
         (t = t2 \<or> pg_frame pg (entry_at m t2 (pg_index pg 2 r)) = FrameAt t))"
      using t same by metis
    then show ?thesis using o unfolding table_below_def by blast
  next
    case 2
    then have o: "t3 = n3" "pg_frame pg (entry_at m p4 (pg_index pg 4 r)) = FrameAt p3" using r c by simp_all
    have entry: "entry_at m' n3 (pg_index pg 3 r) = entry_at m p3 (pg_index pg 3 r)" using c 2(2) index_less[of 3 r] by blast
    have "table_below pg m p4 t2" if "pg_frame pg (entry_at m p3 (pg_index pg 3 r)) = FrameAt t2" for t2
      using o(2) that unfolding table_below_def by blast
    then have "t = n3 \<or> (\<exists>t2. pg_frame pg (entry_at m p3 (pg_index pg 3 r)) = FrameAt t2 \<and>
         (t = t2 \<or> pg_frame pg (entry_at m t2 (pg_index pg 2 r)) = FrameAt t))"
      using t same entry unfolding o(1) by metis
    then show ?thesis using o(2) unfolding table_below_def by blast
  next
    case 3
    then have o: "t3 = n3" "pg_frame pg (entry_at m p4 (pg_index pg 4 r)) = FrameAt p3"
        "pg_frame pg (entry_at m p3 (pg_index pg 3 r)) = FrameAt p2" "pg_frame pg (entry_at m' n3 (pg_index pg 3 r)) = FrameAt n2"
      using r c by simp_all
    then have "t = n3 \<or> t = n2 \<or> pg_frame pg (entry_at m' n2 (pg_index pg 2 r)) = FrameAt t" using t by auto
    then have "t \<in> {n3, n2, n1} \<or> pg_frame pg (entry_at m p2 (pg_index pg 2 r)) = FrameAt t"
      using c index_less[of 2 r] by (cases "pg_index pg 2 r = pg_index pg 2 va") auto
    then show ?thesis using o(2,3) unfolding table_below_def by blast
  qed
qed

lemma cloned_path_translate:
  assumes "cloned_path pg m m' p4 va frame ps (n3, n2, n1)" "\<forall>t. table_below pg m p4 t \<longrightarrow> t \<notin> {p4, n3, n2, n1}"
    and "frame_addr frame"
  shows "translate_addr pg m' p4 q =
    (if same_path pg q va then TranslatedTo (frame + (q AND mask 12)) else translate_addr pg m p4 q)"
proof -
  obtain p3 p2 p1 where ps: "ps = (p3, p2, p1)" by (cases ps) auto
  note c = assms(1)[unfolded ps cloned_path_def prod.case]
  have old: "pg_frame pg (entry_at m p4 (pg_index pg 4 va)) = FrameAt p3" "pg_frame pg (entry_at m p3 (pg_index pg 3 va)) = FrameAt p2"
      "pg_frame pg (entry_at m p2 (pg_index pg 2 va)) = FrameAt p1"
    and new: "pg_frame pg (entry_at m' p4 (pg_index pg 4 va)) = FrameAt n3" "pg_frame pg (entry_at m' n3 (pg_index pg 3 va)) = FrameAt n2"
      "pg_frame pg (entry_at m' n2 (pg_index pg 2 va)) = FrameAt n1"
      "entry_at m' n1 (pg_index pg 1 va) = pg_entry pg frame user_data_page_flags"
    and e: "pg_index pg 4 q \<noteq> pg_index pg 4 va \<Longrightarrow> entry_at m' p4 (pg_index pg 4 q) = entry_at m p4 (pg_index pg 4 q)"
      "pg_index pg 3 q \<noteq> pg_index pg 3 va \<Longrightarrow> entry_at m' n3 (pg_index pg 3 q) = entry_at m p3 (pg_index pg 3 q)"
      "pg_index pg 2 q \<noteq> pg_index pg 2 va \<Longrightarrow> entry_at m' n2 (pg_index pg 2 q) = entry_at m p2 (pg_index pg 2 q)"
      "pg_index pg 1 q \<noteq> pg_index pg 1 va \<Longrightarrow> entry_at m' n1 (pg_index pg 1 q) = entry_at m p1 (pg_index pg 1 q)"
    using c index_less by blast+
  note w = walk_same[OF cloned_path_same[OF assms(1,2)], of q]
  consider "pg_index pg 4 q \<noteq> pg_index pg 4 va"
    | "pg_index pg 4 q = pg_index pg 4 va" "pg_index pg 3 q \<noteq> pg_index pg 3 va"
    | "pg_index pg 4 q = pg_index pg 4 va" "pg_index pg 3 q = pg_index pg 3 va" "pg_index pg 2 q \<noteq> pg_index pg 2 va"
    | "pg_index pg 4 q = pg_index pg 4 va" "pg_index pg 3 q = pg_index pg 3 va" "pg_index pg 2 q = pg_index pg 2 va" by blast
  then show ?thesis
  proof cases
    case 1
    then have "translate_addr pg m' p4 q = translate_addr pg m p4 q"
      unfolding translate_addr_def translate_levels.simps(2)[of _ _ _ _ 4] e(1)[OF 1]
      using w(1) by (simp split: frame_result.splits del: translate_levels.simps)
    then show ?thesis using 1 by (simp add: same_path_def)
  next
    case 2
    have o: "pg_frame pg (entry_at m p4 (pg_index pg 4 q)) = FrameAt p3" using old(1) 2(1) by simp
    have "translate_addr pg m' p4 q = translate_addr pg m p4 q"
      unfolding translate_addr_def translate_levels.simps(2)[of _ _ _ _ 4] translate_levels.simps(2)[of _ _ _ _ 3] o
      using w(2)[OF o] new(1) e(2)[OF 2(2)] 2(1) by (simp split: frame_result.splits del: translate_levels.simps)
    then show ?thesis using 2 by (simp add: same_path_def)
  next
    case 3
    have o: "pg_frame pg (entry_at m p4 (pg_index pg 4 q)) = FrameAt p3" "pg_frame pg (entry_at m p3 (pg_index pg 3 q)) = FrameAt p2"
      using old(1,2) 3 by simp_all
    have "translate_addr pg m' p4 q = translate_addr pg m p4 q"
      unfolding translate_addr_def translate_levels.simps(2)[of _ _ _ _ 4] translate_levels.simps(2)[of _ _ _ _ 3]
        translate_levels.simps(2)[of _ _ _ _ 2] o
      using w(3)[OF o] new(1,2) o e(3)[OF 3(3)] 3(1,2) by (simp split: frame_result.splits del: translate_levels.simps)
    then show ?thesis using 3 by (simp add: same_path_def)
  next
    case 4
    then show ?thesis
      using old new(1-3) new(4) e(4) private_entry_frame[OF assms(3)]
      by (cases "pg_index pg 1 q = pg_index pg 1 va") (simp_all add: same_path_def translate_addr_def split: frame_result.splits)
  qed
qed

lemma map_private_user_page_step:
  assumes "map_private_user_page pg p4 va frame fa m = (Inr (), fa', m')" "frame_addr frame"
    and "private_space_ok pg m p4 (free_frames fa)"
  shows "translate_addr pg m' p4 q =
      (if same_path pg q va then TranslatedTo (frame + (q AND mask 12)) else translate_addr pg m p4 q)"
    and "private_space_ok pg m' p4 (free_frames fa')"
    and "\<exists>n3 n2 n1. free_frames fa = n3 # n2 # n1 # free_frames fa' \<and>
      (\<forall>x. (\<forall>t\<in>{p4, n3, n2, n1}. \<not> unat (x - t) < 4096) \<longrightarrow> m' x = m x)"
proof -
  have ok: "frame_addr p4" "distinct (p4 # free_frames fa)" "list_all frame_addr (free_frames fa)"
    and below: "\<And>t. table_below pg m p4 t \<Longrightarrow> t \<notin> set (p4 # free_frames fa)"
    using assms(3) unfolding private_space_ok_def by blast+
  obtain ps n3 n2 n1 where c: "cloned_path pg m m' p4 va frame ps (n3, n2, n1)"
    and free: "free_frames fa = n3 # n2 # n1 # free_frames fa'"
    and mem: "\<forall>x. (\<forall>t\<in>{p4, n3, n2, n1}. \<not> unat (x - t) < 4096) \<longrightarrow> m' x = m x"
    by (rule map_private_user_page_entries[OF assms(1) ok below])
  have b: "\<forall>t. table_below pg m p4 t \<longrightarrow> t \<notin> {p4, n3, n2, n1}" using below free by auto
  show "translate_addr pg m' p4 q =
      (if same_path pg q va then TranslatedTo (frame + (q AND mask 12)) else translate_addr pg m p4 q)"
    by (rule cloned_path_translate[OF c b assms(2)])
  show "private_space_ok pg m' p4 (free_frames fa')"
    using ok below free cloned_path_below[OF c b] unfolding private_space_ok_def by auto
  show "\<exists>n3 n2 n1. free_frames fa = n3 # n2 # n1 # free_frames fa' \<and>
      (\<forall>x. (\<forall>t\<in>{p4, n3, n2, n1}. \<not> unat (x - t) < 4096) \<longrightarrow> m' x = m x)"
    using free mem by blast
qed


lemma same_path_page:
  assumes "a < 2 ^ 48" "b < 2 ^ 48"
  shows "same_path pg a b \<longleftrightarrow> page_of a = page_of b"
proof
  assume "same_path pg a b"
  then show "page_of a = page_of b" using index_determines[OF assms] by (auto simp: same_path_def)
next
  assume e: "page_of a = page_of b"
  have "pg_index pg l a = pg_index pg l b" if "0 < l" for l
    using index_page[OF that, of a] index_page[OF that, of b] e by simp
  then show "same_path pg a b" by (simp add: same_path_def)
qed

lemma translated_path:
  assumes "translate_addr pg m p4 va = TranslatedTo a"
  obtains p3 p2 p1 where "pg_frame pg (entry_at m p4 (pg_index pg 4 va)) = FrameAt p3"
    "pg_frame pg (entry_at m p3 (pg_index pg 3 va)) = FrameAt p2" "pg_frame pg (entry_at m p2 (pg_index pg 2 va)) = FrameAt p1"
  using assms by (auto simp: translate_addr_def split: frame_result.splits)

lemma clone_child_table_succeeds:
  assumes "pg_frame pg (entry_at m parent i) = FrameAt cur" "free_frames fa = new # rest"
  shows "\<exists>fa' m'. clone_child_table pg parent i fa m = (Inr new, fa', m') \<and> free_frames fa' = rest"
proof -
  have "fa_next fa < length (usable_frames fa)"
    using assms(2) by (cases "fa_next fa < length (usable_frames fa)") (simp_all add: free_frames_def)
  moreover from this have "usable_frames fa ! fa_next fa = new"
    using assms(2) by (simp add: free_frames_def nth_via_drop)
  ultimately have "fst (allocate_frame fa) = Some new" by (simp add: allocate_frame_def Let_def)
  then obtain fa' where fa': "allocate_frame fa = (Some new, fa')" by (cases "allocate_frame fa") auto
  then show ?thesis
    using assms allocate_frame_Some[OF fa'] by (simp add: clone_child_table_def child_table_frame_def Let_def)
qed

lemma map_private_user_page_succeeds:
  assumes "translate_addr pg m p4 va = TranslatedTo a" "private_space_ok pg m p4 (free_frames fa)" "3 \<le> length (free_frames fa)"
  shows "\<exists>fa' m'. map_private_user_page pg p4 va frame fa m = (Inr (), fa', m')"
proof -
  obtain n3 n2 n1 rest where free: "free_frames fa = n3 # n2 # n1 # rest"
    using assms(3) by (auto simp: numeral_eq_Suc Suc_le_length_iff)
  have ok: "frame_addr p4" "frame_addr n3" "frame_addr n2" "frame_addr n1" "n3 \<noteq> p4" "n3 \<noteq> n2" "n2 \<noteq> p4" "n1 \<noteq> n2"
    and below: "\<And>t. table_below pg m p4 t \<Longrightarrow> t \<notin> {p4, n3, n2, n1}"
    using assms(2) free unfolding private_space_ok_def by auto
  obtain p3 p2 p1 where p: "pg_frame pg (entry_at m p4 (pg_index pg 4 va)) = FrameAt p3"
    "pg_frame pg (entry_at m p3 (pg_index pg 3 va)) = FrameAt p2" "pg_frame pg (entry_at m p2 (pg_index pg 2 va)) = FrameAt p1"
    by (rule translated_path[OF assms(1)])
  have b2: "p2 \<notin> {p4, n3, n2, n1}" "frame_addr p2"
    using below[of p2] p frame_is_frame[OF p(2)] unfolding table_below_def by blast+
  obtain fa1 m1 where 1: "clone_child_table pg p4 (pg_index pg 4 va) fa m = (Inr n3, fa1, m1)" "free_frames fa1 = n2 # n1 # rest"
    using clone_child_table_succeeds[OF p(1) free] by blast
  obtain c3 where c3: "pg_frame pg (entry_at m p4 (pg_index pg 4 va)) = FrameAt c3"
      "\<forall>i. i < 512 \<longrightarrow> entry_at m1 n3 i = entry_at m c3 i"
      "\<forall>t i. frame_addr t \<longrightarrow> i < 512 \<longrightarrow> t \<noteq> p4 \<longrightarrow> t \<noteq> n3 \<longrightarrow> entry_at m1 t i = entry_at m t i"
    using clone_child_table_entries[OF 1(1) ok(1,2,5)] by metis
  have 12: "pg_frame pg (entry_at m1 n3 (pg_index pg 3 va)) = FrameAt p2"
    using c3(2)[rule_format, OF index_less] c3(1) p(1,2) by simp
  obtain fa2 m2 where 2: "clone_child_table pg n3 (pg_index pg 3 va) fa1 m1 = (Inr n2, fa2, m2)" "free_frames fa2 = n1 # rest"
    using clone_child_table_succeeds[OF 12 1(2)] by blast
  obtain c2 where c2: "pg_frame pg (entry_at m1 n3 (pg_index pg 3 va)) = FrameAt c2"
      "\<forall>i. i < 512 \<longrightarrow> entry_at m2 n2 i = entry_at m1 c2 i"
    using clone_child_table_entries[OF 2(1) ok(2,3) ok(6)[symmetric]] by metis
  have 23: "pg_frame pg (entry_at m2 n2 (pg_index pg 2 va)) = FrameAt p1"
    using c2(2)[rule_format, OF index_less] c2(1) 12 c3(3)[rule_format, OF b2(2) index_less] b2(1) p(3) by simp
  obtain fa3 m3 where 3: "clone_child_table pg n2 (pg_index pg 2 va) fa2 m2 = (Inr n1, fa3, m3)"
    using clone_child_table_succeeds[OF 23 2(2)] by blast
  show ?thesis by (simp add: map_private_user_page_def 1(1) 2(1) 3)
qed

end

section \<open>Mapping many pages\<close>

definition pages_mapped :: "paging \<Rightarrow> u64 \<Rightarrow> u64 list \<Rightarrow> u64 list \<Rightarrow> mem \<Rightarrow> u64 list \<Rightarrow> mem \<Rightarrow> u64 list \<Rightarrow> bool" where
  "pages_mapped pg p4 vas frames m free m' free' \<longleftrightarrow>
     private_space_ok pg m' p4 free' \<and> length frames = length vas \<and>
     distinct (frames @ free') \<and> set (frames @ free') \<subseteq> set free \<and> length free = 4 * length vas + length free' \<and>
     (\<forall>q. q < 2 ^ 48 \<longrightarrow> translate_addr pg m' p4 q =
        (case map_of (zip vas frames) (page_of q) of
           Some f \<Rightarrow> TranslatedTo (f + (q AND mask 12)) | None \<Rightarrow> translate_addr pg m p4 q)) \<and>
     (\<forall>x. (\<forall>t\<in>set (p4 # free). \<not> unat (x - t) < 4096) \<longrightarrow> m' x = m x)"

lemma pages_mappedD:
  assumes "pages_mapped pg p4 vas frames m free m' free'"
  shows "private_space_ok pg m' p4 free'" "length frames = length vas" "distinct frames" "set frames \<subseteq> set free"
    "length free = 4 * length vas + length free'"
    "q < 2 ^ 48 \<Longrightarrow> translate_addr pg m' p4 q =
        (case map_of (zip vas frames) (page_of q) of
           Some f \<Rightarrow> TranslatedTo (f + (q AND mask 12)) | None \<Rightarrow> translate_addr pg m p4 q)"
    "\<forall>t\<in>set (p4 # free). \<not> unat (x - t) < 4096 \<Longrightarrow> m' x = m x"
  using assms unfolding pages_mapped_def distinct_append set_append by blast+

lemma pages_mapped_Nil: "private_space_ok pg m p4 free \<Longrightarrow> pages_mapped pg p4 [] [] m free m free"
  by (simp add: pages_mapped_def private_space_ok_def)

lemma pages_mapped_append:
  assumes "pages_mapped pg p4 vas fs m free m1 free1" "pages_mapped pg p4 vbs gs m1 free1 m2 free2"
    and "set vas \<inter> set vbs = {}"
  shows "pages_mapped pg p4 (vas @ vbs) (fs @ gs) m free m2 free2"
proof -
  note a = assms(1)[unfolded pages_mapped_def] and b = assms(2)[unfolded pages_mapped_def]
  have la: "length fs = length vas" and lb: "length gs = length vbs" using a b by blast+
  have z: "zip (vas @ vbs) (fs @ gs) = zip vas fs @ zip vbs gs" using la by simp
  have "translate_addr pg m2 p4 q = (case map_of (zip (vas @ vbs) (fs @ gs)) (page_of q) of
      Some f \<Rightarrow> TranslatedTo (f + (q AND mask 12)) | None \<Rightarrow> translate_addr pg m p4 q)" if "q < 2 ^ 48" for q
  proof -
    have "map_of (zip vas fs) (page_of q) = None \<or> map_of (zip vbs gs) (page_of q) = None"
      using assms(3) by (metis disjoint_iff map_of_SomeD not_None_eq set_zip_leftD)
    moreover have "translate_addr pg m1 p4 q = (case map_of (zip vas fs) (page_of q) of
        Some f \<Rightarrow> TranslatedTo (f + (q AND mask 12)) | None \<Rightarrow> translate_addr pg m p4 q)" using a that by blast
    moreover have "translate_addr pg m2 p4 q = (case map_of (zip vbs gs) (page_of q) of
        Some f \<Rightarrow> TranslatedTo (f + (q AND mask 12)) | None \<Rightarrow> translate_addr pg m1 p4 q)" using b that by blast
    ultimately show ?thesis unfolding z map_of_append map_add_def by (auto split: option.splits)
  qed
  moreover have "m2 x = m x" if "\<forall>t\<in>set (p4 # free). \<not> unat (x - t) < 4096" for x
  proof -
    have "set free1 \<subseteq> set free" using a by simp
    then have "\<forall>t\<in>set (p4 # free1). \<not> unat (x - t) < 4096" using that by auto
    then have "m2 x = m1 x" using b by blast
    also have "m1 x = m x" using a that by blast
    finally show ?thesis .
  qed
  moreover have "distinct ((fs @ gs) @ free2)" "set ((fs @ gs) @ free2) \<subseteq> set free"
  proof -
    have "distinct (fs @ free1)" "set (fs @ free1) \<subseteq> set free" "distinct (gs @ free2)" "set (gs @ free2) \<subseteq> set free1"
      using a b by blast+
    then show "distinct ((fs @ gs) @ free2)" "set ((fs @ gs) @ free2) \<subseteq> set free" by auto
  qed
  moreover have "length (fs @ gs) = length (vas @ vbs)" using la lb by simp
  moreover have "length free = 4 * length (vas @ vbs) + length free2"
  proof -
    have "length free = 4 * length vas + length free1" "length free1 = 4 * length vbs + length free2" using a b by blast+
    then show ?thesis by simp
  qed
  moreover have "private_space_ok pg m2 p4 free2" using b by blast
  ultimately show ?thesis unfolding pages_mapped_def by blast
qed

definition user_page :: "u64 \<Rightarrow> bool" where
  "user_page va \<longleftrightarrow> page_of va = va \<and> va < 2 ^ 48"

context paging_spec
begin

lemma private_space_ok_tl: "private_space_ok pg m p4 (f # free) \<Longrightarrow> private_space_ok pg m p4 free"
  by (simp add: private_space_ok_def)

lemma map_one_page:
  assumes "allocate_frame fa = (Some frame, fa1)" "map_private_user_page pg p4 va frame fa1 m = (Inr (), fa', m')"
    and "private_space_ok pg m p4 (free_frames fa)" "user_page va"
  shows "pages_mapped pg p4 [va] [frame] m (free_frames fa) m' (free_frames fa')"
proof -
  have free: "free_frames fa = frame # free_frames fa1" by (rule allocate_frame_Some[OF assms(1)])
  have ok: "private_space_ok pg m p4 (free_frames fa1)" "frame_addr frame" "frame \<notin> set (free_frames fa1)"
    using assms(3) free private_space_ok_tl unfolding private_space_ok_def by auto
  note s = map_private_user_page_step[OF assms(2) ok(2,1)]
  obtain n3 n2 n1 where n: "free_frames fa1 = n3 # n2 # n1 # free_frames fa'"
      "\<forall>x. (\<forall>t\<in>{p4, n3, n2, n1}. \<not> unat (x - t) < 4096) \<longrightarrow> m' x = m x"
    using s(3) by blast
  have "same_path pg q va \<longleftrightarrow> page_of q = va" if "q < 2 ^ 48" for q
    using same_path_page[OF that, of va] assms(4) by (simp add: user_page_def)
  then show ?thesis
    using s(1,2) n ok(3) free unfolding pages_mapped_def by (auto simp: private_space_ok_def)
qed

lemma map_private_pages_mapped:
  assumes "private_space_ok pg m p4 (free_frames fa)" "distinct vas" "list_all user_page vas" "4 * length vas \<le> length (free_frames fa)"
    and "\<And>va. va \<in> set vas \<Longrightarrow> \<exists>a. translate_addr pg m p4 va = TranslatedTo a"
  shows "\<exists>frames fa' m'. map_private_pages pg p4 vas fa m = (Inr frames, fa', m') \<and>
    pages_mapped pg p4 vas frames m (free_frames fa) m' (free_frames fa')"
  using assms
proof (induction vas arbitrary: fa m)
  case Nil
  then show ?case by (auto intro: pages_mapped_Nil)
next
  case (Cons va vas)
  obtain frame rest where "free_frames fa = frame # rest" using Cons.prems(4) by (cases "free_frames fa") auto
  then obtain fa1 where fa1: "allocate_frame fa = (Some frame, fa1)"
    using clone_child_table_succeeds by (cases "allocate_frame fa"; cases "fst (allocate_frame fa)")
      (auto simp: allocate_frame_def Let_def free_frames_def nth_via_drop split: if_splits)
  have free: "free_frames fa = frame # free_frames fa1" by (rule allocate_frame_Some[OF fa1])
  have "private_space_ok pg m p4 (free_frames fa1)" using Cons.prems(1) free private_space_ok_tl by simp
  moreover obtain a where "translate_addr pg m p4 va = TranslatedTo a" using Cons.prems(5) by auto
  moreover have "3 \<le> length (free_frames fa1)" using Cons.prems(4) free by simp
  ultimately obtain fa2 m2 where 2: "map_private_user_page pg p4 va frame fa1 m = (Inr (), fa2, m2)"
    using map_private_user_page_succeeds by blast
  have one: "pages_mapped pg p4 [va] [frame] m (free_frames fa) m2 (free_frames fa2)"
    using map_one_page[OF fa1 2 Cons.prems(1)] Cons.prems(3) by simp
  note o = one[unfolded pages_mapped_def]
  have "\<exists>a. translate_addr pg m2 p4 w = TranslatedTo a" if "w \<in> set vas" for w
  proof -
    have "page_of w = w" "w < 2 ^ 48" "w \<noteq> va" using Cons.prems(2,3) that by (auto simp: list_all_iff user_page_def)
    then show ?thesis using o Cons.prems(5)[of w] that by (auto simp: user_page_def)
  qed
  moreover have "4 * length vas \<le> length (free_frames fa2)" using o Cons.prems(4) by simp
  ultimately obtain frames fa' m' where r: "map_private_pages pg p4 vas fa2 m2 = (Inr frames, fa', m')"
      "pages_mapped pg p4 vas frames m2 (free_frames fa2) m' (free_frames fa')"
    using Cons.IH[of m2 fa2] o Cons.prems(2,3) by auto
  have "pages_mapped pg p4 (va # vas) (frame # frames) m (free_frames fa) m' (free_frames fa')"
    using pages_mapped_append[OF one r(2)] Cons.prems(2) by simp
  then show ?case using fa1 2 r(1) by simp
qed


lemma map_private_stacks_mapped:
  assumes "private_space_ok pg m p4 (free_frames fa)" "distinct (concat (map stack_pages slots))"
    "list_all user_page (concat (map stack_pages slots))"
    "4 * length (concat (map stack_pages slots)) \<le> length (free_frames fa)"
    and "\<And>va. va \<in> set (concat (map stack_pages slots)) \<Longrightarrow> \<exists>a. translate_addr pg m p4 va = TranslatedTo a"
  shows "\<exists>frames fa' m'. map_private_stacks pg p4 slots fa m = (Inr frames, fa', m') \<and> length frames = length slots \<and>
    pages_mapped pg p4 (concat (map stack_pages slots)) (concat frames) m (free_frames fa) m' (free_frames fa')"
  using assms
proof (induction slots arbitrary: fa m)
  case Nil
  then show ?case by (auto intro: pages_mapped_Nil)
next
  case (Cons slot slots)
  let ?rest = "concat (map stack_pages slots)"
  obtain fs fa1 m1 where 1: "map_private_pages pg p4 (stack_pages slot) fa m = (Inr fs, fa1, m1)"
      "pages_mapped pg p4 (stack_pages slot) fs m (free_frames fa) m1 (free_frames fa1)"
    using map_private_pages_mapped[OF Cons.prems(1), of "stack_pages slot"] Cons.prems(2-5) by auto
  note o = 1(2)[unfolded pages_mapped_def]
  have "\<exists>a. translate_addr pg m1 p4 w = TranslatedTo a" if w: "w \<in> set ?rest" for w
  proof -
    have "page_of w = w" "w < 2 ^ 48" using Cons.prems(3) w by (auto simp: list_all_iff user_page_def)
    moreover obtain a where "translate_addr pg m p4 w = TranslatedTo a" using Cons.prems(5)[of w] w by auto
    moreover have "translate_addr pg m1 p4 w = (case map_of (zip (stack_pages slot) fs) (page_of w) of
        Some f \<Rightarrow> TranslatedTo (f + (w AND mask 12)) | None \<Rightarrow> translate_addr pg m p4 w)"
      using o \<open>w < 2 ^ 48\<close> by blast
    ultimately show ?thesis by (cases "map_of (zip (stack_pages slot) fs) (page_of w)") simp_all
  qed
  moreover have "length (free_frames fa) = 4 * length (stack_pages slot) + length (free_frames fa1)" using o by blast
  then have "4 * length ?rest \<le> length (free_frames fa1)" using Cons.prems(4) by simp
  moreover have "private_space_ok pg m1 p4 (free_frames fa1)" using o by blast
  ultimately obtain gs fa' m' where 2: "map_private_stacks pg p4 slots fa1 m1 = (Inr gs, fa', m')" "length gs = length slots"
      "pages_mapped pg p4 ?rest (concat gs) m1 (free_frames fa1) m' (free_frames fa')"
    using Cons.IH[of m1 fa1] Cons.prems(2,3) by auto
  have "pages_mapped pg p4 (stack_pages slot @ ?rest) (fs @ concat gs) m (free_frames fa) m' (free_frames fa')"
    using Cons.prems(2) by (intro pages_mapped_append[OF 1(2) 2(3)]) auto
  then show ?case using 1(1) 2(1,2) by simp
qed

text \<open>A level-4 table copied from the active one sees the same memory.\<close>

lemma copied_space:
  assumes "private_space_ok pg m cr3 (p4 # free)"
  shows "private_space_ok pg (copy_frame cr3 p4 m) p4 free"
    and "translate_addr pg (copy_frame cr3 p4 m) p4 q = translate_addr pg m cr3 q"
proof -
  let ?m = "copy_frame cr3 p4 m"
  have p4: "frame_addr p4" using assms by (simp add: private_space_ok_def)
  have copy: "entry_at ?m p4 (pg_index pg l r) = entry_at m cr3 (pg_index pg l r)" for l r
    by (simp add: entry_copy_frame[OF p4 p4 index_less])
  have same: "\<forall>t l. table_below pg m cr3 t \<longrightarrow> entry_at ?m t (pg_index pg l r) = entry_at m t (pg_index pg l r)" for r
    using assms entry_copy_frame[OF below_frame p4 index_less] unfolding private_space_ok_def by auto
  show "translate_addr pg ?m p4 q = translate_addr pg m cr3 q"
    unfolding translate_addr_def translate_levels.simps(2)[of _ _ _ _ 4] copy
    using walk_same(1)[OF same] by (simp split: frame_result.splits del: translate_levels.simps)
  have "table_below pg m cr3 t" if below: "table_below pg ?m p4 t" for t
  proof -
    obtain r t3 where r: "pg_frame pg (entry_at m cr3 (pg_index pg 4 r)) = FrameAt t3"
      and t: "t = t3 \<or> (\<exists>t2. pg_frame pg (entry_at ?m t3 (pg_index pg 3 r)) = FrameAt t2 \<and>
           (t = t2 \<or> pg_frame pg (entry_at ?m t2 (pg_index pg 2 r)) = FrameAt t))"
      using below unfolding table_below_def copy by blast
    have "table_below pg m cr3 t3" "pg_frame pg (entry_at m t3 (pg_index pg 3 r)) = FrameAt t2 \<Longrightarrow> table_below pg m cr3 t2" for t2
      using r unfolding table_below_def by blast+
    then show ?thesis using r t same unfolding table_below_def by metis
  qed
  then show "private_space_ok pg ?m p4 free" using assms unfolding private_space_ok_def by auto
qed

lemma entry_unchanged:
  assumes "frame_addr t" "list_all frame_addr fs" "t \<notin> set fs" "i < 512"
    and "\<forall>x. (\<forall>f\<in>set fs. \<not> unat (x - f) < 4096) \<longrightarrow> m' x = m x"
  shows "entry_at m' t i = entry_at m t i"
proof -
  have "m' (t + of_nat (8 * i + k)) = m (t + of_nat (8 * i + k))" if "k < 8" for k
  proof -
    have "8 * i + k < 4096" using assms(4) that by simp
    then have "\<not> unat (t + of_nat (8 * i + k) - f) < 4096" if "f \<in> set fs" for f
      using in_frame[OF frame_addr_aligned[OF assms(1)] frame_addr_aligned[of f], of "8 * i + k"] assms(2,3) that
      by (auto simp: list_all_iff simp del: of_nat_add of_nat_mult)
    then show ?thesis using assms(5) by blast
  qed
  then show ?thesis unfolding entry_bytes by (intro arg_cong[where f = u64_of_le] map_cong refl) simp
qed

lemma kept_space:
  assumes "private_space_ok pg m cr3 free" "\<forall>x. (\<forall>f\<in>set free. \<not> unat (x - f) < 4096) \<longrightarrow> m' x = m x"
  shows "translate_addr pg m' cr3 q = translate_addr pg m cr3 q"
proof -
  have ok: "frame_addr cr3" "list_all frame_addr free" "cr3 \<notin> set free" "\<And>t. table_below pg m cr3 t \<Longrightarrow> t \<notin> set free"
    using assms(1) by (auto simp: private_space_ok_def)
  have "\<forall>t l. table_below pg m cr3 t \<longrightarrow> entry_at m' t (pg_index pg l q) = entry_at m t (pg_index pg l q)"
    using entry_unchanged[OF below_frame ok(2) ok(4) index_less assms(2)] by blast
  from walk_same(1)[OF this] show ?thesis
    unfolding translate_addr_def translate_levels.simps(2)[of _ _ _ _ 4]
      entry_unchanged[OF ok(1-3) index_less assms(2)]
    by (simp split: frame_result.splits del: translate_levels.simps)
qed

end

section \<open>A private address space\<close>

text \<open>The pages a private address space has of its own, and the frames its slot keeps for them.\<close>

definition all_stack_pages :: "u64 list" where
  "all_stack_pages = concat (map stack_pages [0..<PRIVATE_STACK_SLOT_COUNT])"

definition user_pages :: "nat \<Rightarrow> u64 list" where
  "user_pages n = program_pages n @ all_stack_pages"

definition user_frames :: "nat \<Rightarrow> p4_slot \<Rightarrow> u64 list" where
  "user_frames n slot = take n (s_program_frames slot) @ concat (s_stack_frames slot)"

lemma all_stack_pages_eq:
  "all_stack_pages =
    [0x13fc000, 0x13fd000, 0x13fe000, 0x13ff000, 0x13f7000, 0x13f8000, 0x13f9000, 0x13fa000,
     0x13f2000, 0x13f3000, 0x13f4000, 0x13f5000, 0x13ed000, 0x13ee000, 0x13ef000, 0x13f0000,
     0x13e8000, 0x13e9000, 0x13ea000, 0x13eb000, 0x13e3000, 0x13e4000, 0x13e5000, 0x13e6000,
     0x13de000, 0x13df000, 0x13e0000, 0x13e1000, 0x13d9000, 0x13da000, 0x13db000, 0x13dc000]"
  by (simp add: all_stack_pages_def stack_pages_def stack_range_for_slot_def layout_consts
    PRIVATE_STACK_SLOT_COUNT_def PRIVATE_STACK_PAGE_COUNT_def Let_def upt_rec)

lemma stack_pages_apart:
  "distinct all_stack_pages" "list_all user_page all_stack_pages" "list_all (\<lambda>p. 0x1040000 \<le> p) all_stack_pages"
  "length all_stack_pages = 32"
  unfolding all_stack_pages_eq by (simp_all add: user_page_def page_of_page)

lemma unat_of_nat_small:
  assumes "n < 2 ^ 64"
  shows "unat (of_nat n :: u64) = n"
  using assms by (simp add: unat_of_nat)

lemma unat_program_page:
  assumes "i < MAX_PRIVATE_PROGRAM_PAGE_COUNT"
  shows "unat (FIRST_USER_ENTRY + of_nat i * 4096) = 0x1000000 + i * 4096"
proof -
  have i: "i < 64" using assms by (simp add: MAX_PRIVATE_PROGRAM_PAGE_COUNT_def)
  have e: "FIRST_USER_ENTRY + of_nat i * 4096 = of_nat (0x1000000 + i * 4096)"
    by (simp add: FIRST_USER_ENTRY_def USER_BASE_def)
  show ?thesis unfolding e by (rule unat_of_nat_small) (use i in simp)
qed

lemma program_pages_apart:
  assumes "n \<le> MAX_PRIVATE_PROGRAM_PAGE_COUNT"
  shows "distinct (program_pages n)" "list_all user_page (program_pages n)" "list_all (\<lambda>p. p < 0x1040000) (program_pages n)"
proof -
  have u: "unat (FIRST_USER_ENTRY + of_nat i * 4096) = 0x1000000 + i * 4096" if "i < n" for i
    using that assms by (intro unat_program_page) simp
  have "i = j" if "i < n" "j < n" "FIRST_USER_ENTRY + of_nat i * 4096 = FIRST_USER_ENTRY + of_nat j * 4096" for i j
    using u[OF that(1)] u[OF that(2)] unfolding that(3) by linarith
  then have "inj_on (\<lambda>i. FIRST_USER_ENTRY + of_nat i * 4096) (set [0..<n])" unfolding inj_on_def set_upt by auto
  then show "distinct (program_pages n)" unfolding program_pages_def distinct_map by (intro conjI distinct_upt)
  have "user_page p \<and> p < 0x1040000" if p: "p \<in> set (program_pages n)" for p
  proof -
    obtain i where i: "p = FIRST_USER_ENTRY + of_nat i * 4096" "i \<in> set [0..<n]"
      using p unfolding program_pages_def set_map by (elim imageE)
    have "i < n" using i(2) by simp
    then have "unat p = 0x1000000 + i * 4096" unfolding i(1) by (rule u)
    moreover have "i < 64" using \<open>i < n\<close> assms unfolding MAX_PRIVATE_PROGRAM_PAGE_COUNT_def by linarith
    moreover have "(0x1000000 + i * 4096) mod 4096 = 0" by (simp add: mod_add_eq)
    ultimately have "unat p mod 4096 = 0" "unat p < 0x1040000" by simp_all
    then show ?thesis using page_of_page[of p] by (simp add: word_less_nat_alt user_page_def)
  qed
  then show "list_all user_page (program_pages n)" "list_all (\<lambda>p. p < 0x1040000) (program_pages n)"
    by (simp_all add: list_all_iff)
qed

lemma user_pages_apart:
  assumes "n \<le> MAX_PRIVATE_PROGRAM_PAGE_COUNT"
  shows "distinct (user_pages n)" "list_all user_page (user_pages n)" "length (user_pages n) = n + 32"
  using program_pages_apart[OF assms] stack_pages_apart
  by (fastforce simp: user_pages_def list_all_iff program_pages_def)+

text \<open>
  C10: a private address space is private.  From a kernel address space that maps the user window and
  enough free frames, \<^verbatim>\<open>prepare_private_p4_slot\<close> succeeds; the frames it gives the program pages and the
  stacks are distinct free frames; through the new level-4 table every address of those pages leads to
  its own frame and every other address to where it led before; and the translation of the kernel
  address space is the same as before at every address.
\<close>

theorem prepare_private_p4_slot_exact:
  assumes "paging_spec pg" "private_space_ok pg m cr3 (p4 # free_frames fa)"
    and "n \<le> MAX_PRIVATE_PROGRAM_PAGE_COUNT" "4 * (n + 32) \<le> length (free_frames fa)"
    and "\<forall>va\<in>set (user_pages n). \<exists>a. translate_addr pg m cr3 va = TranslatedTo a"
  shows "\<exists>slot fa' m'. prepare_private_p4_slot pg cr3 p4 n fa m = (Inr slot, fa', m') \<and> s_p4_frame slot = p4 \<and>
    distinct (user_frames n slot) \<and> set (user_frames n slot) \<subseteq> set (free_frames fa) \<and>
    (\<forall>q. q < 2 ^ 48 \<longrightarrow> translate_addr pg m' p4 q =
       (case map_of (zip (user_pages n) (user_frames n slot)) (page_of q) of
          Some f \<Rightarrow> TranslatedTo (f + (q AND mask 12)) | None \<Rightarrow> translate_addr pg m cr3 q)) \<and>
    (\<forall>q. translate_addr pg m' cr3 q = translate_addr pg m cr3 q)"
proof -
  let ?m = "copy_frame cr3 p4 m"
  note c = paging_spec.copied_space[OF assms(1,2)]
  let ?st = "[0..<PRIVATE_STACK_SLOT_COUNT]"
  have n: "min n MAX_PRIVATE_PROGRAM_PAGE_COUNT = n" and len: "length (program_pages n) = n"
    using assms(3) by (simp_all add: program_pages_def)
  have mapped: "\<And>va. va \<in> set (user_pages n) \<Longrightarrow> \<exists>a. translate_addr pg ?m p4 va = TranslatedTo a"
    using assms(5) c(2) by simp
  note pp = program_pages_apart[OF assms(3)] and sp = stack_pages_apart and up = user_pages_apart[OF assms(3)]
  obtain fs fa1 m1 where 1: "map_private_pages pg p4 (program_pages n) fa ?m = (Inr fs, fa1, m1)"
      "pages_mapped pg p4 (program_pages n) fs ?m (free_frames fa) m1 (free_frames fa1)"
    using paging_spec.map_private_pages_mapped[OF assms(1) c(1) pp(1,2) _ mapped] assms(4)
    unfolding len user_pages_def set_append by (metis UnI1 add_leD1 distrib_left)
  note o = pages_mappedD[OF 1(2)]
  have "\<exists>a. translate_addr pg m1 p4 w = TranslatedTo a" if w: "w \<in> set (all_stack_pages)" for w
  proof -
    have "w < 2 ^ 48" using sp(2) w by (simp add: list_all_iff user_page_def)
    then show ?thesis
      using o(6)[of w] mapped[of w] w by (cases "map_of (zip (program_pages n) fs) (page_of w)") (simp_all add: user_pages_def)
  qed
  moreover have "length (free_frames fa) = 4 * n + length (free_frames fa1)" using o(5) len by simp
  then have "4 * length (all_stack_pages) \<le> length (free_frames fa1)" using assms(4) sp(4) by simp
  moreover have "private_space_ok pg m1 p4 (free_frames fa1)" by (rule o(1))
  ultimately obtain gs fa' m' where 2: "map_private_stacks pg p4 ?st fa1 m1 = (Inr gs, fa', m')"
      "pages_mapped pg p4 (all_stack_pages) (concat gs) m1 (free_frames fa1) m' (free_frames fa')"
    using paging_spec.map_private_stacks_mapped[OF assms(1) _ sp(1,2)[unfolded all_stack_pages_def]]
    unfolding all_stack_pages_def by blast
  have "set (program_pages n) \<inter> set (all_stack_pages) = {}" using up(1) by (simp add: user_pages_def)
  note all = pages_mappedD[OF pages_mapped_append[OF 1(2) 2(2) this]]
  obtain slot where slot: "prepare_private_p4_slot pg cr3 p4 n fa m = (Inr slot, fa', m')" "s_p4_frame slot = p4"
      "s_program_frames slot = fs @ replicate (MAX_PRIVATE_PROGRAM_PAGE_COUNT - length fs) 0" "s_stack_frames slot = gs"
    using 1(1) 2(1) n by (simp add: prepare_private_p4_slot_def)
  have uf: "user_frames n slot = fs @ concat gs" using slot o(2) len by (simp add: user_frames_def)
  have "\<forall>x. (\<forall>f\<in>set (p4 # free_frames fa). \<not> unat (x - f) < 4096) \<longrightarrow> m' x = m x"
  proof (intro allI impI)
    fix x assume x: "\<forall>f\<in>set (p4 # free_frames fa). \<not> unat (x - f) < 4096"
    have "m' x = ?m x" by (rule all(7)[OF x])
    moreover have "\<not> unat (x - p4) < 4096" using x by simp
    ultimately show "m' x = m x" unfolding copy_frame_def by (simp only: if_False)
  qed
  then have kept: "translate_addr pg m' cr3 q = translate_addr pg m cr3 q" for q
    by (rule paging_spec.kept_space[OF assms(1,2)])
  have mapped': "translate_addr pg m' p4 q = (case map_of (zip (user_pages n) (user_frames n slot)) (page_of q) of
      Some f \<Rightarrow> TranslatedTo (f + (q AND mask 12)) | None \<Rightarrow> translate_addr pg m cr3 q)" if "q < 2 ^ 48" for q
    unfolding uf user_pages_def using all(6)[OF that] unfolding c(2) .
  show ?thesis
    by (intro exI[of _ slot] exI[of _ fa'] exI[of _ m'] conjI allI impI slot(1,2) all(3,4)[folded uf] mapped' kept)
qed

text \<open>Tables in which every entry of a level leads to the same table of the next level, and free frames elsewhere.\<close>

definition window_tables :: mem where
  "window_tables a =
     (let t = unat a div 4096
      in if t < 1 \<or> 4 < t then 0 else if unat a mod 8 = 0 then 7 else if unat a mod 8 = 1 then of_nat (16 * (t + 1)) else 0)"

definition window_allocator :: frame_allocator where
  "window_allocator = \<lparr>fa_memory_map = [\<lparr>mr_start = 0x100000, mr_end = 0x184000, mr_usable = True\<rparr>], fa_next = 0\<rparr>"

lemma window_byte:
  assumes "k \<in> {1, 2, 3, 4}" "i < 512" "j < 8"
  shows "window_tables (of_nat (4096 * k) + of_nat (8 * i + j)) = (if j = 0 then 7 else if j = 1 then of_nat (16 * (k + 1)) else 0)"
proof -
  have k: "1 \<le> k" "k \<le> 4" using assms(1) by auto
  have lt: "4096 * k + (8 * i + j) < 32768" using k assms(2,3) by linarith
  have "(32768 :: nat) < 2 ^ 64" by simp
  then have u: "unat (of_nat (4096 * k) + of_nat (8 * i + j) :: u64) = 4096 * k + (8 * i + j)"
    unfolding of_nat_add[symmetric] by (rule unat_of_nat_small[OF order.strict_trans[OF lt]])
  have "(8 * i + j) div 4096 = 0" using assms(2,3) by (intro div_less) linarith
  then have t: "(4096 * k + (8 * i + j)) div 4096 = k" by (subst div_mult_self4) simp_all
  have r: "(4096 * k + (8 * i + j)) mod 8 = j"
  proof -
    have "4096 * k + (8 * i + j) = j + 8 * (512 * k + i)" by simp
    then show ?thesis using assms(3) by (simp only: mod_mult_self2) simp
  qed
  show ?thesis using k unfolding window_tables_def Let_def u t r by simp
qed

lemma window_entry:
  assumes "k \<in> {1, 2, 3, 4}" "i < 512"
  shows "entry_at window_tables (of_nat (4096 * k)) i = of_nat (4096 * (k + 1) + 7)"
proof -
  have "map (\<lambda>j. window_tables (of_nat (4096 * k) + of_nat (8 * i + j))) [0..<8] =
      map (\<lambda>j. if j = 0 then 7 else if j = 1 then of_nat (16 * (k + 1)) else 0) [0..<8]"
    by (intro map_cong refl window_byte assms) simp
  also have "\<dots> = [7, of_nat (16 * (k + 1)), 0, 0, 0, 0, 0, 0]" by (simp add: upt_rec)
  finally show ?thesis using assms(1) unfolding entry_bytes by (elim insertE) (simp_all add: u64_of_le_def)
qed

lemma window_entries:
  "i < 512 \<Longrightarrow> entry_at window_tables 0x1000 i = 0x2007" "i < 512 \<Longrightarrow> entry_at window_tables 0x2000 i = 0x3007"
  "i < 512 \<Longrightarrow> entry_at window_tables 0x3000 i = 0x4007" "i < 512 \<Longrightarrow> entry_at window_tables 0x4000 i = 0x5007"
  using window_entry[of 1 i] window_entry[of 2 i] window_entry[of 3 i] window_entry[of 4 i] by simp_all

lemma window_frames:
  "pg_frame x86_paging 0x2007 = FrameAt 0x2000" "pg_frame x86_paging 0x3007 = FrameAt 0x3000"
  "pg_frame x86_paging 0x4007 = FrameAt 0x4000" "pg_frame x86_paging 0x5007 = FrameAt 0x5000"
  by (simp_all add: x86_paging_def flags_contain_def ADDR_MASK_def mask_numeral)

lemma window_translates: "translate_addr x86_paging window_tables 0x1000 va = TranslatedTo (0x5000 + (va AND mask 12))"
  by (simp add: translate_addr_def window_entries window_frames x86.index_less)

lemma frame_addr_small:
  assumes "unat f mod 4096 = 0" "f < 2 ^ 52"
  shows "frame_addr f"
proof -
  have hi: "take_bit 52 f = f"
    using assms(2) by (simp add: word_unat_eq_iff unsigned_take_bit_eq word_less_nat_alt take_bit_nat_eq_self)
  have lo: "f AND NOT (mask 12) = f" using page_of_page[OF assms(1)] by (simp add: page_of_def)
  have "12 \<le> k \<and> k - 12 < 40" if "bit f k" for k
    using that bit_take_bit_iff[of 52 f k] bit_and_iff[of f "NOT (mask 12)" k] unfolding hi lo
    by (auto simp: bit_not_iff bit_mask_iff)
  then show ?thesis unfolding frame_addr_def ADDR_MASK_def
    by (intro bit_eqI) (auto simp: bit_and_iff bit_push_bit_iff bit_mask_iff)
qed

lemma window_free_frames:
  "length (free_frames window_allocator) = 132" "distinct (free_frames window_allocator)"
  "f \<in> set (free_frames window_allocator) \<Longrightarrow> frame_addr f \<and> 0x100000 \<le> f"
proof -
  let ?r = "\<lparr>mr_start = 0x100000, mr_end = 0x184000, mr_usable = True\<rparr> :: memory_region"
  have ok: "region_ok ?r" by (simp add: region_ok_def)
  have eq: "free_frames window_allocator = region_frames ?r"
    using usable_frames_eq[of window_allocator] ok by (simp add: free_frames_def window_allocator_def)
  show "length (free_frames window_allocator) = 132" unfolding eq by (simp add: region_frames_def div_ceil_def)
  show "distinct (free_frames window_allocator)" unfolding eq by (rule distinct_region_frames[OF ok])
  show "frame_addr f \<and> 0x100000 \<le> f" if "f \<in> set (free_frames window_allocator)"
  proof -
    note i = region_frame_in[OF ok that[unfolded eq]]
    have "f < 2 ^ 52" using i(3) by (auto elim: order.strict_trans)
    then show ?thesis using frame_addr_small[OF i(1)] i(2) by simp
  qed
qed

lemma window_space: "private_space_ok x86_paging window_tables 0x1000 (0x90000 # free_frames window_allocator)"
proof -
  have "t \<in> {0x2000, 0x3000, 0x4000}" if "table_below x86_paging window_tables 0x1000 t" for t
    using that unfolding table_below_def by (auto simp: window_entries window_frames x86.index_less)
  moreover have "x \<notin> set (free_frames window_allocator)" if "x < 0x100000" for x
    using window_free_frames(3)[of x] that by auto
  moreover have "frame_addr 0x1000" "frame_addr 0x90000" by (simp_all add: frame_addr_small)
  moreover have "list_all frame_addr (free_frames window_allocator)" using window_free_frames(3) by (simp add: list_all_iff)
  ultimately show ?thesis using window_free_frames(2) unfolding private_space_ok_def by (simp, fastforce)
qed

theorem prepare_private_p4_slot_exact_witness:
  "\<exists>slot fa' m'. prepare_private_p4_slot x86_paging 0x1000 0x90000 1 window_allocator window_tables = (Inr slot, fa', m') \<and>
     distinct (user_frames 1 slot) \<and> translate_addr x86_paging m' 0x1000 0x1000123 = TranslatedTo 0x5123"
proof -
  have "4 * (1 + 32) \<le> length (free_frames window_allocator)" "1 \<le> MAX_PRIVATE_PROGRAM_PAGE_COUNT"
    by (simp_all add: window_free_frames(1) MAX_PRIVATE_PROGRAM_PAGE_COUNT_def)
  moreover have "\<forall>va\<in>set (user_pages 1). \<exists>a. translate_addr x86_paging window_tables 0x1000 va = TranslatedTo a"
    unfolding window_translates by blast
  moreover have "translate_addr x86_paging window_tables 0x1000 0x1000123 = TranslatedTo 0x5123"
    by (simp add: window_translates mask_numeral)
  ultimately show ?thesis
    using prepare_private_p4_slot_exact[OF x86.paging_spec_axioms window_space, of 1] by metis
qed

end
