(* ===== verification/Spec2Isabelle.thy ===== *)
theory Spec2Isabelle
  imports Syscall_Invariant Private_Mapping
begin

text \<open>
  VantaraOs is a kernel for x86-64 in Rust.  User programs run in ring 3 and enter the kernel by
  \<^verbatim>\<open>int 0x80\<close>; the kernel keeps a table of processes with their threads, gives each program a private
  address space, and serves files, pipes, events and messages.  This development models the layer below
  the system call interface and proves what makes it correct.  Paths are below \<^verbatim>\<open>src/kernel/src\<close>.

  \<^bold>\<open>Conventions.\<close>  A \<^verbatim>\<open>struct\<close> is a record with prefixed fields, an \<^verbatim>\<open>enum\<close> a datatype, \<^verbatim>\<open>u8\<close> to \<^verbatim>\<open>u64\<close> are
  words, \<^verbatim>\<open>usize\<close> is a natural number, a string is its list of bytes.  \<^verbatim>\<open>Result\<close> is a sum whose left side is
  the error.  A lock taken for one operation makes it one step of the model, which is sequential.  The
  tick counter is the argument \<open>now\<close>.  What the sources take from elsewhere is a parameter: the format of
  page table entries (\<^verbatim>\<open>x86_64\<close>; laws in the locale \<open>paging_spec\<close>, the documented format satisfies them),
  the decoder of scancodes (\<^verbatim>\<open>pc_keyboard\<close>), the table of program images that the build generates, the PCI
  configuration space, and the filesystems mounted in the virtual filesystem.

  \<^bold>\<open>Shared theories.\<close>
  \<^item> \<open>Kernel_Prelude\<close>: machine integers, the arithmetic of \<^verbatim>\<open>core\<close>, searches in lists, the locale
    \<open>keyed_store\<close>, which the thread store and the process table interpret.
  \<^item> \<open>Byte_Order\<close>: little-endian integers and memory by bytes.
  \<^item> \<open>Bounded_Fifo\<close>: ring buffers and the locale \<open>bounded_fifo\<close>, which pipes, message queues, keyboard bytes
    and input events interpret.

  \<^bold>\<open>Processes.\<close>
  \<^item> \<open>Threads\<close> (\<^verbatim>\<open>user/thread.rs\<close>) is the thread store of a process.
  \<^item> \<open>Process_Types\<close>, \<open>Process_Threads\<close>, \<open>Process_Lifecycle\<close>, \<open>Process_Signals\<close> and \<open>Process_Scheduler\<close>
    (\<^verbatim>\<open>user/process.rs\<close>, \<^verbatim>\<open>ProcessTable\<close>) are the process table, one definition for each method, on the record
    \<open>kproc\<close>.  Its invariant \<open>table_ok\<close> (unique identifiers below the counters, threads that belong to their
    process, a consistent pool of address spaces) is kept by every operation.  The lemmas show that
    identifiers are fresh, that a thread that blocks, joins or waits is resumed with the right value, that
    a child is reaped once, which signal is delivered, which thread runs next, and that preemption loses
    no thread.
  \<^item> \<open>Process_Globals\<close> (the functions of \<^verbatim>\<open>user/process.rs\<close> outside the table, \<^verbatim>\<open>user/program.rs\<close>) has the current
    thread, the end of a process with its files and frames, and the queue of requested programs.

  \<^bold>\<open>Memory and programs.\<close>
  \<^item> \<open>User_Layout\<close> (\<^verbatim>\<open>user/ring3.rs\<close>, the pool of \<^verbatim>\<open>user/address_space.rs\<close>): the layout of a process, the pool of
    level-4 tables and of thread stacks; nothing is handed out twice (locale \<open>exclusive_pool\<close>).
  \<^item> \<open>Page_Tables\<close> (\<^verbatim>\<open>memory.rs\<close>, \<^verbatim>\<open>user/address_space.rs\<close>): the walk of four levels, the check of user ranges
    and the boot frame allocator; the check accepts just the ranges mapped byte by byte.
  \<^item> \<open>Private_Space\<close> and \<open>Private_Mapping\<close> (\<^verbatim>\<open>user/address_space.rs\<close>): building, filling and protecting a private
    address space; its pages lead to frames of its own, other addresses lead where they led, and no page
    is writable and executable.
  \<^item> \<open>Elf\<close> (\<^verbatim>\<open>user/elf.rs\<close>) and \<open>User_Stack\<close> (\<^verbatim>\<open>user/ring3.rs\<close>): reading images inside their bounds, and the first
    stack of a program.

  \<^bold>\<open>Files.\<close>
  \<^item> \<open>Vfs_Path\<close> and \<open>Vfs\<close> (\<^verbatim>\<open>fs.rs\<close>): normalisation of paths, which refines a stack of components, and the routing
    to a mount.  A filesystem is the record of operations that the trait of the source has.
  \<^item> \<open>Fs_Tree\<close> and \<open>Ramfs\<close> (\<^verbatim>\<open>fs/ramfs.rs\<close>, \<^verbatim>\<open>user/images.rs\<close>): trees of directories with parent links (locale
    \<open>tree_store\<close>) and the RAM filesystem; creation and removal bind one path, a rename moves one subtree,
    what was written is read back.

  \<^bold>\<open>Devices.\<close>
  \<^item> \<open>Text_Output\<close> (\<^verbatim>\<open>serial.rs\<close>), \<open>Devices\<close> (\<^verbatim>\<open>drivers/pci.rs\<close>, \<^verbatim>\<open>network.rs\<close>, \<^verbatim>\<open>status.rs\<close>) and \<open>Input\<close> (\<^verbatim>\<open>input.rs\<close>,
    \<^verbatim>\<open>drivers/keyboard.rs\<close>, \<^verbatim>\<open>drivers/mouse.rs\<close>): the log, the registries with their listings, and the input
    queues.

  \<^bold>\<open>System calls\<close> (\<^verbatim>\<open>user/syscall.rs\<close>).
  \<^item> \<open>Ipc\<close> and \<open>Kernel_State\<close>: pipes, events, message queues and descriptors.  The record \<open>ks\<close> is the whole state:
    the process table, these tables, the input queues, the filesystems and the active level-4 table.
  \<^item> \<open>User_Access\<close>: the computations of the handlers, with the check of user ranges and the copies through
    the page tables.  \<open>Syscalls\<close>: the handlers, the table of arms \<open>handlers\<close>, \<open>dispatch\<close> and
    \<open>syscall_interrupt_dispatch\<close>, one trap.
  \<^item> \<open>Syscall_Safety\<close>: a call writes only to memory its caller may write.  The call that spawns a thread is
    left out there: the kernel clears the frames of the new stack through its own map of physical memory.
  \<^item> \<open>Resource_Tables\<close> and \<open>Syscall_Invariant\<close>: every call keeps the invariant \<open>kernel_ok\<close>, as long as the
    counters of identifiers do not wrap; and a number above the last one sends the program to the kernel
    instead of returning an error.

  \<^bold>\<open>Loops and bounds.\<close>  Loops are structural or have a termination proof.  Two could run on: \<open>climb\<close>, the walk
  to the root in a rename, is a partial function whose value is \<open>None\<close> if it does not end; \<open>Ramfs\<close>
  has the proof that it does in every reachable store of the RAM filesystem, and \<open>dispatch\<close> passes \<open>None\<close> on for other
  filesystems.  \<open>wake_waiter\<close> has one round more than an event has places for waiters;
  \<open>wake_waiter_enough\<close> shows that more rounds change nothing.  A reboot does not return and is \<open>None\<close> as well.

  \<^bold>\<open>Not modelled.\<close>  The entry stubs and the switch to user mode (assembly), the landing after a program has
  left the processor, interrupt and segment setup, the kernel's own scheduler and heap, the copying of
  programs into the shared user pages, the device and the persistent filesystem, storage, USB and PS/2
  commands, the screen, the kernel shell, boot, and the user programs themselves: port and memory-mapped
  I/O, context switches, or code above the interface.  Messages on the serial log are left out of the
  handlers.
\<close>

end
